(* ===== verification/Lsw_Prelude.thy ===== *)
theory Lsw_Prelude
  imports Main "HOL-Library.Word" "HOL-Library.Monad_Syntax"
begin

text \<open>
  Shared vocabulary of the development: bytes and their little-endian encodings (the x86
  layout that \<open>LSAPI_ENDIAN\<close> selects in lsapidef.h), the two operations on memory areas
  that the C code performs through \<open>memmove\<close> and pointer arithmetic, C strings, the ASCII
  case functions of \<open>ctype.h\<close>, and the lemma collections the component theories extend.
\<close>

unbundle bit_operations_syntax

named_theorems byte_simps \<open>encoding and decoding of byte sequences\<close>
named_theorems area_simps \<open>reading and writing of memory areas\<close>

type_synonym byte = "8 word"
type_synonym uint32 = "32 word"

subsection \<open>Little-endian encodings\<close>

fun le_bytes :: "nat \<Rightarrow> nat \<Rightarrow> byte list" where
  "le_bytes 0 n = []"
| "le_bytes (Suc k) n = of_nat n # le_bytes k (n div 256)"

fun le_nat :: "byte list \<Rightarrow> nat" where
  "le_nat [] = 0"
| "le_nat (b # bs) = unat b + 256 * le_nat bs"

lemma length_le_bytes [simp]: "length (le_bytes k n) = k"
  by (induction k arbitrary: n) auto

lemma unat_of_nat_byte [simp]: "unat (of_nat n :: byte) = n mod 256"
  by (simp add: unat_of_nat)

lemma unat_byte_less [simp]: "unat (b :: byte) < 256"
proof -
  have "unat b < 2 ^ LENGTH(8)"
    by (rule unsigned_less)
  then show ?thesis by simp
qed

lemma unat_uint32_less [simp]: "unat (w :: uint32) < 4294967296"
proof -
  have "unat w < 2 ^ LENGTH(32)"
    by (rule unsigned_less)
  then show ?thesis by simp
qed

lemma le_nat_less: "le_nat bs < 256 ^ length bs"
proof (induction bs)
  case Nil
  then show ?case by simp
next
  case (Cons b bs)
  have "unat b < 256"
    by (rule unat_byte_less)
  moreover from Cons have "le_nat bs + 1 \<le> 256 ^ length bs"
    by simp
  then have "256 * (le_nat bs + 1) \<le> 256 * 256 ^ length bs"
    by (rule mult_le_mono2)
  ultimately show ?case by (simp, linarith)
qed

lemma le_nat_le_bytes [byte_simps]: "le_nat (le_bytes k n) = n mod 256 ^ k"
proof (induction k arbitrary: n)
  case 0
  then show ?case by simp
next
  case (Suc k)
  have "n mod 256 + 256 * (n div 256 mod 256 ^ k) = n mod (256 * 256 ^ k)"
    by (simp add: mod_mult2_eq)
  with Suc show ?case by simp
qed

lemma le_bytes_le_nat [byte_simps]: "le_bytes (length bs) (le_nat bs) = bs"
proof (induction bs)
  case Nil
  then show ?case by simp
next
  case (Cons b bs)
  have "unat b < 256"
    by (rule unat_byte_less)
  then have "(unat b + 256 * le_nat bs) div 256 = le_nat bs"
    by simp
  moreover have "of_nat (unat b + 256 * le_nat bs) = b"
    by (subst of_nat_eq) (simp add: exI [of _ "le_nat bs"])
  ultimately show ?case using Cons by simp
qed

lemma le_bytes_mod [byte_simps]: "le_bytes k (n mod 256 ^ k) = le_bytes k n"
  by (metis le_bytes_le_nat le_nat_le_bytes length_le_bytes)

lemma le_bytes_eq_iff:
  "n < 256 ^ k \<Longrightarrow> m < 256 ^ k \<Longrightarrow> le_bytes k n = le_bytes k m \<longleftrightarrow> n = m"
  by (metis le_nat_le_bytes mod_less)

lemma le_nat_append [byte_simps]:
  "le_nat (xs @ ys) = le_nat xs + 256 ^ length xs * le_nat ys"
  by (induction xs) (auto simp: algebra_simps)

lemma le_bytes_add [byte_simps]: "le_bytes (j + k) n = le_bytes j n @ le_bytes k (n div 256 ^ j)"
  by (induction j arbitrary: n) (auto simp: div_mult2_eq)

subsection \<open>Memory areas\<close>

text \<open>
  \<open>mem_read i n xs\<close> is what a read of \<open>n\<close> cells at offset \<open>i\<close> returns, \<open>mem_write i src dst\<close>
  the area \<open>dst\<close> after \<open>memmove (dst + i, src, length src)\<close>. Both are used only where the
  access lies inside the area; the operations that can leave it test this and return a
  fault.
\<close>

definition mem_read :: "nat \<Rightarrow> nat \<Rightarrow> 'a list \<Rightarrow> 'a list" where
  "mem_read i n xs = take n (drop i xs)"

definition mem_write :: "nat \<Rightarrow> 'a list \<Rightarrow> 'a list \<Rightarrow> 'a list" where
  "mem_write i src dst = take i dst @ src @ drop (i + length src) dst"

lemma length_mem_read [simp]: "i + n \<le> length xs \<Longrightarrow> length (mem_read i n xs) = n"
  by (simp add: mem_read_def)

lemma length_mem_write [simp]: "i + length src \<le> length dst \<Longrightarrow> length (mem_write i src dst) = length dst"
  by (simp add: mem_write_def)

lemma mem_write_Nil [simp]: "mem_write i [] dst = dst"
  by (simp add: mem_write_def)

lemma mem_read_0 [simp]: "mem_read i 0 xs = []"
  by (simp add: mem_read_def)

lemma take_mem_write [area_simps]:
  "i + length src \<le> length dst \<Longrightarrow> take (i + length src) (mem_write i src dst) = take i dst @ src"
  by (simp add: mem_write_def)

lemma take_mem_write_before [area_simps]:
  "n \<le> i \<Longrightarrow> i \<le> length dst \<Longrightarrow> take n (mem_write i src dst) = take n dst"
  by (simp add: mem_write_def min_def)

lemma mem_read_write [area_simps]:
  "i + length src \<le> length dst \<Longrightarrow> mem_read i (length src) (mem_write i src dst) = src"
  by (simp add: mem_read_def mem_write_def)

lemma mem_write_write [area_simps]:
  assumes "i + length xs + length ys \<le> length dst"
  shows "mem_write (i + length xs) ys (mem_write i xs dst) = mem_write i (xs @ ys) dst"
  using assms by (simp add: mem_write_def ac_simps)

lemma mem_read_append [area_simps]: "mem_read i m xs @ mem_read (i + m) n xs = mem_read i (m + n) xs"
  by (simp add: mem_read_def take_add add.commute)

lemma mem_read_full [area_simps]: "n = length xs \<Longrightarrow> mem_read 0 n (xs @ ys) = xs"
  by (simp add: mem_read_def)

lemma mem_read_shift [area_simps]: "length xs \<le> i \<Longrightarrow> mem_read i n (xs @ ys) = mem_read (i - length xs) n ys"
  by (simp add: mem_read_def)

subsection \<open>C integers\<close>

text \<open>
  An \<open>int32_t\<close> is an HOL integer in the range of the type. \<open>int32_of\<close> reads four native
  bytes, \<open>int32_bytes\<close> is what storing an integer leaves in memory: the value modulo 2^32.
\<close>

definition int32_range :: "int \<Rightarrow> bool" where
  "int32_range n \<longleftrightarrow> - 2147483648 \<le> n \<and> n < 2147483648"

definition int32_of :: "byte list \<Rightarrow> int" where
  "int32_of bs = (let n = int (le_nat bs) mod 4294967296
                  in if n < 2147483648 then n else n - 4294967296)"

definition int32_bytes :: "int \<Rightarrow> byte list" where
  "int32_bytes n = le_bytes 4 (nat (n mod 4294967296))"

definition uint16_of :: "byte list \<Rightarrow> nat" where
  "uint16_of bs = le_nat bs mod 65536"

definition uint16_bytes :: "nat \<Rightarrow> byte list" where
  "uint16_bytes n = le_bytes 2 n"

lemma length_int32_bytes [simp]: "length (int32_bytes n) = 4"
  by (simp add: int32_bytes_def)

lemma length_uint16_bytes [simp]: "length (uint16_bytes n) = 2"
  by (simp add: uint16_bytes_def)

lemma int32_of_range: "int32_range (int32_of bs)"
  by (auto simp: int32_of_def int32_range_def Let_def)

lemma int32_of_bytes [byte_simps]: "int32_range n \<Longrightarrow> int32_of (int32_bytes n) = n"
proof -
  assume "int32_range n"
  moreover have "le_nat (int32_bytes n) = nat (n mod 4294967296)"
    by (simp add: int32_bytes_def le_nat_le_bytes nat_mod_distrib nat_less_iff)
  moreover have "n mod 4294967296 = (if n < 0 then n + 4294967296 else n)" if "int32_range n"
  proof (cases "n < 0")
    case True
    have "n mod 4294967296 = (n + 4294967296) mod 4294967296" by simp
    also have "\<dots> = n + 4294967296"
      using that True by (intro mod_pos_pos_trivial) (auto simp: int32_range_def)
    finally show ?thesis using True by simp
  qed (use that in \<open>simp add: int32_range_def mod_pos_pos_trivial\<close>)
  ultimately show ?thesis
    by (auto simp: int32_of_def int32_range_def Let_def)
qed

lemma uint16_of_bytes [byte_simps]: "n < 65536 \<Longrightarrow> uint16_of (uint16_bytes n) = n"
  by (simp add: uint16_of_def uint16_bytes_def le_nat_le_bytes)

subsection \<open>Accesses through pointers\<close>

text \<open>
  Pointers into a buffer are offsets from its start. The following accesses yield \<open>None\<close>,
  undefined behaviour of the C program, when they leave the buffer; an operation of the
  model that uses them is an \<open>option\<close>, and that it never is \<open>None\<close> is memory safety.
\<close>

definition load :: "int \<Rightarrow> nat \<Rightarrow> byte list \<Rightarrow> byte list option" where
  "load p n buf = (if 0 \<le> p \<and> nat p + n \<le> length buf then Some (mem_read (nat p) n buf) else None)"

definition store :: "int \<Rightarrow> byte list \<Rightarrow> byte list \<Rightarrow> byte list option" where
  "store p bs buf = (if 0 \<le> p \<and> nat p + length bs \<le> length buf then Some (mem_write (nat p) bs buf) else None)"

definition load_int32 :: "int \<Rightarrow> byte list \<Rightarrow> int option" where
  "load_int32 p buf = map_option int32_of (load p 4 buf)"

definition load_uint16 :: "int \<Rightarrow> byte list \<Rightarrow> int option" where
  "load_uint16 p buf = map_option (\<lambda>bs. int (uint16_of bs)) (load p 2 buf)"

lemma load_Some_iff: "(\<exists>bs. load p n buf = Some bs) \<longleftrightarrow> 0 \<le> p \<and> nat p + n \<le> length buf"
  by (simp add: load_def)

lemma load_SomeD: "load p n buf = Some bs \<Longrightarrow> length bs = n \<and> 0 \<le> p \<and> nat p + n \<le> length buf"
  by (auto simp: load_def split: if_splits)

lemma store_SomeD: "store p bs buf = Some buf' \<Longrightarrow> length buf' = length buf \<and> 0 \<le> p \<and> nat p + length bs \<le> length buf"
  by (auto simp: store_def split: if_splits)

text \<open>A C \<open>for\<close> loop whose body may fail, over the values its index takes.\<close>

fun for_each :: "('i \<Rightarrow> 's \<Rightarrow> 's option) \<Rightarrow> 'i list \<Rightarrow> 's \<Rightarrow> 's option" where
  "for_each body [] s = Some s"
| "for_each body (i # is) s = do { s' \<leftarrow> body i s; for_each body is s' }"

lemma for_each_invariant:
  assumes "\<And>i s. i \<in> set is \<Longrightarrow> I s \<Longrightarrow> \<exists>s'. body i s = Some s' \<and> I s'" and "I s"
  shows "\<exists>s'. for_each body is s = Some s' \<and> I s'"
  using assms
proof (induction "is" arbitrary: s)
  case Nil
  then show ?case by simp
next
  case (Cons i "is")
  then obtain s' where "body i s = Some s'" "I s'" by (meson list.set_intros(1))
  with Cons.IH [of s'] Cons.prems(1) show ?case by simp
qed

text \<open>Addition of two \<open>int\<close>s: undefined on overflow.\<close>

definition c_add :: "int \<Rightarrow> int \<Rightarrow> int option" where
  "c_add a b = (if int32_range (a + b) then Some (a + b) else None)"

subsection \<open>C strings\<close>

text \<open>The string that starts at a pointer: the bytes before the first NUL of the buffer.\<close>

definition c_string_at :: "int \<Rightarrow> byte list \<Rightarrow> byte list option" where
  "c_string_at p buf =
    (if 0 \<le> p \<and> 0 \<in> set (drop (nat p) buf) then Some (takeWhile (\<lambda>b. b \<noteq> 0) (drop (nat p) buf)) else None)"

definition toupper :: "byte \<Rightarrow> byte" where
  "toupper b = (if 0x61 \<le> b \<and> b \<le> 0x7a then b - 0x20 else b)"

subsection \<open>Reading until enough\<close>

text \<open>
  The loops that collect \<open>n\<close> bytes from a source that may deliver fewer at a time:
  \<open>while (n > 0) { len = read (n); if (len <= 0) break; ... }\<close>. The flag tells whether all
  of them came.
\<close>

function read_fully ::
  "(nat \<Rightarrow> 's \<Rightarrow> ('e + byte list) \<times> 's) \<Rightarrow> nat \<Rightarrow> 's \<Rightarrow> byte list \<times> bool \<times> 's"
where
  "read_fully rd n s =
    (if n = 0 then ([], True, s)
     else case rd n s of
       (Inl _, s') \<Rightarrow> ([], False, s')
     | (Inr [], s') \<Rightarrow> ([], False, s')
     | (Inr (b # bs), s') \<Rightarrow>
         (case read_fully rd (n - length (b # bs)) s' of (ds, c, s'') \<Rightarrow> (b # bs @ ds, c, s'')))"
  by pat_completeness auto
termination
  by (relation "measure (\<lambda>(rd, n, s). n)") auto

declare read_fully.simps [simp del]

text \<open>
  A byte source: a read delivers at most what was asked for, and takes it from the front of
  the bytes that are still to come; while \<open>live\<close> holds, it delivers something unless nothing
  is left.
\<close>

locale byte_source =
  fixes rd :: "nat \<Rightarrow> 's \<Rightarrow> ('e + byte list) \<times> 's"
    and avail :: "'s \<Rightarrow> byte list"
    and live :: "'s \<Rightarrow> bool"
  assumes rd_le: "rd n s = (Inr bs, s') \<Longrightarrow> length bs \<le> n"
    and rd_avail: "rd n s = (Inr bs, s') \<Longrightarrow> avail s = bs @ avail s'"
    and rd_fail: "rd n s = (Inl e, s') \<Longrightarrow> avail s' = avail s"
    and rd_live: "live s \<Longrightarrow> 0 < n \<Longrightarrow> avail s \<noteq> [] \<Longrightarrow>
      \<exists>bs s'. rd n s = (Inr bs, s') \<and> bs \<noteq> [] \<and> live s'"
begin

lemma read_fully_avail: "read_fully rd n s = (bs, c, s') \<Longrightarrow> avail s = bs @ avail s'"
proof (induction n arbitrary: s bs c s' rule: less_induct)
  case (less n)
  from less.prems show ?case
    by (subst (asm) read_fully.simps)
      (auto split: if_splits prod.splits sum.splits list.splits
        dest!: rd_avail rd_fail less.IH [rotated])
qed

lemma read_fully_length: "read_fully rd n s = (bs, c, s') \<Longrightarrow> length bs \<le> n \<and> (c \<longleftrightarrow> length bs = n)"
proof (induction n arbitrary: s bs c s' rule: less_induct)
  case (less n)
  show ?case
  proof (cases "n = 0")
    case True
    with less.prems show ?thesis by (simp add: read_fully.simps)
  next
    case False
    obtain r s1 where r: "rd n s = (r, s1)" by (cases "rd n s")
    show ?thesis
    proof (cases r)
      case (Inl e)
      with False r less.prems show ?thesis by (simp add: read_fully.simps)
    next
      case (Inr ds)
      show ?thesis
      proof (cases ds)
        case Nil
        with False r Inr less.prems show ?thesis by (simp add: read_fully.simps)
      next
        case (Cons b ds')
        have le: "length ds \<le> n" using r Inr rd_le by simp
        obtain es c1 s2 where es: "read_fully rd (n - length ds) s1 = (es, c1, s2)"
          by (cases "read_fully rd (n - length ds) s1")
        from less.IH [OF _ es] Cons False have "length es \<le> n - length ds \<and> (c1 \<longleftrightarrow> length es = n - length ds)"
          by simp
        moreover have "bs = ds @ es" "c = c1"
          using less.prems es False r Inr Cons by (subst (asm) read_fully.simps, simp)+
        ultimately show ?thesis using le by auto
      qed
    qed
  qed
qed

lemma read_fully_take:
  "read_fully rd n s = (bs, c, s') \<Longrightarrow> bs = take (length bs) (avail s) \<and> (c \<longrightarrow> bs = take n (avail s))"
  using read_fully_avail [of n s bs c s'] read_fully_length [of n s bs c s'] by auto

lemma read_fully_complete: "live s \<Longrightarrow> n \<le> length (avail s) \<Longrightarrow> \<exists>bs s'. read_fully rd n s = (bs, True, s') \<and> live s'"
proof (induction n arbitrary: s rule: less_induct)
  case (less n)
  show ?case
  proof (cases "n = 0")
    case True
    with less.prems show ?thesis by (simp add: read_fully.simps)
  next
    case False
    with less.prems obtain bs s1 where r: "rd n s = (Inr bs, s1)" "bs \<noteq> []" "live s1"
      using rd_live [of s n] by fastforce
    have a: "avail s = bs @ avail s1" by (rule rd_avail [OF r(1)])
    have "n - length bs < n" "n - length bs \<le> length (avail s1)"
      using False r(2) a less.prems(2) by auto
    from less.IH [OF this(1) r(3) this(2)] obtain ds s2 where
      "read_fully rd (n - length bs) s1 = (ds, True, s2)" "live s2" by blast
    with False r show ?thesis
      by (subst read_fully.simps) (cases bs; simp)
  qed
qed

end

subsection \<open>Sequences of frames\<close>

text \<open>
  Several formats of the program are sequences of self-delimiting frames: the packets of
  LSAPI, the entries of its environment blocks, the chunks of an HTTP body. \<open>unframe n\<close>
  decodes \<open>n\<close> of them one after the other.
\<close>

fun unframe :: "('c list \<Rightarrow> ('p \<times> 'c list) option) \<Rightarrow> nat \<Rightarrow> 'c list \<Rightarrow> ('p list \<times> 'c list) option" where
  "unframe dec 0 xs = Some ([], xs)"
| "unframe dec (Suc n) xs =
    (case dec xs of None \<Rightarrow> None
     | Some (p, ys) \<Rightarrow> (case unframe dec n ys of None \<Rightarrow> None | Some (ps, zs) \<Rightarrow> Some (p # ps, zs)))"

locale frame_codec =
  fixes enc :: "'p \<Rightarrow> 'c list"
    and dec :: "'c list \<Rightarrow> ('p \<times> 'c list) option"
    and ok :: "'p \<Rightarrow> bool"
  assumes dec_enc: "ok p \<Longrightarrow> dec (enc p @ rest) = Some (p, rest)"
begin

lemma unframe_enc: "list_all ok ps \<Longrightarrow> unframe dec (length ps) (concat (map enc ps) @ rest) = Some (ps, rest)"
  by (induction ps) (auto simp: dec_enc)

lemma enc_prefix_free: "ok p \<Longrightarrow> ok q \<Longrightarrow> enc p @ xs = enc q @ ys \<Longrightarrow> p = q \<and> xs = ys"
  by (metis dec_enc option.inject prod.inject)

lemma frames_inj:
  "list_all ok ps \<Longrightarrow> list_all ok qs \<Longrightarrow> length ps = length qs \<Longrightarrow>
    concat (map enc ps) @ xs = concat (map enc qs) @ ys \<Longrightarrow> ps = qs \<and> xs = ys"
  by (metis unframe_enc option.inject prod.inject)

end

end
