(* ===== verification/Lsapi_MD5.thy ===== *)
theory Lsapi_MD5
  imports Lsw_Prelude
begin

text \<open>
  The MD5 implementation of lsapilib.c (\<open>lsapi_MD5Init\<close>, \<open>lsapi_MD5Update\<close>,
  \<open>lsapi_MD5Final\<close>, \<open>lsapi_MD5Transform\<close>, \<open>byteReverse\<close>), which authenticates the suEXEC
  user switch. The context keeps the four chaining words, the 64-bit bit counter as two
  32-bit words and the 64-byte block that is being filled. The reference is the algorithm
  of RFC 1321: the table-driven compression of one block, the padding of a message and the
  fold over its blocks. The lemmas show that the unrolled transform is the table-driven one
  and that any sequence of updates followed by \<open>lsapi_MD5Final\<close> computes the reference
  digest of the concatenated input.
\<close>

unbundle bit_operations_syntax

subsection \<open>The code\<close>

type_synonym md5_buf = "uint32 \<times> uint32 \<times> uint32 \<times> uint32"

record lsapi_MD5Context =
  md5_state :: md5_buf
  bits0 :: uint32
  bits1 :: uint32
  md5_in :: "byte list"

definition F1 :: "uint32 \<Rightarrow> uint32 \<Rightarrow> uint32 \<Rightarrow> uint32" where
  "F1 x y z = z XOR (x AND (y XOR z))"

definition F2 :: "uint32 \<Rightarrow> uint32 \<Rightarrow> uint32 \<Rightarrow> uint32" where
  "F2 x y z = F1 z x y"

definition F3 :: "uint32 \<Rightarrow> uint32 \<Rightarrow> uint32 \<Rightarrow> uint32" where
  "F3 x y z = (x XOR y) XOR z"

definition F4 :: "uint32 \<Rightarrow> uint32 \<Rightarrow> uint32 \<Rightarrow> uint32" where
  "F4 x y z = y XOR (x OR NOT z)"

definition MD5STEP ::
  "(uint32 \<Rightarrow> uint32 \<Rightarrow> uint32 \<Rightarrow> uint32) \<Rightarrow> uint32 \<Rightarrow> uint32 \<Rightarrow> uint32 \<Rightarrow> uint32 \<Rightarrow> uint32 \<Rightarrow> nat \<Rightarrow> uint32"
where
  "MD5STEP f w x y z data s =
    (let w = w + (f x y z + data);
         w = push_bit s w OR drop_bit (32 - s) w
     in w + x)"

definition lsapi_MD5Transform :: "md5_buf \<Rightarrow> uint32 list \<Rightarrow> md5_buf" where
  "lsapi_MD5Transform buf inw = (case buf of (buf0, buf1, buf2, buf3) \<Rightarrow>
    (let
     a = buf0; b = buf1; c = buf2; d = buf3;
     a = MD5STEP F1 a b c d (inw ! 0 + 0xd76aa478) 7;
     d = MD5STEP F1 d a b c (inw ! 1 + 0xe8c7b756) 12;
     c = MD5STEP F1 c d a b (inw ! 2 + 0x242070db) 17;
     b = MD5STEP F1 b c d a (inw ! 3 + 0xc1bdceee) 22;
     a = MD5STEP F1 a b c d (inw ! 4 + 0xf57c0faf) 7;
     d = MD5STEP F1 d a b c (inw ! 5 + 0x4787c62a) 12;
     c = MD5STEP F1 c d a b (inw ! 6 + 0xa8304613) 17;
     b = MD5STEP F1 b c d a (inw ! 7 + 0xfd469501) 22;
     a = MD5STEP F1 a b c d (inw ! 8 + 0x698098d8) 7;
     d = MD5STEP F1 d a b c (inw ! 9 + 0x8b44f7af) 12;
     c = MD5STEP F1 c d a b (inw ! 10 + 0xffff5bb1) 17;
     b = MD5STEP F1 b c d a (inw ! 11 + 0x895cd7be) 22;
     a = MD5STEP F1 a b c d (inw ! 12 + 0x6b901122) 7;
     d = MD5STEP F1 d a b c (inw ! 13 + 0xfd987193) 12;
     c = MD5STEP F1 c d a b (inw ! 14 + 0xa679438e) 17;
     b = MD5STEP F1 b c d a (inw ! 15 + 0x49b40821) 22;
     a = MD5STEP F2 a b c d (inw ! 1 + 0xf61e2562) 5;
     d = MD5STEP F2 d a b c (inw ! 6 + 0xc040b340) 9;
     c = MD5STEP F2 c d a b (inw ! 11 + 0x265e5a51) 14;
     b = MD5STEP F2 b c d a (inw ! 0 + 0xe9b6c7aa) 20;
     a = MD5STEP F2 a b c d (inw ! 5 + 0xd62f105d) 5;
     d = MD5STEP F2 d a b c (inw ! 10 + 0x02441453) 9;
     c = MD5STEP F2 c d a b (inw ! 15 + 0xd8a1e681) 14;
     b = MD5STEP F2 b c d a (inw ! 4 + 0xe7d3fbc8) 20;
     a = MD5STEP F2 a b c d (inw ! 9 + 0x21e1cde6) 5;
     d = MD5STEP F2 d a b c (inw ! 14 + 0xc33707d6) 9;
     c = MD5STEP F2 c d a b (inw ! 3 + 0xf4d50d87) 14;
     b = MD5STEP F2 b c d a (inw ! 8 + 0x455a14ed) 20;
     a = MD5STEP F2 a b c d (inw ! 13 + 0xa9e3e905) 5;
     d = MD5STEP F2 d a b c (inw ! 2 + 0xfcefa3f8) 9;
     c = MD5STEP F2 c d a b (inw ! 7 + 0x676f02d9) 14;
     b = MD5STEP F2 b c d a (inw ! 12 + 0x8d2a4c8a) 20;
     a = MD5STEP F3 a b c d (inw ! 5 + 0xfffa3942) 4;
     d = MD5STEP F3 d a b c (inw ! 8 + 0x8771f681) 11;
     c = MD5STEP F3 c d a b (inw ! 11 + 0x6d9d6122) 16;
     b = MD5STEP F3 b c d a (inw ! 14 + 0xfde5380c) 23;
     a = MD5STEP F3 a b c d (inw ! 1 + 0xa4beea44) 4;
     d = MD5STEP F3 d a b c (inw ! 4 + 0x4bdecfa9) 11;
     c = MD5STEP F3 c d a b (inw ! 7 + 0xf6bb4b60) 16;
     b = MD5STEP F3 b c d a (inw ! 10 + 0xbebfbc70) 23;
     a = MD5STEP F3 a b c d (inw ! 13 + 0x289b7ec6) 4;
     d = MD5STEP F3 d a b c (inw ! 0 + 0xeaa127fa) 11;
     c = MD5STEP F3 c d a b (inw ! 3 + 0xd4ef3085) 16;
     b = MD5STEP F3 b c d a (inw ! 6 + 0x04881d05) 23;
     a = MD5STEP F3 a b c d (inw ! 9 + 0xd9d4d039) 4;
     d = MD5STEP F3 d a b c (inw ! 12 + 0xe6db99e5) 11;
     c = MD5STEP F3 c d a b (inw ! 15 + 0x1fa27cf8) 16;
     b = MD5STEP F3 b c d a (inw ! 2 + 0xc4ac5665) 23;
     a = MD5STEP F4 a b c d (inw ! 0 + 0xf4292244) 6;
     d = MD5STEP F4 d a b c (inw ! 7 + 0x432aff97) 10;
     c = MD5STEP F4 c d a b (inw ! 14 + 0xab9423a7) 15;
     b = MD5STEP F4 b c d a (inw ! 5 + 0xfc93a039) 21;
     a = MD5STEP F4 a b c d (inw ! 12 + 0x655b59c3) 6;
     d = MD5STEP F4 d a b c (inw ! 3 + 0x8f0ccc92) 10;
     c = MD5STEP F4 c d a b (inw ! 10 + 0xffeff47d) 15;
     b = MD5STEP F4 b c d a (inw ! 1 + 0x85845dd1) 21;
     a = MD5STEP F4 a b c d (inw ! 8 + 0x6fa87e4f) 6;
     d = MD5STEP F4 d a b c (inw ! 15 + 0xfe2ce6e0) 10;
     c = MD5STEP F4 c d a b (inw ! 6 + 0xa3014314) 15;
     b = MD5STEP F4 b c d a (inw ! 13 + 0x4e0811a1) 21;
     a = MD5STEP F4 a b c d (inw ! 4 + 0xf7537e82) 6;
     d = MD5STEP F4 d a b c (inw ! 11 + 0xbd3af235) 10;
     c = MD5STEP F4 c d a b (inw ! 2 + 0x2ad7d2bb) 15;
     b = MD5STEP F4 b c d a (inw ! 9 + 0xeb86d391) 21
    in (buf0 + a, buf1 + b, buf2 + c, buf3 + d)))"

text \<open>Reading and writing native (little-endian) 32-bit words of a byte area.\<close>

definition get_u32 :: "byte list \<Rightarrow> nat \<Rightarrow> uint32" where
  "get_u32 bs i = of_nat (le_nat (mem_read i 4 bs))"

definition put_u32 :: "nat \<Rightarrow> uint32 \<Rightarrow> byte list \<Rightarrow> byte list" where
  "put_u32 i w bs = mem_write i (le_bytes 4 (unat w)) bs"

definition words_of :: "byte list \<Rightarrow> uint32 list" where
  "words_of bs = map (\<lambda>i. get_u32 bs (4 * i)) [0..<16]"

text \<open>
  \<open>byteReverse\<close>: the do-while loop assembles \<open>t\<close> from the four bytes and stores it as a
  native word, \<open>longs\<close> times; the index is the byte offset of \<open>buf\<close>. The body of the C
  loop runs before \<open>--longs\<close> is tested, so \<open>longs\<close> is at least 1; all calls pass 16, 14 or 4.
\<close>

fun byteReverse_from :: "nat \<Rightarrow> byte list \<Rightarrow> nat \<Rightarrow> byte list" where
  "byteReverse_from off bs 0 = bs"
| "byteReverse_from off bs (Suc longs) =
    (let t = (push_bit 16 (push_bit 8 (ucast (bs ! (off + 3))) OR ucast (bs ! (off + 2))) OR
              (push_bit 8 (ucast (bs ! (off + 1))) OR ucast (bs ! off)) :: uint32)
     in byteReverse_from (off + 4) (put_u32 off t bs) longs)"

definition byteReverse :: "byte list \<Rightarrow> nat \<Rightarrow> byte list" where
  "byteReverse bs longs = byteReverse_from 0 bs longs"

text \<open>\<open>lsapi_MD5Init\<close> leaves the block area \<open>in\<close> as it is.\<close>

definition lsapi_MD5Init :: "lsapi_MD5Context \<Rightarrow> lsapi_MD5Context" where
  "lsapi_MD5Init ctx = ctx
    \<lparr>md5_state := (0x67452301, 0xefcdab89, 0x98badcfe, 0x10325476),
     bits0 := 0, bits1 := 0\<rparr>"

text \<open>One full block: \<open>byteReverse(ctx->in, 16)\<close> and the transform.\<close>

definition md5_block :: "lsapi_MD5Context \<Rightarrow> lsapi_MD5Context" where
  "md5_block ctx =
    (let inb = byteReverse (md5_in ctx) 16
     in ctx\<lparr>md5_in := inb, md5_state := lsapi_MD5Transform (md5_state ctx) (words_of inb)\<rparr>)"

text \<open>The 64-byte loop of \<open>lsapi_MD5Update\<close>, then the \<open>memmove\<close> of what remains.\<close>

function md5_update_blocks :: "lsapi_MD5Context \<Rightarrow> byte list \<Rightarrow> lsapi_MD5Context" where
  "md5_update_blocks ctx buf =
    (if length buf \<ge> 64
     then md5_update_blocks (md5_block (ctx\<lparr>md5_in := mem_write 0 (take 64 buf) (md5_in ctx)\<rparr>)) (drop 64 buf)
     else ctx\<lparr>md5_in := mem_write 0 buf (md5_in ctx)\<rparr>)"
  by pat_completeness auto
termination
  by (relation "measure (\<lambda>(ctx, buf). length buf)") auto

declare md5_update_blocks.simps [simp del]

definition md5_count_bits :: "lsapi_MD5Context \<Rightarrow> uint32 \<Rightarrow> lsapi_MD5Context" where
  "md5_count_bits ctx len =
    (let t = bits0 ctx;
         b0 = t + push_bit 3 len;
         b1 = (if b0 < t then bits1 ctx + 1 else bits1 ctx)
     in ctx\<lparr>bits0 := b0, bits1 := b1 + drop_bit 29 len\<rparr>)"

definition lsapi_MD5Update :: "lsapi_MD5Context \<Rightarrow> byte list \<Rightarrow> lsapi_MD5Context" where
  "lsapi_MD5Update ctx0 buf =
    (let t = unat (drop_bit 3 (bits0 ctx0) AND 0x3f);
         ctx = md5_count_bits ctx0 (of_nat (length buf))
     in if t \<noteq> 0
        then (if length buf < 64 - t
              then ctx\<lparr>md5_in := mem_write t buf (md5_in ctx)\<rparr>
              else md5_update_blocks
                     (md5_block (ctx\<lparr>md5_in := mem_write t (take (64 - t) buf) (md5_in ctx)\<rparr>))
                     (drop (64 - t) buf))
        else md5_update_blocks ctx buf)"

definition md5_buf_bytes :: "md5_buf \<Rightarrow> byte list" where
  "md5_buf_bytes buf = (case buf of (a, b, c, d) \<Rightarrow>
    le_bytes 4 (unat a) @ le_bytes 4 (unat b) @ le_bytes 4 (unat c) @ le_bytes 4 (unat d))"

definition md5_zero_ctx :: lsapi_MD5Context where
  "md5_zero_ctx = \<lparr>md5_state = (0, 0, 0, 0), bits0 = 0, bits1 = 0, md5_in = replicate 64 0\<rparr>"

text \<open>The digest and the context after \<open>memset(ctx, 0, sizeof(*ctx))\<close>.\<close>

definition lsapi_MD5Final :: "lsapi_MD5Context \<Rightarrow> byte list \<times> lsapi_MD5Context" where
  "lsapi_MD5Final ctx =
    (let count = unat (drop_bit 3 (bits0 ctx) AND 0x3f);
         inb = mem_write count [0x80] (md5_in ctx);
         p = count + 1;
         count = 64 - 1 - count;
         ctx = (if count < 8
                then (let ctx = md5_block (ctx\<lparr>md5_in := mem_write p (replicate count 0) inb\<rparr>)
                      in ctx\<lparr>md5_in := mem_write 0 (replicate 56 0) (md5_in ctx)\<rparr>)
                else ctx\<lparr>md5_in := mem_write p (replicate (count - 8) 0) inb\<rparr>);
         inb = byteReverse (md5_in ctx) 14;
         inb = put_u32 56 (bits0 ctx) inb;
         inb = put_u32 60 (bits1 ctx) inb;
         buf = lsapi_MD5Transform (md5_state ctx) (words_of inb)
     in (take 16 (byteReverse (md5_buf_bytes buf) 4), md5_zero_ctx))"

subsection \<open>The reference: RFC 1321\<close>

definition rfc_F :: "uint32 \<Rightarrow> uint32 \<Rightarrow> uint32 \<Rightarrow> uint32" where
  "rfc_F x y z = (x AND y) OR (NOT x AND z)"

definition rfc_G :: "uint32 \<Rightarrow> uint32 \<Rightarrow> uint32 \<Rightarrow> uint32" where
  "rfc_G x y z = (x AND z) OR (y AND NOT z)"

definition rfc_H :: "uint32 \<Rightarrow> uint32 \<Rightarrow> uint32 \<Rightarrow> uint32" where
  "rfc_H x y z = x XOR y XOR z"

definition rfc_I :: "uint32 \<Rightarrow> uint32 \<Rightarrow> uint32 \<Rightarrow> uint32" where
  "rfc_I x y z = y XOR (x OR NOT z)"

text \<open>
  The operations of the four rounds, in order: the round's function, the index of the
  message word, the rotation and the sine-table constant.
\<close>

definition rfc_table :: "((uint32 \<Rightarrow> uint32 \<Rightarrow> uint32 \<Rightarrow> uint32) \<times> nat \<times> nat \<times> uint32) list" where
  "rfc_table = [
    (rfc_F, 0, 7, 0xd76aa478), (rfc_F, 1, 12, 0xe8c7b756),
    (rfc_F, 2, 17, 0x242070db), (rfc_F, 3, 22, 0xc1bdceee),
    (rfc_F, 4, 7, 0xf57c0faf), (rfc_F, 5, 12, 0x4787c62a),
    (rfc_F, 6, 17, 0xa8304613), (rfc_F, 7, 22, 0xfd469501),
    (rfc_F, 8, 7, 0x698098d8), (rfc_F, 9, 12, 0x8b44f7af),
    (rfc_F, 10, 17, 0xffff5bb1), (rfc_F, 11, 22, 0x895cd7be),
    (rfc_F, 12, 7, 0x6b901122), (rfc_F, 13, 12, 0xfd987193),
    (rfc_F, 14, 17, 0xa679438e), (rfc_F, 15, 22, 0x49b40821),
    (rfc_G, 1, 5, 0xf61e2562), (rfc_G, 6, 9, 0xc040b340),
    (rfc_G, 11, 14, 0x265e5a51), (rfc_G, 0, 20, 0xe9b6c7aa),
    (rfc_G, 5, 5, 0xd62f105d), (rfc_G, 10, 9, 0x02441453),
    (rfc_G, 15, 14, 0xd8a1e681), (rfc_G, 4, 20, 0xe7d3fbc8),
    (rfc_G, 9, 5, 0x21e1cde6), (rfc_G, 14, 9, 0xc33707d6),
    (rfc_G, 3, 14, 0xf4d50d87), (rfc_G, 8, 20, 0x455a14ed),
    (rfc_G, 13, 5, 0xa9e3e905), (rfc_G, 2, 9, 0xfcefa3f8),
    (rfc_G, 7, 14, 0x676f02d9), (rfc_G, 12, 20, 0x8d2a4c8a),
    (rfc_H, 5, 4, 0xfffa3942), (rfc_H, 8, 11, 0x8771f681),
    (rfc_H, 11, 16, 0x6d9d6122), (rfc_H, 14, 23, 0xfde5380c),
    (rfc_H, 1, 4, 0xa4beea44), (rfc_H, 4, 11, 0x4bdecfa9),
    (rfc_H, 7, 16, 0xf6bb4b60), (rfc_H, 10, 23, 0xbebfbc70),
    (rfc_H, 13, 4, 0x289b7ec6), (rfc_H, 0, 11, 0xeaa127fa),
    (rfc_H, 3, 16, 0xd4ef3085), (rfc_H, 6, 23, 0x04881d05),
    (rfc_H, 9, 4, 0xd9d4d039), (rfc_H, 12, 11, 0xe6db99e5),
    (rfc_H, 15, 16, 0x1fa27cf8), (rfc_H, 2, 23, 0xc4ac5665),
    (rfc_I, 0, 6, 0xf4292244), (rfc_I, 7, 10, 0x432aff97),
    (rfc_I, 14, 15, 0xab9423a7), (rfc_I, 5, 21, 0xfc93a039),
    (rfc_I, 12, 6, 0x655b59c3), (rfc_I, 3, 10, 0x8f0ccc92),
    (rfc_I, 10, 15, 0xffeff47d), (rfc_I, 1, 21, 0x85845dd1),
    (rfc_I, 8, 6, 0x6fa87e4f), (rfc_I, 15, 10, 0xfe2ce6e0),
    (rfc_I, 6, 15, 0xa3014314), (rfc_I, 13, 21, 0x4e0811a1),
    (rfc_I, 4, 6, 0xf7537e82), (rfc_I, 11, 10, 0xbd3af235),
    (rfc_I, 2, 15, 0x2ad7d2bb), (rfc_I, 9, 21, 0xeb86d391)]"

text \<open>One operation: the rotated sum takes the place of \<open>a\<close>, then the registers turn.\<close>

fun rfc_step ::
  "uint32 list \<Rightarrow> md5_buf \<Rightarrow> (uint32 \<Rightarrow> uint32 \<Rightarrow> uint32 \<Rightarrow> uint32) \<times> nat \<times> nat \<times> uint32 \<Rightarrow> md5_buf"
where
  "rfc_step X (a, b, c, d) (f, k, s, t) = (d, b + word_rotl s (a + f b c d + X ! k + t), b, c)"

definition rfc_compress :: "md5_buf \<Rightarrow> uint32 list \<Rightarrow> md5_buf" where
  "rfc_compress buf X = (case foldl (rfc_step X) buf rfc_table of (a, b, c, d) \<Rightarrow>
    (case buf of (a0, b0, c0, d0) \<Rightarrow> (a0 + a, b0 + b, c0 + c, d0 + d)))"

definition md5_iv :: md5_buf where
  "md5_iv = (0x67452301, 0xefcdab89, 0x98badcfe, 0x10325476)"

text \<open>The chaining value after the whole blocks of a message.\<close>

function rfc_chain :: "md5_buf \<Rightarrow> byte list \<Rightarrow> md5_buf" where
  "rfc_chain buf m =
    (if length m < 64 then buf else rfc_chain (rfc_compress buf (words_of (take 64 m))) (drop 64 m))"
  by pat_completeness auto
termination
  by (relation "measure (\<lambda>(buf, m). length m)") auto

declare rfc_chain.simps [simp del]

definition rfc_pad :: "byte list \<Rightarrow> byte list" where
  "rfc_pad m = m @ [0x80] @ replicate ((119 - length m mod 64) mod 64) 0 @ le_bytes 8 (8 * length m)"

definition rfc_md5 :: "byte list \<Rightarrow> byte list" where
  "rfc_md5 m = md5_buf_bytes (rfc_chain md5_iv (rfc_pad m))"

subsection \<open>The unrolled transform is the table-driven one\<close>

lemma F1_rfc: "F1 = rfc_F"
  by (intro ext bit_eqI) (auto simp: F1_def rfc_F_def bit_simps)

lemma F2_rfc: "F2 = rfc_G"
  by (intro ext bit_eqI) (auto simp: F2_def F1_def rfc_G_def bit_simps)

lemma F3_rfc: "F3 = rfc_H"
  by (intro ext) (simp add: F3_def rfc_H_def xor.assoc)

lemma F4_rfc: "F4 = rfc_I"
  by (intro ext) (simp add: F4_def rfc_I_def)

lemma rotl_or_shift:
  assumes "0 < s" and "s < 32"
  shows "push_bit s w OR drop_bit (32 - s) w = word_rotl s (w :: uint32)"
proof (rule bit_word_eqI)
  fix n assume "n < LENGTH(32)"
  then have n: "n < 32" by simp
  show "bit (push_bit s w OR drop_bit (32 - s) w) n = bit (word_rotl s w) n"
  proof (cases "n < s")
    case True
    then have "(n + (32 - s)) mod 32 = (32 - s) + n" using assms by simp
    with True assms n show ?thesis
      by (simp add: bit_or_iff bit_push_bit_iff bit_drop_bit_eq bit_word_rotl_iff)
  next
    case False
    then have "(n + (32 - s)) mod 32 = n - s" using assms n
      by (simp add: mod_if)
    with False assms n show ?thesis
      by (auto simp add: bit_simps bit_word_rotl_iff not_less dest: bit_imp_le_length)
  qed
qed

lemma MD5STEP_rotl:
  assumes "0 < s" and "s < 32"
  shows "MD5STEP f w x y z data s = x + word_rotl s (w + f x y z + data)"
  using assms by (simp add: MD5STEP_def rotl_or_shift ac_simps)

fun code_step ::
  "uint32 list \<Rightarrow> md5_buf \<Rightarrow> (uint32 \<Rightarrow> uint32 \<Rightarrow> uint32 \<Rightarrow> uint32) \<times> nat \<times> nat \<times> uint32 \<Rightarrow> md5_buf"
where
  "code_step X (a, b, c, d) (f, k, s, t) = (d, MD5STEP f a b c d (X ! k + t) s, b, c)"

lemma code_step_rfc:
  "0 < fst (snd (snd r)) \<Longrightarrow> fst (snd (snd r)) < 32 \<Longrightarrow> code_step X buf r = rfc_step X buf r"
  by (cases buf; cases r) (simp add: MD5STEP_rotl ac_simps)

lemma code_fold_rfc:
  "list_all (\<lambda>r. 0 < fst (snd (snd r)) \<and> fst (snd (snd r)) < 32) rs \<Longrightarrow>
   foldl (code_step X) buf rs = foldl (rfc_step X) buf rs"
  by (induction rs arbitrary: buf) (auto simp: code_step_rfc)

lemma code_fold_Let:
  "foldl (code_step X) (a, b, c, d) ((f, k, s, t) # rs) =
    (let w = MD5STEP f a b c d (X ! k + t) s in foldl (code_step X) (d, w, b, c) rs)"
  by simp

lemma Let_case_prod: "(case Let x f of (a, b) \<Rightarrow> g a b) = (let y = x in case f y of (a, b) \<Rightarrow> g a b)"
  by (simp add: Let_def)

lemma transform_rfc: "lsapi_MD5Transform = rfc_compress"
proof (intro ext)
  fix buf :: md5_buf and X
  obtain a b c d where buf: "buf = (a, b, c, d)" by (cases buf)
  have "list_all (\<lambda>r. 0 < fst (snd (snd r)) \<and> fst (snd (snd r)) < 32) rfc_table"
    by (simp add: rfc_table_def)
  then have fold: "foldl (rfc_step X) (a, b, c, d) rfc_table = foldl (code_step X) (a, b, c, d) rfc_table"
    by (simp add: code_fold_rfc)
  show "lsapi_MD5Transform buf X = rfc_compress buf X"
    unfolding buf rfc_compress_def lsapi_MD5Transform_def prod.case fold
    unfolding rfc_table_def
    by (simp only: code_fold_Let Let_case_prod prod.case foldl_Nil F1_rfc F2_rfc F3_rfc F4_rfc
        Let_def [of a] Let_def [of b] Let_def [of c] Let_def [of d])
qed

subsection \<open>Native words\<close>

lemma le_bytes_4: "le_bytes 4 n =
  [of_nat n, of_nat (n div 256), of_nat (n div 65536), of_nat (n div 16777216)]"
proof -
  have "(4 :: nat) = Suc (Suc (Suc (Suc 0)))" by simp
  then show ?thesis by (simp only: le_bytes.simps div_mult2_eq [symmetric]) simp
qed

lemma byte_of_word:
  "(of_nat (unat (w :: uint32) div 2 ^ k) :: byte) = ucast (drop_bit k w)"
  by (metis drop_bit_eq_div of_nat_unat unat_drop_bit_eq)

lemma le_bytes_of_parts:
  fixes b0 b1 b2 b3 :: byte
  defines "t \<equiv> push_bit 16 (push_bit 8 (ucast b3) OR ucast b2) OR (push_bit 8 (ucast b1) OR ucast b0) :: uint32"
  shows "le_bytes 4 (unat t) = [b0, b1, b2, b3]"
proof -
  have "ucast t = b0" "ucast (drop_bit 8 t) = b1" "ucast (drop_bit 16 t) = b2" "ucast (drop_bit 24 t) = b3"
    unfolding t_def
    by (rule bit_word_eqI; auto simp: bit_simps dest: bit_imp_le_length)+
  then show ?thesis
    using byte_of_word [of t 0] byte_of_word [of t 8] byte_of_word [of t 16] byte_of_word [of t 24]
    by (simp add: le_bytes_4)
qed

lemma byteReverse_from_id: "off + 4 * longs \<le> length bs \<Longrightarrow> byteReverse_from off bs longs = bs"
proof (induction longs arbitrary: off)
  case 0
  then show ?case by simp
next
  case (Suc longs)
  have "bs = take off bs @ drop off bs" by simp
  have four: "take 4 (drop off bs) = [bs ! off, bs ! (off + 1), bs ! (off + 2), bs ! (off + 3)]"
    using Suc.prems by (simp add: list_eq_iff_nth_eq nth_Cons' less_Suc_eq numeral_eq_Suc)
  have "take off bs @ [bs ! off, bs ! (off + 1), bs ! (off + 2), bs ! (off + 3)] @ drop (off + 4) bs = bs"
    unfolding four [symmetric] by (metis append_take_drop_id drop_drop add.commute)
  then have "put_u32 off (push_bit 16 (push_bit 8 (ucast (bs ! (off + 3))) OR ucast (bs ! (off + 2))) OR
      (push_bit 8 (ucast (bs ! (off + 1))) OR ucast (bs ! off))) bs = bs"
    by (simp only: put_u32_def mem_write_def le_bytes_of_parts) (simp add: eval_nat_numeral)
  with Suc show ?case by (simp add: Let_def)
qed

lemma byteReverse_id: "4 * longs \<le> length bs \<Longrightarrow> byteReverse bs longs = bs"
  by (simp add: byteReverse_def byteReverse_from_id)

lemma md5_block_eq:
  "length (md5_in ctx) = 64 \<Longrightarrow>
   md5_block ctx = ctx\<lparr>md5_state := rfc_compress (md5_state ctx) (words_of (md5_in ctx))\<rparr>"
  by (simp add: md5_block_def byteReverse_id transform_rfc Let_def)

lemma rfc_chain_short: "length m < 64 \<Longrightarrow> rfc_chain buf m = buf"
  by (simp add: rfc_chain.simps)

lemma rfc_chain_block:
  "length b = 64 \<Longrightarrow> rfc_chain buf (b @ m) = rfc_chain (rfc_compress buf (words_of b)) m"
  by (simp add: rfc_chain.simps [of buf "b @ m"])

lemma rfc_chain_append:
  "64 dvd length m \<Longrightarrow> rfc_chain buf (m @ n) = rfc_chain (rfc_chain buf m) n"
proof (induction buf m rule: rfc_chain.induct)
  case (1 buf m)
  show ?case
  proof (cases "length m < 64")
    case True
    with "1.prems" have "m = []" by (auto dest: dvd_imp_le)
    then show ?thesis by (simp add: rfc_chain_short)
  next
    case False
    let ?b = "take 64 m" and ?r = "drop 64 m"
    from False have b: "length ?b = 64" by simp
    from "1.prems" False have "64 dvd length ?r" by simp
    with False "1.IH" have "rfc_chain (rfc_compress buf (words_of ?b)) (?r @ n) =
        rfc_chain (rfc_chain (rfc_compress buf (words_of ?b)) ?r) n" by simp
    then show ?thesis
      using rfc_chain_block [OF b, of buf "?r @ n"] rfc_chain_block [OF b, of buf ?r]
      by (metis append_assoc append_take_drop_id)
  qed
qed

lemma mem_write_full: "i + length src = length dst \<Longrightarrow> mem_write i src dst = take i dst @ src"
  by (simp add: mem_write_def)

lemma md5_update_blocks_spec:
  "length (md5_in ctx) = 64 \<Longrightarrow>
   \<exists>f r. d = f @ r \<and> 64 dvd length f \<and> length r < 64 \<and>
     md5_state (md5_update_blocks ctx d) = rfc_chain (md5_state ctx) f \<and>
     take (length r) (md5_in (md5_update_blocks ctx d)) = r \<and>
     length (md5_in (md5_update_blocks ctx d)) = 64 \<and>
     bits0 (md5_update_blocks ctx d) = bits0 ctx \<and> bits1 (md5_update_blocks ctx d) = bits1 ctx"
proof (induction ctx d rule: md5_update_blocks.induct)
  case (1 ctx d)
  show ?case
  proof (cases "64 \<le> length d")
    case False
    then have "md5_update_blocks ctx d = ctx\<lparr>md5_in := mem_write 0 d (md5_in ctx)\<rparr>"
      by (simp add: md5_update_blocks.simps)
    with False "1.prems" take_mem_write [of 0 d "md5_in ctx"] show ?thesis
      by (intro exI [of _ "[]"] exI [of _ d]) (simp add: rfc_chain_short)
  next
    case True
    let ?b = "take 64 d"
    let ?ctx = "md5_block (ctx\<lparr>md5_in := mem_write 0 ?b (md5_in ctx)\<rparr>)"
    from True have b: "length ?b = 64" by simp
    with "1.prems" have ctx: "?ctx = ctx\<lparr>md5_in := ?b, md5_state := rfc_compress (md5_state ctx) (words_of ?b)\<rparr>"
      by (simp add: md5_block_eq mem_write_full)
    from True have eq: "md5_update_blocks ctx d = md5_update_blocks ?ctx (drop 64 d)"
      by (subst md5_update_blocks.simps) simp
    from True "1.IH" ctx b obtain f r where "drop 64 d = f @ r" "64 dvd length f" "length r < 64"
      "md5_state (md5_update_blocks ?ctx (drop 64 d)) = rfc_chain (md5_state ?ctx) f"
      "take (length r) (md5_in (md5_update_blocks ?ctx (drop 64 d))) = r"
      "length (md5_in (md5_update_blocks ?ctx (drop 64 d))) = 64"
      "bits0 (md5_update_blocks ?ctx (drop 64 d)) = bits0 ctx"
      "bits1 (md5_update_blocks ?ctx (drop 64 d)) = bits1 ctx"
      by auto
    moreover from this(1) have "d = (?b @ f) @ r"
      by (metis append_assoc append_take_drop_id)
    ultimately show ?thesis
      using b ctx eq by (intro exI [of _ "?b @ f"] exI [of _ r]) (simp add: rfc_chain_block)
  qed
qed

definition md5_count :: "lsapi_MD5Context \<Rightarrow> nat" where
  "md5_count ctx = unat (bits0 ctx) + 2 ^ 32 * unat (bits1 ctx)"

lemma unat_push3: "n < 2 ^ 32 \<Longrightarrow> unat (push_bit 3 (of_nat n) :: uint32) = 8 * n mod 2 ^ 32"
  by (simp add: push_bit_eq_mult unat_word_ariths unat_of_nat mult.commute)

lemma unat_drop29: "n < 2 ^ 32 \<Longrightarrow> unat (drop_bit 29 (of_nat n) :: uint32) = n div 2 ^ 29"
  by (subst unat_drop_bit_eq) (simp add: drop_bit_eq_div unat_of_nat)

lemma count_split: 
  fixes T n b1 :: nat
  assumes "T < 2 ^ 32"
  defines "u \<equiv> T + 8 * n mod 2 ^ 32"
  shows "u mod 2 ^ 32 + 2 ^ 32 * ((b1 + u div 2 ^ 32 + n div 2 ^ 29) mod 2 ^ 32) = (T + 2 ^ 32 * b1 + 8 * n) mod 2 ^ 64"
proof -
  have n: "8 * n = 8 * n mod 2 ^ 32 + 2 ^ 32 * (n div 2 ^ 29)"
    using mod_mult_div_eq [of "8 * n" "2 ^ 32"] div_mult_mult1 [of 8 n "2 ^ 29"] by simp
  have "(T + 2 ^ 32 * b1 + 8 * n) mod 2 ^ 64 = (u + 2 ^ 32 * (b1 + n div 2 ^ 29)) mod (2 ^ 32 * 2 ^ 32)"
    by (subst n) (simp add: u_def algebra_simps)
  also have "\<dots> = 2 ^ 32 * ((u + 2 ^ 32 * (b1 + n div 2 ^ 29)) div 2 ^ 32 mod 2 ^ 32) + (u + 2 ^ 32 * (b1 + n div 2 ^ 29)) mod 2 ^ 32"
    by (rule mod_mult2_eq)
  also have "(u + 2 ^ 32 * (b1 + n div 2 ^ 29)) div 2 ^ 32 = b1 + u div 2 ^ 32 + n div 2 ^ 29"
    by simp
  also have "(u + 2 ^ 32 * (b1 + n div 2 ^ 29)) mod 2 ^ 32 = u mod 2 ^ 32"
    by (rule mod_mult_self2)
  finally show ?thesis by simp
qed


subsection \<open>Incremental updates\<close>

text \<open>The carry out of the low word of the bit counter, as the code detects it.\<close>

lemma carry_iff:
  fixes T P M :: nat
  assumes "T < M" and "P < M"
  shows "(T + P) mod M < T \<longleftrightarrow> (T + P) div M = 1" and "(T + P) div M \<le> 1"
proof -
  have "T + P < 2 * M" using assms by simp
  then show "(T + P) div M \<le> 1"
    by (metis One_nat_def less_Suc_eq_le less_mult_imp_div_less numeral_2_eq_2)
  show "(T + P) mod M < T \<longleftrightarrow> (T + P) div M = 1"
  proof (cases "T + P < M")
    case True
    then show ?thesis by simp
  next
    case False
    then have "(T + P) mod M = T + P - M" and "(T + P) div M = 1"
      using assms by (simp_all add: le_mod_geq le_div_geq)
    with False assms show ?thesis by simp
  qed
qed

lemma md5_count_count_bits:
  assumes "n < 2 ^ 32"
  shows "md5_count (md5_count_bits ctx (of_nat n)) = (md5_count ctx + 8 * n) mod 2 ^ 64"
proof -
  let ?t = "bits0 ctx" and ?p = "push_bit 3 (of_nat n) :: uint32" and ?M = "2 ^ 32 :: nat"
  let ?u = "unat ?t + 8 * n mod ?M"
  have T: "unat ?t < ?M" by simp
  have P: "8 * n mod ?M < ?M" by simp
  have b0: "unat (?t + ?p) = ?u mod ?M"
    using unat_push3 [OF assms] by (simp add: unat_word_ariths)
  have "(?t + ?p < ?t) \<longleftrightarrow> ?u div ?M = 1"
    unfolding word_less_nat_alt b0 by (rule carry_iff [OF T P])
  moreover have "?u div ?M = 0 \<or> ?u div ?M = 1"
    using carry_iff(2) [OF T P] by linarith
  ultimately have "unat (if ?t + ?p < ?t then bits1 ctx + 1 else bits1 ctx) = (unat (bits1 ctx) + ?u div ?M) mod ?M"
    by (elim disjE) (simp_all add: unat_word_ariths)
  then have b1: "unat (bits1 (md5_count_bits ctx (of_nat n))) = (unat (bits1 ctx) + ?u div ?M + n div 2 ^ 29) mod ?M"
    using unat_drop29 [OF assms] by (simp add: md5_count_bits_def Let_def unat_word_ariths mod_simps)
  have "bits0 (md5_count_bits ctx (of_nat n)) = ?t + ?p"
    by (simp add: md5_count_bits_def Let_def)
  then show ?thesis
    unfolding md5_count_def b1 using count_split [OF T, of n "unat (bits1 ctx)"] b0 by simp
qed

lemma md5_count_bits_frame [simp]:
  "md5_state (md5_count_bits ctx n) = md5_state ctx" "md5_in (md5_count_bits ctx n) = md5_in ctx"
  by (simp_all add: md5_count_bits_def Let_def)

definition md5_rep :: "lsapi_MD5Context \<Rightarrow> byte list \<Rightarrow> bool" where
  "md5_rep ctx m \<longleftrightarrow> length (md5_in ctx) = 64 \<and> md5_count ctx = 8 * length m mod 2 ^ 64 \<and>
    (\<exists>f r. m = f @ r \<and> 64 dvd length f \<and> length r < 64 \<and>
       md5_state ctx = rfc_chain md5_iv f \<and> take (length r) (md5_in ctx) = r)"

lemma md5_repI:
  assumes "length (md5_in ctx) = 64" and "md5_count ctx = 8 * length m mod 2 ^ 64"
    and "m = f @ r" and "64 dvd length f" and "length r < 64"
    and "md5_state ctx = rfc_chain md5_iv f" and "take (length r) (md5_in ctx) = r"
  shows "md5_rep ctx m"
  using assms by (auto simp: md5_rep_def)

lemma md5_rep_fill:
  assumes "md5_count ctx = 8 * n mod 2 ^ 64"
  shows "unat (drop_bit 3 (bits0 ctx) AND 0x3f) = n mod 64"
proof -
  have "unat (bits0 ctx) = md5_count ctx mod 2 ^ 32"
    by (simp add: md5_count_def)
  also have "\<dots> = 8 * n mod 2 ^ 32"
    unfolding assms by (rule mod_mod_cancel) (simp add: le_imp_power_dvd)
  finally have b: "unat (bits0 ctx) = 8 * (n mod 2 ^ 29)"
    using mult_mod_right [of 8 n "2 ^ 29"] by simp
  have "(drop_bit 3 (bits0 ctx) AND 0x3f) = take_bit 6 (drop_bit 3 (bits0 ctx))"
    by (simp add: take_bit_eq_mask mask_numeral mask_eq_exp_minus_1)
  then have "unat (drop_bit 3 (bits0 ctx) AND 0x3f) = unat (bits0 ctx) div 8 mod 64"
    by (simp add: take_bit_eq_mod drop_bit_eq_div unat_div_distrib unat_mod_distrib)
  also have "\<dots> = n mod 2 ^ 29 mod 64"
    unfolding b by simp
  also have "\<dots> = n mod 64"
    by (rule mod_mod_cancel) (simp add: le_imp_power_dvd [of 6 29 2, simplified])
  finally show ?thesis .
qed

lemma md5_rep_init: "length (md5_in ctx) = 64 \<Longrightarrow> md5_rep (lsapi_MD5Init ctx) []"
  by (simp add: md5_rep_def lsapi_MD5Init_def md5_count_def md5_iv_def rfc_chain_short)

lemma md5_rep_update:
  assumes rep: "md5_rep ctx m" and len: "length d < 2 ^ 32"
  shows "md5_rep (lsapi_MD5Update ctx d) (m @ d)"
proof -
  from rep obtain f r where m: "m = f @ r" and f: "64 dvd length f" and r: "length r < 64"
    and st: "md5_state ctx = rfc_chain md5_iv f" and inb: "take (length r) (md5_in ctx) = r"
    and in64: "length (md5_in ctx) = 64" and cnt: "md5_count ctx = 8 * length m mod 2 ^ 64"
    by (auto simp: md5_rep_def)
  let ?c = "md5_count_bits ctx (of_nat (length d))"
  have "length m mod 64 = length r"
    using m f r by (auto elim!: dvdE)
  with md5_rep_fill [OF cnt] have t: "unat (drop_bit 3 (bits0 ctx) AND 0x3f) = length r"
    by simp
  have c: "md5_count ?c = 8 * length (m @ d) mod 2 ^ 64"
    unfolding md5_count_count_bits [OF len] cnt by (simp add: mod_simps algebra_simps)
  have finish: "md5_rep (md5_update_blocks c' d') (m @ d)"
    if c': "length (md5_in c') = 64" "md5_count c' = md5_count ?c" "m @ d = g @ d'" "64 dvd length g"
      "md5_state c' = rfc_chain md5_iv g" for c' d' g
  proof -
    obtain f' r' where "d' = f' @ r'" "64 dvd length f'" "length r' < 64"
     "md5_state (md5_update_blocks c' d') = rfc_chain (md5_state c') f'"
     "take (length r') (md5_in (md5_update_blocks c' d')) = r'"
     "length (md5_in (md5_update_blocks c' d')) = 64"
     "bits0 (md5_update_blocks c' d') = bits0 c'" "bits1 (md5_update_blocks c' d') = bits1 c'"
      using md5_update_blocks_spec [OF c'(1), of d'] by blast
    with c' c show ?thesis
      by (intro md5_repI [of _ _ "g @ f'" r']) (simp_all add: md5_count_def rfc_chain_append)
  qed
  consider "r = []" | "r \<noteq> []" "length d < 64 - length r" | "r \<noteq> []" "64 - length r \<le> length d"
    by linarith
  then show ?thesis
  proof cases
    case 1
    then have "lsapi_MD5Update ctx d = md5_update_blocks ?c d"
      by (simp add: lsapi_MD5Update_def Let_def t)
    with 1 show ?thesis
      using finish [of ?c f d] m f st in64 by simp
  next
    case 2
    then have "lsapi_MD5Update ctx d = ?c\<lparr>md5_in := mem_write (length r) d (md5_in ctx)\<rparr>"
      by (simp add: lsapi_MD5Update_def Let_def t)
    with 2 c m f st inb in64 show ?thesis
      using take_mem_write [of "length r" d "md5_in ctx"]
      by (intro md5_repI [of _ _ f "r @ d"]) (simp_all add: md5_count_def)
  next
    case 3
    let ?b = "r @ take (64 - length r) d"
    have b: "length ?b = 64" using 3 r by simp
    let ?c' = "?c\<lparr>md5_in := ?b, md5_state := rfc_compress (md5_state ctx) (words_of ?b)\<rparr>"
    from 3 in64 inb b have "md5_block (?c\<lparr>md5_in := mem_write (length r) (take (64 - length r) d) (md5_in ctx)\<rparr>) = ?c'"
      by (simp add: md5_block_eq mem_write_full)
    with 3 have "lsapi_MD5Update ctx d = md5_update_blocks ?c' (drop (64 - length r) d)"
      by (simp add: lsapi_MD5Update_def Let_def t)
    moreover have "rfc_chain md5_iv (f @ ?b) = rfc_compress (md5_state ctx) (words_of ?b)"
      unfolding rfc_chain_append [OF f] using rfc_chain_block [OF b, of "md5_state ctx" "[]"] st
      by (simp add: rfc_chain_short)
    ultimately show ?thesis
      using finish [of ?c' "f @ ?b" "drop (64 - length r) d"] m f b by (simp add: md5_count_def)
  qed
qed

subsection \<open>The padding and the digest\<close>

lemma md5_length_field:
  assumes "md5_count ctx = n mod 2 ^ 64"
  shows "le_bytes 8 n = le_bytes 4 (unat (bits0 ctx)) @ le_bytes 4 (unat (bits1 ctx))"
proof -
  let ?c = "unat (bits0 ctx) + 2 ^ 32 * unat (bits1 ctx)"
  have c: "n mod 256 ^ 8 = ?c"
    using assms by (simp add: md5_count_def)
  have "le_bytes 8 n = le_bytes (4 + 4) (n mod 256 ^ 8)"
    by (simp add: le_bytes_mod del: power_numeral)
  also have "\<dots> = le_bytes 4 ?c @ le_bytes 4 (?c div 2 ^ 32)"
    unfolding c by (subst le_bytes_add) simp
  also have "le_bytes 4 ?c = le_bytes 4 (?c mod 256 ^ 4)"
    by (rule le_bytes_mod [symmetric])
  also have "?c mod 256 ^ 4 = unat (bits0 ctx)"
    by simp
  also have "?c div 2 ^ 32 = unat (bits1 ctx)"
    by simp
  finally show ?thesis .
qed

lemma length_md5_buf_bytes [simp]: "length (md5_buf_bytes buf) = 16"
  by (cases buf) (simp add: md5_buf_bytes_def)

text \<open>The last block of \<open>lsapi_MD5Final\<close>: what precedes the length field is kept by \<open>byteReverse\<close>.\<close>

lemma md5_last_block:
  assumes "length p = 56" and "length q = 8"
  shows "put_u32 60 w1 (put_u32 56 w0 (byteReverse (p @ q) 14)) =
    p @ le_bytes 4 (unat w0) @ le_bytes 4 (unat w1)"
  using assms by (simp add: byteReverse_id put_u32_def mem_write_def)

lemma md5_final_rfc:
  assumes rep: "md5_rep ctx m"
  shows "lsapi_MD5Final ctx = (rfc_md5 m, md5_zero_ctx)"
proof -
  from rep obtain f r where m: "m = f @ r" and f: "64 dvd length f" and r: "length r < 64"
    and st: "md5_state ctx = rfc_chain md5_iv f" and inb: "take (length r) (md5_in ctx) = r"
    and in64: "length (md5_in ctx) = 64" and cnt: "md5_count ctx = 8 * length m mod 2 ^ 64"
    by (auto simp: md5_rep_def)
  let ?L = "le_bytes 4 (unat (bits0 ctx)) @ le_bytes 4 (unat (bits1 ctx))"
  have mr: "length m mod 64 = length r"
    using m f r by (auto elim!: dvdE)
  with md5_rep_fill [OF cnt] have t: "unat (drop_bit 3 (bits0 ctx) AND 0x3f) = length r"
    by simp
  obtain x where x: "md5_in ctx = r @ x" and lx: "length x = 64 - length r"
    using inb in64 by (metis append_take_drop_id length_drop)
  have L: "le_bytes 8 (8 * length m) = ?L"
    by (rule md5_length_field) (simp add: cnt)
  have k: "(119 - length m mod 64) mod 64 = (if length r < 56 then 55 - length r else 119 - length r)"
    unfolding mr using r by (simp add: mod_if)
  have first: "mem_write (length r + 1) (replicate n 0) (mem_write (length r) [0x80] (md5_in ctx)) =
      (r @ 0x80 # replicate n 0) @ drop (Suc n) x" if "n < 64 - length r" for n
    using that lx by (simp add: x mem_write_def)
  have last: "rfc_chain buf (p @ ?L) = rfc_compress buf (words_of (p @ ?L))" if "length p = 56" for p buf
    using that rfc_chain_block [of "p @ ?L" buf "[]"] by (simp add: rfc_chain_short)
  show ?thesis
  proof (cases "length r < 56")
    case True
    let ?p = "r @ 0x80 # replicate (55 - length r) 0"
    have "rfc_pad m = f @ ?p @ ?L"
      using True unfolding rfc_pad_def k L by (simp add: m)
    then have "rfc_md5 m = md5_buf_bytes (rfc_compress (md5_state ctx) (words_of (?p @ ?L)))"
      using True last [of ?p] by (simp add: rfc_md5_def rfc_chain_append [OF f] st)
    moreover have "\<not> 63 - length r < 8" "63 - length r - 8 = 55 - length r" "55 - length r < 64 - length r"
      "Suc (55 - length r) = 56 - length r"
      using True by simp_all
    ultimately show ?thesis
      using True first [of "55 - length r"] md5_last_block [of ?p "drop (56 - length r) x" "bits1 ctx" "bits0 ctx"] lx
      by (simp add: lsapi_MD5Final_def Let_def t transform_rfc byteReverse_id Suc_diff_Suc)
  next
    case False
    let ?b = "r @ 0x80 # replicate (63 - length r) 0" and ?p = "replicate 56 0 :: byte list"
    have b: "length ?b = 64" using False r by simp
    have "replicate (119 - length r) 0 = replicate (63 - length r) 0 @ ?p"
      using r by (simp flip: replicate_add)
    then have "rfc_pad m = f @ ?b @ ?p @ ?L"
      using False unfolding rfc_pad_def k L by (simp add: m)
    then have "rfc_md5 m = md5_buf_bytes (rfc_compress (rfc_compress (md5_state ctx) (words_of ?b)) (words_of (?p @ ?L)))"
      unfolding rfc_md5_def by (simp only: rfc_chain_append [OF f] rfc_chain_block [OF b] last length_replicate st)
    moreover have "md5_block (ctx\<lparr>md5_in := ?b\<rparr>) = ctx\<lparr>md5_in := ?b, md5_state := rfc_compress (md5_state ctx) (words_of ?b)\<rparr>"
      using b by (simp add: md5_block_eq)
    moreover have "63 - length r < 8" "63 - length r < 64 - length r" "Suc (63 - length r) = 64 - length r"
      using False r by simp_all
    ultimately show ?thesis
      using False r first [of "63 - length r"] lx b
        md5_last_block [of ?p "drop 56 ?b" "bits1 ctx" "bits0 ctx"]
      by (simp add: lsapi_MD5Final_def Let_def t transform_rfc byteReverse_id mem_write_def [of 0])
  qed
qed

lemma md5_rep_updates:
  "md5_rep ctx m \<Longrightarrow> \<forall>d \<in> set ds. length d < 2 ^ 32 \<Longrightarrow>
    md5_rep (foldl lsapi_MD5Update ctx ds) (m @ concat ds)"
proof (induction ds arbitrary: ctx m)
  case Nil
  then show ?case by simp
next
  case (Cons d ds)
  from Cons.prems have "md5_rep (lsapi_MD5Update ctx d) (m @ d)"
    by (simp add: md5_rep_update)
  from Cons.IH [OF this] Cons.prems show ?case by simp
qed

subsection \<open>The properties of the digest\<close>

text \<open>
  C7. The unrolled transform of lsapilib.c, with its 64 inlined \<open>MD5STEP\<close>s, its rewritten
  round functions and its rotations by shifts, is the table-driven compression function of
  RFC 1321 on every chaining value and every block.
\<close>
theorem MD5Transform_is_rfc1321: "lsapi_MD5Transform buf block = rfc_compress buf block"
  by (simp only: transform_rfc)

text \<open>
  C6. Streaming correctness: after \<open>lsapi_MD5Init\<close>, any sequence of \<open>lsapi_MD5Update\<close> calls
  (each on fewer than 2^32 bytes, the range of \<open>unsigned len\<close>) followed by
  \<open>lsapi_MD5Final\<close> yields the RFC 1321 digest of the concatenated chunks, whatever the chunk
  boundaries and the initial contents of the block area, and leaves the context zeroed.
\<close>
theorem MD5_streaming:
  assumes "length (md5_in ctx) = 64" and "\<forall>d \<in> set ds. length d < 2 ^ 32"
  shows "lsapi_MD5Final (foldl lsapi_MD5Update (lsapi_MD5Init ctx) ds) = (rfc_md5 (concat ds), md5_zero_ctx)"
  using md5_rep_updates [OF md5_rep_init [OF assms(1)] assms(2)] by (simp add: md5_final_rfc)

theorem MD5_streaming_witness:
  "length (md5_in md5_zero_ctx) = 64 \<and> list_all (\<lambda>d. length (d :: byte list) < 2 ^ 32) [[0x61, 0x62], [], [0x63]] \<and>
   lsapi_MD5Final (foldl lsapi_MD5Update (lsapi_MD5Init md5_zero_ctx) [[0x61, 0x62], [], [0x63]])
     = (rfc_md5 [0x61, 0x62, 0x63], md5_zero_ctx)"
proof -
  have "length (md5_in md5_zero_ctx) = 64"
    and "\<forall>d \<in> set [[0x61, 0x62], [], [0x63]]. length (d :: byte list) < 2 ^ 32"
    by (simp_all add: md5_zero_ctx_def)
  with MD5_streaming [OF this] show ?thesis by simp
qed

text \<open>
  \<open>byteReverse\<close>, which the code calls on every block and whose comment says that it is
  harmless on little-endian machines, is the identity there as long as its words lie in the
  buffer.
\<close>
theorem byteReverse_harmless: "0 < longs \<Longrightarrow> 4 * longs \<le> length buf \<Longrightarrow> byteReverse buf longs = buf"
  by (rule byteReverse_id)

theorem byteReverse_harmless_witness:
  "0 < (2 :: nat) \<and> 4 * 2 \<le> length [1, 2, 3, 4, 5, 6, 7, 8, 9 :: byte] \<and>
   byteReverse [1, 2, 3, 4, 5, 6, 7, 8, 9] 2 = [1, 2, 3, 4, 5, 6, 7, 8, 9]"
  using byteReverse_harmless [of 2 "[1, 2, 3, 4, 5, 6, 7, 8, 9]"] by simp

end
