(* ===== verification/Lsapi_Packet.thy ===== *)
theory Lsapi_Packet
  imports Lsw_Prelude
begin

text \<open>
  The packets of the LSAPI protocol (src/src/lsapidef.h and the packet helpers of
  lsapilib.c): the packet header as a record of its bytes, its construction by
  \<open>lsapi_buildPacketHeader\<close>, its check by \<open>verifyHeader\<close>, which also undoes the byte order
  of a peer of the other endianness, and the constant notification packets. A receiver of
  packets is specified by \<open>parse_packet\<close>; that it inverts the code's framing is the
  interpretation of \<open>frame_codec\<close>.
\<close>

subsection \<open>Constants of lsapidef.h\<close>

abbreviation (input) H_TRANSFER_ENCODING :: nat where "H_TRANSFER_ENCODING \<equiv> 24"
abbreviation (input) H_CONTENT_LENGTH :: nat where "H_CONTENT_LENGTH \<equiv> 7"

abbreviation (input) LSAPI_VERSION_B0 :: byte where "LSAPI_VERSION_B0 \<equiv> 0x4c"
abbreviation (input) LSAPI_VERSION_B1 :: byte where "LSAPI_VERSION_B1 \<equiv> 0x53"
abbreviation (input) LSAPI_ENDIAN_LITTLE :: byte where "LSAPI_ENDIAN_LITTLE \<equiv> 0"
abbreviation (input) LSAPI_ENDIAN_BIG :: byte where "LSAPI_ENDIAN_BIG \<equiv> 1"
abbreviation (input) LSAPI_ENDIAN_BIT :: byte where "LSAPI_ENDIAN_BIT \<equiv> 1"

text \<open>The endianness of x86, the platform of the model.\<close>

abbreviation (input) LSAPI_ENDIAN :: byte where "LSAPI_ENDIAN \<equiv> LSAPI_ENDIAN_LITTLE"

abbreviation (input) LSAPI_BEGIN_REQUEST :: byte where "LSAPI_BEGIN_REQUEST \<equiv> 1"
abbreviation (input) LSAPI_ABORT_REQUEST :: byte where "LSAPI_ABORT_REQUEST \<equiv> 2"
abbreviation (input) LSAPI_RESP_HEADER :: byte where "LSAPI_RESP_HEADER \<equiv> 3"
abbreviation (input) LSAPI_RESP_STREAM :: byte where "LSAPI_RESP_STREAM \<equiv> 4"
abbreviation (input) LSAPI_RESP_END :: byte where "LSAPI_RESP_END \<equiv> 5"
abbreviation (input) LSAPI_STDERR_STREAM :: byte where "LSAPI_STDERR_STREAM \<equiv> 6"
abbreviation (input) LSAPI_REQ_RECEIVED :: byte where "LSAPI_REQ_RECEIVED \<equiv> 7"
abbreviation (input) LSAPI_CONN_CLOSE :: byte where "LSAPI_CONN_CLOSE \<equiv> 8"
abbreviation (input) LSAPI_INTERNAL_ERROR :: byte where "LSAPI_INTERNAL_ERROR \<equiv> 9"

abbreviation (input) LSAPI_MAX_HEADER_LEN :: int where "LSAPI_MAX_HEADER_LEN \<equiv> 65535"
abbreviation (input) LSAPI_MAX_DATA_PACKET_LEN :: nat where "LSAPI_MAX_DATA_PACKET_LEN \<equiv> 16384"
abbreviation (input) LSAPI_RESP_HTTP_HEADER_MAX :: int where "LSAPI_RESP_HTTP_HEADER_MAX \<equiv> 32768"
abbreviation (input) LSAPI_PACKET_HEADER_LEN :: nat where "LSAPI_PACKET_HEADER_LEN \<equiv> 8"

subsection \<open>The packet header\<close>

text \<open>The union \<open>m_packetLen\<close> is kept as its four bytes \<open>m_bytes\<close>; \<open>m_iLen\<close> reads them.\<close>

record lsapi_packet_header =
  m_versionB0 :: byte
  m_versionB1 :: byte
  m_type :: byte
  m_flag :: byte
  m_packetLen :: "byte list"

definition m_iLen :: "lsapi_packet_header \<Rightarrow> int" where
  "m_iLen h = int32_of (m_packetLen h)"

definition lsapi_buildPacketHeader :: "byte \<Rightarrow> int \<Rightarrow> lsapi_packet_header" where
  "lsapi_buildPacketHeader type len =
    \<lparr>m_versionB0 = LSAPI_VERSION_B0, m_versionB1 = LSAPI_VERSION_B1, m_type = type,
     m_flag = LSAPI_ENDIAN, m_packetLen = int32_bytes len\<rparr>"

text \<open>The header as it lies in memory, and the header that lies at the start of a buffer.\<close>

definition packet_header_bytes :: "lsapi_packet_header \<Rightarrow> byte list" where
  "packet_header_bytes h = [m_versionB0 h, m_versionB1 h, m_type h, m_flag h] @ m_packetLen h"

definition packet_header_at :: "byte list \<Rightarrow> lsapi_packet_header" where
  "packet_header_at buf =
    \<lparr>m_versionB0 = buf ! 0, m_versionB1 = buf ! 1, m_type = buf ! 2, m_flag = buf ! 3,
     m_packetLen = mem_read 4 4 buf\<rparr>"

text \<open>\<open>swapIntEndian\<close> exchanges the outer and the inner two of four bytes.\<close>

definition swapIntEndian :: "byte list \<Rightarrow> byte list" where
  "swapIntEndian p =
    (let b = p ! 0; p = p[0 := p ! 3]; p = p[3 := b];
         b = p ! 1; p = p[1 := p ! 2]; p = p[2 := b]
     in p)"

definition verifyHeader :: "lsapi_packet_header \<Rightarrow> byte \<Rightarrow> int \<times> lsapi_packet_header" where
  "verifyHeader h pktType =
    (if LSAPI_VERSION_B0 \<noteq> m_versionB0 h \<or> LSAPI_VERSION_B1 \<noteq> m_versionB1 h \<or> pktType \<noteq> m_type h
     then (-1, h)
     else (let h = (if LSAPI_ENDIAN \<noteq> m_flag h AND LSAPI_ENDIAN_BIT
                    then h\<lparr>m_packetLen :=
                      (let p = m_packetLen h;
                           b = p ! 0; p = p[0 := p ! 3]; p = p[3 := b];
                           b = p ! 1; p = p[1 := p ! 2]; p = p[2 := b]
                       in p)\<rparr>
                    else h)
           in (m_iLen h, h)))"

subsection \<open>Constant packets\<close>

definition s_ack :: "byte list" where
  "s_ack = packet_header_bytes (lsapi_buildPacketHeader LSAPI_REQ_RECEIVED 8)"

definition s_conn_close_pkt :: "byte list" where
  "s_conn_close_pkt = packet_header_bytes (lsapi_buildPacketHeader LSAPI_CONN_CLOSE 8)"

definition finish_close :: "byte list" where
  "finish_close = packet_header_bytes (lsapi_buildPacketHeader LSAPI_RESP_END 8) @
                  packet_header_bytes (lsapi_buildPacketHeader LSAPI_CONN_CLOSE 8)"

text \<open>The 16 bytes that \<open>lsapi_notify_pid\<close> sends: a stderr packet with a NUL, \<open>PID\<close> and the pid.\<close>

definition notify_pid_packet :: "int \<Rightarrow> byte list" where
  "notify_pid_packet pid =
    packet_header_bytes (lsapi_buildPacketHeader LSAPI_STDERR_STREAM (8 + 8)) @
    [0, 0x50, 0x49, 0x44] @ int32_bytes pid"

text \<open>The connection key packet of \<open>init_conn_key\<close>: eight random bytes after the header.\<close>

definition conn_key_packet :: "byte list \<Rightarrow> byte list" where
  "conn_key_packet rnd = packet_header_bytes (lsapi_buildPacketHeader LSAPI_REQ_RECEIVED (8 + 8)) @ rnd"

subsection \<open>A receiver of packets\<close>

text \<open>
  The specification of the peer: a packet is a type and a payload; the length field counts
  the header.
\<close>

type_synonym packet = "byte \<times> byte list"

definition packet_bytes :: "packet \<Rightarrow> byte list" where
  "packet_bytes = (\<lambda>(type, payload).
    packet_header_bytes (lsapi_buildPacketHeader type (int (8 + length payload))) @ payload)"

definition packet_ok :: "packet \<Rightarrow> bool" where
  "packet_ok = (\<lambda>(type, payload). length payload + 8 < 2147483648)"

definition parse_packet :: "byte list \<Rightarrow> (packet \<times> byte list) option" where
  "parse_packet bs =
    (if length bs < 8 then None
     else let h = packet_header_at bs; (len, h) = verifyHeader h (m_type h)
          in if len < 8 \<or> length bs < nat len then None
             else Some ((m_type h, mem_read 8 (nat len - 8) bs), drop (nat len) bs))"

subsection \<open>Properties\<close>

lemma list4: "length p = 4 \<Longrightarrow> p = [p ! 0, p ! 1, p ! 2, p ! 3]"
  by (rule nth_equalityI) (auto simp: less_Suc_eq numeral_eq_Suc)

lemma list4E:
  assumes "length p = 4" obtains a b c d where "p = [a, b, c, d]"
  using list4 [OF assms] that by blast

lemma swapIntEndian_rev: "length p = 4 \<Longrightarrow> swapIntEndian p = rev p"
  by (erule list4E) (simp add: swapIntEndian_def)

lemma swapIntEndian_4 [simp]: "swapIntEndian [a, b, c, d] = [d, c, b, a]"
  by (simp add: swapIntEndian_def)

lemma length_swapIntEndian [simp]: "length (swapIntEndian p) = length p"
  by (simp add: swapIntEndian_def Let_def)

lemma verifyHeader_swap:
  "verifyHeader h pktType =
    (if LSAPI_VERSION_B0 \<noteq> m_versionB0 h \<or> LSAPI_VERSION_B1 \<noteq> m_versionB1 h \<or> pktType \<noteq> m_type h
     then (-1, h)
     else (let h = (if LSAPI_ENDIAN \<noteq> m_flag h AND LSAPI_ENDIAN_BIT
                    then h\<lparr>m_packetLen := swapIntEndian (m_packetLen h)\<rparr> else h)
           in (m_iLen h, h)))"
  by (simp only: verifyHeader_def swapIntEndian_def Let_def)

lemma length_packet_header_bytes [simp]:
  "length (packet_header_bytes (lsapi_buildPacketHeader type len)) = 8"
  by (simp add: packet_header_bytes_def lsapi_buildPacketHeader_def)

lemma packet_header_at_build [simp]:
  "packet_header_at (packet_header_bytes (lsapi_buildPacketHeader type len) @ rest) =
    lsapi_buildPacketHeader type len"
  by (simp add: packet_header_at_def packet_header_bytes_def lsapi_buildPacketHeader_def mem_read_def)

lemma verify_build:
  "int32_range len \<Longrightarrow>
    verifyHeader (lsapi_buildPacketHeader type len) type = (len, lsapi_buildPacketHeader type len)"
  by (simp add: verifyHeader_def lsapi_buildPacketHeader_def m_iLen_def byte_simps)

lemma m_type_build [simp]: "m_type (lsapi_buildPacketHeader type len) = type"
  by (simp add: lsapi_buildPacketHeader_def)

lemma length_packet_bytes [simp]: "length (packet_bytes (type, payload)) = 8 + length payload"
  by (simp add: packet_bytes_def)

lemma parse_packet_bytes:
  "packet_ok p \<Longrightarrow> parse_packet (packet_bytes p @ rest) = Some (p, rest)"
proof (cases p)
  fix type payload
  assume ok: "packet_ok p" and p: "p = (type, payload)"
  then have "int32_range (int (8 + length payload))"
    by (simp add: packet_ok_def int32_range_def)
  then have "verifyHeader (lsapi_buildPacketHeader type (int (8 + length payload))) type =
      (int (8 + length payload), lsapi_buildPacketHeader type (int (8 + length payload)))"
    by (rule verify_build)
  with p show ?thesis
    by (simp add: parse_packet_def packet_bytes_def mem_read_def nat_add_distrib)
qed

interpretation pkt: frame_codec packet_bytes parse_packet packet_ok
  by unfold_locales (rule parse_packet_bytes)

text \<open>
  A packet header that \<open>lsapi_buildPacketHeader\<close> makes is accepted by \<open>verifyHeader\<close>
  with the length that was put in, whether the peer that built it is of the same byte order
  or of the other one (flag bit set, length bytes reversed); in the latter case the length
  is left in native order.
\<close>
theorem verifyHeader_either_endian:
  assumes "int32_range len"
  shows "verifyHeader (lsapi_buildPacketHeader type len) type = (len, lsapi_buildPacketHeader type len) \<and>
    verifyHeader ((lsapi_buildPacketHeader type len)
            \<lparr>m_flag := LSAPI_ENDIAN_BIG, m_packetLen := rev (int32_bytes len)\<rparr>) type =
          (len, (lsapi_buildPacketHeader type len)\<lparr>m_flag := LSAPI_ENDIAN_BIG\<rparr>)"
proof -
  have "swapIntEndian (rev (int32_bytes len)) = int32_bytes len"
    by (simp add: swapIntEndian_rev)
  with assms have "verifyHeader ((lsapi_buildPacketHeader type len)
            \<lparr>m_flag := LSAPI_ENDIAN_BIG, m_packetLen := rev (int32_bytes len)\<rparr>) type =
          (len, (lsapi_buildPacketHeader type len)\<lparr>m_flag := LSAPI_ENDIAN_BIG\<rparr>)"
    by (simp add: verifyHeader_swap lsapi_buildPacketHeader_def m_iLen_def byte_simps Let_def)
  with verify_build [OF assms] show ?thesis by blast
qed

theorem verifyHeader_either_endian_witness:
  "int32_range 300 \<and>
   verifyHeader ((lsapi_buildPacketHeader LSAPI_BEGIN_REQUEST 300)
            \<lparr>m_flag := LSAPI_ENDIAN_BIG, m_packetLen := rev (int32_bytes 300)\<rparr>) LSAPI_BEGIN_REQUEST =
          (300, (lsapi_buildPacketHeader LSAPI_BEGIN_REQUEST 300)\<lparr>m_flag := LSAPI_ENDIAN_BIG\<rparr>)"
proof -
  have "int32_range 300" by (simp add: int32_range_def)
  with verifyHeader_either_endian [OF this] show ?thesis by blast
qed

end
