(* ===== verification/Lsapi_World.thy ===== *)
theory Lsapi_World
  imports Lsapi_Packet
begin

text \<open>
  What the request code of lsapilib.c shares: the process-wide variables it reads and
  writes, the connection, and the system-call wrappers \<open>lsapi_read\<close>, \<open>lsapi_writev\<close> and
  \<open>lsapi_close_connection\<close>. The connection is a script of what the kernel will answer to
  the next reads and writes, so that short reads, short writes, interrupting signals and
  errors are all inputs of the model; the bytes that reached the peer are accumulated in
  \<open>wire\<close>. An operation yields \<open>None\<close> when the C code has undefined behaviour or loops for
  ever.
\<close>

subsection \<open>State\<close>

text \<open>
  Answers to \<open>read\<close>: a segment of data (a shorter request takes a part of it), an
  interrupted call (\<open>True\<close> when the signal was SIGUSR1, whose handler clears \<open>g_running\<close>),
  another error. An exhausted script is the end of the stream. Answers to \<open>write\<close> and
  \<open>writev\<close>: at most so many bytes accepted, interrupted, EAGAIN, another error; an exhausted
  script accepts everything.
\<close>

datatype rx_event = RxData "byte list" | RxIntr bool | RxErr
datatype tx_event = TxAccept nat | TxIntr bool | TxAgain | TxErr

datatype worker_state = LSAPI_STATE_IDLE | LSAPI_STATE_CONNECTED | LSAPI_STATE_ACCEPTING

text \<open>
  The two counters and the state live in memory shared with the other workers and are
  \<open>None\<close> while the pointers to them are NULL. \<open>alloc_ok n\<close> says whether an allocation of
  \<open>n\<close> bytes succeeds, \<open>junk i\<close> what byte \<open>i\<close> of newly allocated memory holds.
\<close>

record lsapi_world =
  g_running :: bool
  s_skip_write :: bool
  s_busy_workers :: "int option"
  s_worker_state :: "worker_state option"
  s_stderr_log_path :: "byte list option"
  s_uid :: int
  s_defaultUid :: int
  s_defaultGid :: int
  s_secret :: "byte list"
  s_accept_notify :: bool
  s_schedule_notify :: bool
  s_notify_scheduled :: bool
  s_notified_pid :: bool
  w_rx :: "rx_event list"
  w_tx :: "tx_event list"
  wire :: "byte list"
  stderr_out :: "byte list"
  alloc_ok :: "nat \<Rightarrow> bool"
  junk :: "nat \<Rightarrow> byte"

text \<open>The initial values of the variables, with a given script of reads and an allocator that succeeds.\<close>

definition start_world :: "rx_event list \<Rightarrow> lsapi_world" where
  "start_world rxs =
    \<lparr>g_running = True, s_skip_write = False, s_busy_workers = None, s_worker_state = None,
     s_stderr_log_path = None, s_uid = 0, s_defaultUid = 0, s_defaultGid = 0, s_secret = replicate 24 0,
     s_accept_notify = False, s_schedule_notify = False, s_notify_scheduled = False, s_notified_pid = False,
     w_rx = rxs, w_tx = [], wire = [], stderr_out = [], alloc_ok = (\<lambda>_. True), junk = (\<lambda>_. 0)\<rparr>"

text \<open>Results of the system calls: \<open>Inl e\<close> is \<open>-1\<close> with \<open>errno = e\<close>.\<close>

datatype errno = EINTR | EAGAIN | EOTHER

subsection \<open>Reading\<close>

definition sys_read :: "nat \<Rightarrow> lsapi_world \<Rightarrow> (errno + byte list) \<times> lsapi_world" where
  "sys_read len w =
    (case w_rx w of
       [] \<Rightarrow> (Inr [], w)
     | RxData bs # es \<Rightarrow>
         (Inr (take len bs), w\<lparr>w_rx := (if length bs \<le> len then es else RxData (drop len bs) # es)\<rparr>)
     | RxIntr stop # es \<Rightarrow> (Inl EINTR, w\<lparr>w_rx := es, g_running := g_running w \<and> \<not> stop\<rparr>)
     | RxErr # es \<Rightarrow> (Inl EOTHER, w\<lparr>w_rx := es\<rparr>))"

text \<open>The loop of \<open>lsapi_read\<close> repeats an interrupted call as long as the worker runs.\<close>

function lsapi_read :: "nat \<Rightarrow> lsapi_world \<Rightarrow> (errno + byte list) \<times> lsapi_world" where
  "lsapi_read len w =
    (case sys_read len w of
       (Inl EINTR, w') \<Rightarrow> if g_running w' then lsapi_read len w' else (Inl EINTR, w')
     | (r, w') \<Rightarrow> (r, w'))"
  by pat_completeness auto
termination
  by (relation "measure (\<lambda>(len, w). length (w_rx w))")
    (auto simp: sys_read_def split: list.splits rx_event.splits)

declare lsapi_read.simps [simp del]

subsection \<open>Writing\<close>

definition sys_write :: "byte list \<Rightarrow> lsapi_world \<Rightarrow> (errno + nat) \<times> lsapi_world" where
  "sys_write bs w =
    (case w_tx w of
       [] \<Rightarrow> (Inr (length bs), w\<lparr>wire := wire w @ bs\<rparr>)
     | TxAccept k # es \<Rightarrow> (Inr (length (take k bs)), w\<lparr>w_tx := es, wire := wire w @ take k bs\<rparr>)
     | TxIntr stop # es \<Rightarrow> (Inl EINTR, w\<lparr>w_tx := es, g_running := g_running w \<and> \<not> stop\<rparr>)
     | TxAgain # es \<Rightarrow> (Inl EAGAIN, w\<lparr>w_tx := es\<rparr>)
     | TxErr # es \<Rightarrow> (Inl EOTHER, w\<lparr>w_tx := es\<rparr>))"

text \<open>
  An \<open>iovec\<close> names the object its base points into, the offset there and the length. The
  array is a list of slots; a slot that was never assigned is \<open>None\<close>. \<open>deref\<close> gives the
  bytes an object holds when the kernel reads it.
\<close>

datatype iov_obj =
    RespPktHeader nat | RespBuf | RespHeaderBuf | RespHeader | FinishClose
  | StderrHeader "byte list" | UserData "byte list"

record iovec =
  iov_base :: iov_obj
  iov_off :: nat
  iov_len :: nat

definition iov_data :: "(iov_obj \<Rightarrow> byte list) \<Rightarrow> iovec \<Rightarrow> byte list option" where
  "iov_data deref v = load (int (iov_off v)) (iov_len v) (deref (iov_base v))"

text \<open>What \<open>writev\<close> offers for \<open>n\<close> slots from position \<open>pos\<close>.\<close>

fun gather :: "(iov_obj \<Rightarrow> byte list) \<Rightarrow> iovec option list \<Rightarrow> nat \<Rightarrow> nat \<Rightarrow> byte list option" where
  "gather deref slots pos 0 = Some []"
| "gather deref slots pos (Suc n) =
    (if pos < length slots
     then do { v \<leftarrow> slots ! pos; d \<leftarrow> iov_data deref v; ds \<leftarrow> gather deref slots (pos + 1) n; Some (d @ ds) }
     else None)"

text \<open>The inner loop of \<open>lsapi_writev\<close>: step over what the kernel accepted.\<close>

function iov_advance :: "iovec option list \<Rightarrow> nat \<Rightarrow> nat \<Rightarrow> (iovec option list \<times> nat) option" where
  "iov_advance slots pos ret =
    (if ret = 0 then Some (slots, pos)
     else if pos < length slots
     then do {
       v \<leftarrow> slots ! pos;
       (if iov_len v \<le> ret then iov_advance slots (pos + 1) (ret - iov_len v)
        else Some (slots[pos := Some (v\<lparr>iov_off := iov_off v + ret, iov_len := iov_len v - ret\<rparr>)], pos)) }
     else None)"
  by pat_completeness auto
termination
  by (relation "measure (\<lambda>(slots, pos, ret). length slots - pos)") auto

declare iov_advance.simps [simp del]

text \<open>
  The outer loop. \<open>count\<close> slots are offered in every round, also after the position has
  advanced. An answer of 0 bytes repeats the call; with an exhausted script it would repeat
  for ever. The result is the C return value, the slots, the position and the world.
\<close>

fun writev_loop ::
  "(iov_obj \<Rightarrow> byte list) \<Rightarrow> nat \<Rightarrow> int \<Rightarrow> nat \<Rightarrow> iovec option list \<Rightarrow> nat \<Rightarrow> int \<Rightarrow> lsapi_world
    \<Rightarrow> (int \<times> iovec option list \<times> nat \<times> lsapi_world) option"
where
  "writev_loop deref n totalLen 0 slots pos left w = None"
| "writev_loop deref n totalLen (Suc fuel) slots pos left w =
    (if left > 0 \<and> g_running w
     then do {
       bs \<leftarrow> gather deref slots pos n;
       (case sys_write bs w of
          (Inr ret, w') \<Rightarrow>
            if ret > 0
            then let left' = left - int ret in
              if left' \<le> 0 \<or> \<not> g_running w'
              then Some (totalLen - left', slots, pos, w')
              else do {
                (slots', pos') \<leftarrow> iov_advance slots pos ret;
                writev_loop deref n totalLen fuel slots' pos' left' w' }
            else writev_loop deref n totalLen fuel slots pos left w'
        | (Inl EAGAIN, w') \<Rightarrow>
            Some (if totalLen - left > 0 then totalLen - left else -1, slots, pos, w')
        | (Inl EINTR, w') \<Rightarrow> writev_loop deref n totalLen fuel slots pos left w'
        | (Inl EOTHER, w') \<Rightarrow> Some (-1, slots, pos, w')) }
     else Some (totalLen - left, slots, pos, w))"

text \<open>
  The fuel covers one round per answer of the script and one per slot: each further round
  with an exhausted script steps over at least one slot or is the endless repetition.
\<close>

definition lsapi_writev ::
  "(iov_obj \<Rightarrow> byte list) \<Rightarrow> iovec option list \<Rightarrow> nat \<Rightarrow> nat \<Rightarrow> int \<Rightarrow> lsapi_world
    \<Rightarrow> (int \<times> iovec option list \<times> nat \<times> lsapi_world) option"
where
  "lsapi_writev deref slots pos count totalLen w =
    (if s_skip_write w then Some (totalLen, slots, pos, w)
     else writev_loop deref count totalLen (length (w_tx w) + length slots + 2) slots pos totalLen w)"

text \<open>\<open>send_notification_pkt\<close> and its callers: one \<open>write\<close>, an error unless all is accepted.\<close>

definition send_notification_pkt :: "byte list \<Rightarrow> lsapi_world \<Rightarrow> int \<times> lsapi_world" where
  "send_notification_pkt pkt w =
    (case sys_write pkt w of
       (Inr n, w') \<Rightarrow> (if n < length pkt then -1 else 0, w')
     | (Inl _, w') \<Rightarrow> (-1, w'))"

definition send_req_received_notification :: "lsapi_world \<Rightarrow> int \<times> lsapi_world" where
  "send_req_received_notification w = send_notification_pkt s_ack w"

definition send_conn_close_notification :: "lsapi_world \<Rightarrow> int \<times> lsapi_world" where
  "send_conn_close_notification w = send_notification_pkt s_conn_close_pkt w"

definition lsapi_schedule_notify :: "lsapi_world \<Rightarrow> int \<times> lsapi_world" where
  "lsapi_schedule_notify w = (0, if s_notify_scheduled w then w else w\<lparr>s_notify_scheduled := True\<rparr>)"

definition notify_req_received :: "lsapi_world \<Rightarrow> int \<times> lsapi_world" where
  "notify_req_received w =
    (if s_schedule_notify w then lsapi_schedule_notify w else send_req_received_notification w)"

definition lsapi_notify_pid :: "int \<Rightarrow> lsapi_world \<Rightarrow> int \<times> lsapi_world" where
  "lsapi_notify_pid pid w = send_notification_pkt (notify_pid_packet pid) w"

definition init_conn_key :: "byte list \<Rightarrow> lsapi_world \<Rightarrow> int \<times> lsapi_world" where
  "init_conn_key rnd w = send_notification_pkt (conn_key_packet rnd) w"

definition lsapi_siguser1 :: "lsapi_world \<Rightarrow> lsapi_world" where
  "lsapi_siguser1 w = w\<lparr>g_running := False\<rparr>"

definition LSAPI_Stop :: "lsapi_world \<Rightarrow> lsapi_world" where
  "LSAPI_Stop w = w\<lparr>g_running := False\<rparr>"

definition LSAPI_IsRunning :: "lsapi_world \<Rightarrow> bool" where
  "LSAPI_IsRunning w = g_running w"

text \<open>The effect of \<open>lsapi_close_connection\<close> on the shared state, for an open connection.\<close>

definition release_worker :: "lsapi_world \<Rightarrow> lsapi_world" where
  "release_worker w = w\<lparr>s_busy_workers := map_option (\<lambda>n. n - 1) (s_busy_workers w),
     s_worker_state := map_option (\<lambda>_. LSAPI_STATE_IDLE) (s_worker_state w)\<rparr>"

subsection \<open>The socket as a byte source\<close>

text \<open>
  The bytes a script still has to deliver, and the scripts without an error: non-empty
  segments and interruptions that do not stop the worker.
\<close>

fun rx_bytes :: "rx_event list \<Rightarrow> byte list" where
  "rx_bytes [] = []"
| "rx_bytes (RxData bs # es) = bs @ rx_bytes es"
| "rx_bytes (RxIntr _ # es) = rx_bytes es"
| "rx_bytes (RxErr # es) = rx_bytes es"

fun rx_clean :: "rx_event list \<Rightarrow> bool" where
  "rx_clean [] = True"
| "rx_clean (RxData bs # es) = (bs \<noteq> [] \<and> rx_clean es)"
| "rx_clean (RxIntr stop # es) = (\<not> stop \<and> rx_clean es)"
| "rx_clean (RxErr # es) = False"

abbreviation rx_avail :: "lsapi_world \<Rightarrow> byte list" where
  "rx_avail w \<equiv> rx_bytes (w_rx w)"

abbreviation rx_live :: "lsapi_world \<Rightarrow> bool" where
  "rx_live w \<equiv> g_running w \<and> rx_clean (w_rx w)"

lemma lsapi_read_cases:
  "lsapi_read len w =
    (case w_rx w of
       [] \<Rightarrow> (Inr [], w)
     | RxData bs # es \<Rightarrow>
         (Inr (take len bs), w\<lparr>w_rx := (if length bs \<le> len then es else RxData (drop len bs) # es)\<rparr>)
     | RxIntr stop # es \<Rightarrow>
         (let w' = w\<lparr>w_rx := es, g_running := g_running w \<and> \<not> stop\<rparr>
          in if g_running w' then lsapi_read len w' else (Inl EINTR, w'))
     | RxErr # es \<Rightarrow> (Inl EOTHER, w\<lparr>w_rx := es\<rparr>))"
  by (subst lsapi_read.simps)
    (auto simp: sys_read_def Let_def split: list.splits rx_event.splits)

lemma lsapi_read_induct [case_names Nil Data Err Stop Intr]:
  assumes "\<And>w. w_rx w = [] \<Longrightarrow> P w (Inr [], w)"
    and "\<And>w bs es. w_rx w = RxData bs # es \<Longrightarrow>
      P w (Inr (take len bs), w\<lparr>w_rx := (if length bs \<le> len then es else RxData (drop len bs) # es)\<rparr>)"
    and "\<And>w es. w_rx w = RxErr # es \<Longrightarrow> P w (Inl EOTHER, w\<lparr>w_rx := es\<rparr>)"
    and "\<And>w es stop. w_rx w = RxIntr stop # es \<Longrightarrow> \<not> (g_running w \<and> \<not> stop) \<Longrightarrow>
      P w (Inl EINTR, w\<lparr>w_rx := es, g_running := False\<rparr>)"
    and "\<And>w es r. w_rx w = RxIntr False # es \<Longrightarrow> g_running w \<Longrightarrow> P (w\<lparr>w_rx := es\<rparr>) r \<Longrightarrow> P w r"
  shows "P w (lsapi_read len w)"
proof (induction "w_rx w" arbitrary: w)
  case Nil
  with assms(1) [of w] show ?case by (simp add: lsapi_read_cases [of len w])
next
  case (Cons e es)
  note e = Cons.hyps(2) [symmetric]
  show ?case
  proof (cases e)
    case (RxData bs)
    with e assms(2) [of w bs es] show ?thesis by (simp add: lsapi_read_cases [of len w])
  next
    case RxErr
    with e assms(3) [of w es] show ?thesis by (simp add: lsapi_read_cases [of len w])
  next
    case (RxIntr stop)
    show ?thesis
    proof (cases "g_running w \<and> \<not> stop")
      case True
      then have "w\<lparr>w_rx := es, g_running := True\<rparr> = w\<lparr>w_rx := es\<rparr>" by simp
      moreover from True RxIntr e have "lsapi_read len w = lsapi_read len (w\<lparr>w_rx := es, g_running := True\<rparr>)"
        by (simp add: lsapi_read_cases [of len w] Let_def)
      ultimately have "lsapi_read len w = lsapi_read len (w\<lparr>w_rx := es\<rparr>)" by (simp only:)
      moreover have "P (w\<lparr>w_rx := es\<rparr>) (lsapi_read len (w\<lparr>w_rx := es\<rparr>))"
        by (rule Cons.hyps) simp
      ultimately show ?thesis using assms(5) [of w es] True RxIntr e by simp
    next
      case False
      then have "lsapi_read len w = (Inl EINTR, w\<lparr>w_rx := es, g_running := False\<rparr>)"
        using RxIntr e by (auto simp: lsapi_read_cases [of len w] Let_def)
      with assms(4) [of w stop es] False RxIntr e show ?thesis by simp
    qed
  qed
qed

text \<open>Only the script and, through a signal, \<open>g_running\<close> change.\<close>

lemma lsapi_read_frame:
  "lsapi_read len w = (r, w') \<Longrightarrow> w' = w\<lparr>w_rx := w_rx w', g_running := g_running w'\<rparr>"
proof -
  have "case lsapi_read len w of (r, w') \<Rightarrow> w' = w\<lparr>w_rx := w_rx w', g_running := g_running w'\<rparr>"
    by (induction rule: lsapi_read_induct) (auto split: prod.splits)
  then show "lsapi_read len w = (r, w') \<Longrightarrow> ?thesis" by simp
qed

interpretation sock: byte_source lsapi_read rx_avail rx_live
proof
  fix n :: nat and w w' :: lsapi_world and bs
  assume r: "lsapi_read n w = (Inr bs, w')"
  have "case lsapi_read n w of (Inr bs, w') \<Rightarrow> length bs \<le> n \<and> rx_avail w = bs @ rx_avail w' | _ \<Rightarrow> True"
    by (induction rule: lsapi_read_induct) (auto split: sum.splits)
  with r show "length bs \<le> n" "rx_avail w = bs @ rx_avail w'" by simp_all
next
  fix n :: nat and w w' :: lsapi_world and e
  assume r: "lsapi_read n w = (Inl e, w')"
  have "case lsapi_read n w of (Inl e, w') \<Rightarrow> rx_avail w' = rx_avail w | _ \<Rightarrow> True"
    by (induction rule: lsapi_read_induct) (auto split: sum.splits)
  with r show "rx_avail w' = rx_avail w" by simp
next
  fix w :: lsapi_world and n :: nat
  assume a: "rx_live w" "0 < n" "rx_avail w \<noteq> []"
  have "rx_live w \<longrightarrow> rx_avail w \<noteq> [] \<longrightarrow>
      (\<exists>bs w'. lsapi_read n w = (Inr bs, w') \<and> bs \<noteq> [] \<and> rx_live w')"
    using a(2) by (induction rule: lsapi_read_induct) auto
  with a show "\<exists>bs w'. lsapi_read n w = (Inr bs, w') \<and> bs \<noteq> [] \<and> rx_live w'" by simp
qed

subsection \<open>Gathered output\<close>

lemma gather_take: "gather deref slots pos n = Some bs \<Longrightarrow> n = 0 \<or> pos + n \<le> length slots"
  by (induction n arbitrary: pos bs) (fastforce split: if_splits bind_splits)+

lemma gather_append:
  "gather deref slots pos (m + n) =
    do { xs \<leftarrow> gather deref slots pos m; ys \<leftarrow> gather deref slots (pos + m) n; Some (xs @ ys) }"
  by (induction m arbitrary: pos) (auto split: bind_splits)

lemma gather_cong:
  assumes "\<And>i. pos \<le> i \<Longrightarrow> i < pos + n \<Longrightarrow> i < length slots \<longleftrightarrow> i < length slots'"
    and "\<And>i. pos \<le> i \<Longrightarrow> i < pos + n \<Longrightarrow> i < length slots \<Longrightarrow>
      Option.bind (slots ! i) (iov_data deref) = Option.bind (slots' ! i) (iov_data deref')"
  shows "gather deref slots pos n = gather deref' slots' pos n"
  using assms
proof (induction n arbitrary: pos)
  case 0
  then show ?case by simp
next
  case (Suc n)
  have "gather deref slots (pos + 1) n = gather deref' slots' (pos + 1) n"
    by (rule Suc.IH) (use Suc.prems in auto)
  moreover have "pos < length slots \<longleftrightarrow> pos < length slots'"
    using Suc.prems(1) [of pos] by simp
  moreover have "pos < length slots \<Longrightarrow>
      Option.bind (slots ! pos) (iov_data deref) = Option.bind (slots' ! pos) (iov_data deref')"
    using Suc.prems(2) [of pos] by simp
  ultimately show ?case
    by (simp flip: bind_assoc)
qed

text \<open>
  A peer that takes whatever is offered, with any number of interruptions that do not stop
  the worker: then all of the gathered bytes arrive.
\<close>

fun tx_clean :: "tx_event list \<Rightarrow> bool" where
  "tx_clean [] = True"
| "tx_clean (TxIntr stop # es) = (\<not> stop \<and> tx_clean es)"
| "tx_clean (TxAccept k # es) = False"
| "tx_clean (TxAgain # es) = False"
| "tx_clean (TxErr # es) = False"

abbreviation tx_live :: "lsapi_world \<Rightarrow> bool" where
  "tx_live w \<equiv> g_running w \<and> tx_clean (w_tx w) \<and> \<not> s_skip_write w"

lemma writev_loop_clean:
  assumes "g_running w" "tx_clean (w_tx w)" "gather deref slots pos n = Some bs"
    and "0 < length bs" "length (w_tx w) < fuel"
  shows "writev_loop deref n (int (length bs)) fuel slots pos (int (length bs)) w =
    Some (int (length bs), slots, pos, w\<lparr>w_tx := [], wire := wire w @ bs\<rparr>)"
  using assms
proof (induction fuel arbitrary: w)
  case 0
  then show ?case by simp
next
  case (Suc fuel)
  show ?case
  proof (cases "w_tx w")
    case Nil
    with Suc.prems show ?thesis by (simp add: sys_write_def Let_def)
  next
    case (Cons e es)
    with Suc.prems have e: "e = TxIntr False" "tx_clean es" by (cases e; simp)+
    have "w\<lparr>w_tx := es, g_running := True\<rparr> = w\<lparr>w_tx := es\<rparr>"
      using Suc.prems(1) by simp
    then have "sys_write bs w = (Inl EINTR, w\<lparr>w_tx := es\<rparr>)"
      using Suc.prems(1) Cons e by (simp add: sys_write_def)
    with Suc.IH [of "w\<lparr>w_tx := es\<rparr>"] Suc.prems Cons e show ?thesis by simp
  qed
qed

declare writev_loop.simps(2) [simp del]

lemma lsapi_writev_clean:
  assumes "tx_live w" "gather deref slots pos n = Some bs" "0 < length bs" "totalLen = int (length bs)"
  shows "lsapi_writev deref slots pos n totalLen w =
    Some (totalLen, slots, pos, w\<lparr>w_tx := [], wire := wire w @ bs\<rparr>)"
  using assms writev_loop_clean [of w deref slots pos n bs] by (simp add: lsapi_writev_def)

end
