(* ===== verification/Lsapi_Request.thy ===== *)
theory Lsapi_Request
  imports Lsapi_World
begin

text \<open>
  The request half of lsapilib.c: the record \<open>LSAPI_Request\<close>, the parser of the request
  packet (\<open>parseEnv\<close>, \<open>fixEndian\<close>, \<open>fixHeaderIndexEndian\<close>, \<open>validateHeaders\<close>,
  \<open>parseRequest\<close>), the accessors of headers and environment and the readers of the request
  body. The C structures that overlay the request buffer are read from its bytes at their
  offsets; pointers into the buffer are offsets from \<open>m_pReqBuf\<close>. Accesses outside an
  allocated area and signed overflow yield \<open>None\<close>.
\<close>

subsection \<open>State\<close>

record LSAPI_key_value_pair =
  pKey :: int
  pValue :: int
  keyLen :: int
  valLen :: int

text \<open>The bits of \<open>m_reqState\<close>; the state is the set of the bits that are set.\<close>

datatype req_state =
    LSAPI_ST_REQ_HEADER | LSAPI_ST_REQ_BODY | LSAPI_ST_RESP_HEADER | LSAPI_ST_RESP_BODY | LSAPI_ST_BACKGROUND

text \<open>
  Buffers are byte lists of their allocated size (so \<open>m_reqBufSize\<close> is the length of
  \<open>m_pReqBuf\<close>, \<open>m_pRespBufEnd\<close> that of \<open>m_pRespBuf\<close>, and so on); a NULL buffer is empty.
  Positions in the response buffers and in the \<open>iovec\<close> array are indices. The lists of
  environment entries have the allocated number of slots; a slot never written is \<open>None\<close>.
\<close>

record LSAPI_Request =
  m_fdListen :: int
  m_fd :: int
  m_pReqBuf :: "byte list"
  m_pRespBuf :: "byte list"
  m_pRespBufPos :: nat
  m_pRespHeaderBuf :: "byte list"
  m_pRespHeaderBufPos :: nat
  m_pIovec :: "iovec option list"
  m_pIovecCur :: nat
  m_pIovecToWrite :: nat
  m_pEnvList :: "LSAPI_key_value_pair option list"
  m_pSpecialEnvList :: "LSAPI_key_value_pair option list"
  m_pHeaderIndex :: "int option"
  m_pUnknownHeader :: "int option"
  m_pScriptFile :: "int option"
  m_pScriptName :: "int option"
  m_pQueryString :: "int option"
  m_pHttpHeader :: "int option"
  m_pRequestMethod :: "int option"
  m_totalLen :: int
  m_reqState :: "req_state set"
  m_reqBodyLen :: int
  m_reqBodyRead :: int
  m_bufProcessed :: int
  m_bufRead :: int
  m_respPktHeader :: "byte list list"
  m_respHeader_pkt :: "byte list"
  m_cntHeaders :: int
  m_status :: int
  m_respHeaderLen :: "int list"
  m_pAppData :: "nat option"

text \<open>\<open>memset (pReq, 0, sizeof (LSAPI_Request))\<close>.\<close>

definition zero_request :: LSAPI_Request where
  "zero_request =
    \<lparr>m_fdListen = 0, m_fd = 0, m_pReqBuf = [], m_pRespBuf = [], m_pRespBufPos = 0, m_pRespHeaderBuf = [],
     m_pRespHeaderBufPos = 0, m_pIovec = [], m_pIovecCur = 0, m_pIovecToWrite = 0, m_pEnvList = [],
     m_pSpecialEnvList = [], m_pHeaderIndex = None, m_pUnknownHeader = None, m_pScriptFile = None,
     m_pScriptName = None, m_pQueryString = None, m_pHttpHeader = None, m_pRequestMethod = None,
     m_totalLen = 0, m_reqState = {}, m_reqBodyLen = 0, m_reqBodyRead = 0, m_bufProcessed = 0, m_bufRead = 0,
     m_respPktHeader = replicate 5 (replicate 8 0), m_respHeader_pkt = replicate 8 0, m_cntHeaders = 0,
     m_status = 0, m_respHeaderLen = replicate 1000 0, m_pAppData = None\<rparr>"

subsection \<open>The structures of the request packet\<close>

abbreviation (input) sizeof_req_header :: int where "sizeof_req_header \<equiv> 44"
abbreviation (input) sizeof_header_index :: int where "sizeof_header_index \<equiv> 152"
abbreviation (input) sizeof_header_offset :: int where "sizeof_header_offset \<equiv> 16"

text \<open>
  The fields of \<open>lsapi_req_header\<close>, at their offsets in the buffer; \<open>m_reqBodyLen\<close> of the
  structure is \<open>hdr_reqBodyLen\<close> to tell it from that of the request.
\<close>

definition hdr_httpHeaderLen :: "byte list \<Rightarrow> int option" where "hdr_httpHeaderLen buf = load_int32 8 buf"
definition hdr_reqBodyLen :: "byte list \<Rightarrow> int option" where "hdr_reqBodyLen buf = load_int32 12 buf"
definition hdr_scriptFileOff :: "byte list \<Rightarrow> int option" where "hdr_scriptFileOff buf = load_int32 16 buf"
definition hdr_scriptNameOff :: "byte list \<Rightarrow> int option" where "hdr_scriptNameOff buf = load_int32 20 buf"
definition hdr_queryStringOff :: "byte list \<Rightarrow> int option" where "hdr_queryStringOff buf = load_int32 24 buf"
definition hdr_requestMethodOff :: "byte list \<Rightarrow> int option" where "hdr_requestMethodOff buf = load_int32 28 buf"
definition hdr_cntUnknownHeaders :: "byte list \<Rightarrow> int option" where "hdr_cntUnknownHeaders buf = load_int32 32 buf"
definition hdr_cntEnv :: "byte list \<Rightarrow> int option" where "hdr_cntEnv buf = load_int32 36 buf"
definition hdr_cntSpecialEnv :: "byte list \<Rightarrow> int option" where "hdr_cntSpecialEnv buf = load_int32 40 buf"

text \<open>\<open>lsapi_http_header_index\<close>: 25 lengths of 16 bits, two bytes of padding, 25 offsets.\<close>

definition m_headerLen :: "int \<Rightarrow> nat \<Rightarrow> byte list \<Rightarrow> int option" where
  "m_headerLen idx i buf = load_uint16 (idx + 2 * int i) buf"

definition m_headerOff :: "int \<Rightarrow> nat \<Rightarrow> byte list \<Rightarrow> int option" where
  "m_headerOff idx i buf = load_int32 (idx + 52 + 4 * int i) buf"

definition nameOff :: "int \<Rightarrow> byte list \<Rightarrow> int option" where "nameOff p buf = load_int32 p buf"
definition nameLen :: "int \<Rightarrow> byte list \<Rightarrow> int option" where "nameLen p buf = load_int32 (p + 4) buf"
definition valueOff :: "int \<Rightarrow> byte list \<Rightarrow> int option" where "valueOff p buf = load_int32 (p + 8) buf"
definition valueLen :: "int \<Rightarrow> byte list \<Rightarrow> int option" where "valueLen p buf = load_int32 (p + 12) buf"

subsection \<open>Allocation\<close>

definition realloc_bytes :: "lsapi_world \<Rightarrow> byte list \<Rightarrow> nat \<Rightarrow> byte list" where
  "realloc_bytes w old n = take n old @ map (junk w) [length old..<n]"

definition allocateBuf :: "LSAPI_Request \<Rightarrow> nat \<Rightarrow> lsapi_world \<Rightarrow> int \<times> LSAPI_Request" where
  "allocateBuf r sz w =
    (if alloc_ok w sz then (0, r\<lparr>m_pReqBuf := realloc_bytes w (m_pReqBuf r) sz\<rparr>) else (-1, r))"

definition allocateEnvList ::
  "LSAPI_key_value_pair option list \<Rightarrow> int \<Rightarrow> lsapi_world \<Rightarrow> int \<times> LSAPI_key_value_pair option list"
where
  "allocateEnvList envs newSize w =
    (if int (length envs) \<ge> newSize then (0, envs)
     else if newSize > 8192 then (-1, envs)
     else if alloc_ok w (nat newSize * 24)
     then (0, envs @ replicate (nat newSize - length envs) None)
     else (-1, envs))"

subsection \<open>The parser\<close>

text \<open>\<open>keyLen = *p++; keyLen = (keyLen << 8) + *p++\<close>: two bytes, the high one first.\<close>

definition be16 :: "byte \<Rightarrow> byte \<Rightarrow> int" where
  "be16 hi lo = int (256 * unat hi + unat lo)"

lemma be16_nonneg [simp]: "0 \<le> be16 hi lo"
  by (simp add: be16_def)

lemma be16_sum_pos: "- be16 a b - 4 < be16 c d"
  using be16_nonneg [of a b] be16_nonneg [of c d] by linarith

text \<open>
  \<open>parseEnv\<close>: the loop runs until the entry pointer meets \<open>pEnvEnd\<close>, here until the index
  \<open>i\<close> is \<open>count\<close>; every round consumes at least six bytes. It returns the C result, the
  list and \<open>*pBegin\<close>. The final \<open>memcmp\<close> looks at four bytes without comparing to \<open>pEnd\<close>.
\<close>

function parseEnv_loop ::
  "byte list \<Rightarrow> int \<Rightarrow> int \<Rightarrow> nat \<Rightarrow> LSAPI_key_value_pair option list \<Rightarrow> int
    \<Rightarrow> (int \<times> LSAPI_key_value_pair option list \<times> int) option"
where
  "parseEnv_loop buf count pEnd i envs pBegin =
    (if int i \<noteq> count
     then if pEnd - pBegin < 4 then Some (-1, envs, pBegin)
       else case load pBegin 4 buf of None \<Rightarrow> None
       | Some b \<Rightarrow>
         (let kl = be16 (b ! 0) (b ! 1);
              vl = be16 (b ! 2) (b ! 3);
              p = pBegin + 4
          in if p + kl + vl > pEnd then Some (-1, envs, p)
             else if kl = 0 \<or> vl = 0 then Some (-1, envs, p)
             else if i < length envs
             then parseEnv_loop buf count pEnd (i + 1)
                    (envs[i := Some \<lparr>pKey = p, pValue = p + kl, keyLen = kl - 1, valLen = vl - 1\<rparr>])
                    (p + kl + vl)
             else None)
     else case load pBegin 4 buf of None \<Rightarrow> None
       | Some b \<Rightarrow> if b \<noteq> [0, 0, 0, 0] then Some (-1, envs, pBegin) else Some (0, envs, pBegin + 4))"
  by pat_completeness auto
termination
  by (relation "measure (\<lambda>(buf, count, pEnd, i, envs, pBegin). nat (pEnd - pBegin))") (auto intro: be16_sum_pos)

declare parseEnv_loop.simps [simp del]

definition parseEnv ::
  "LSAPI_key_value_pair option list \<Rightarrow> int \<Rightarrow> int \<Rightarrow> int \<Rightarrow> byte list
    \<Rightarrow> (int \<times> LSAPI_key_value_pair option list \<times> int) option"
where
  "parseEnv envs count pBegin pEnd buf =
    (if count > 8192 then Some (-1, envs, pBegin) else parseEnv_loop buf count pEnd 0 envs pBegin)"

definition swap_at :: "int \<Rightarrow> byte list \<Rightarrow> byte list option" where
  "swap_at p buf = do { b \<leftarrow> load p 4 buf; store p (swapIntEndian b) buf }"

definition fixEndian :: "byte list \<Rightarrow> byte list option" where
  "fixEndian buf = for_each swap_at [8, 12, 16, 20, 24, 28, 32, 36, 40] buf"

text \<open>The loop over the known headers stops before \<open>H_TRANSFER_ENCODING\<close>.\<close>

definition fixHeaderIndex_step :: "int \<Rightarrow> nat \<Rightarrow> byte list \<Rightarrow> byte list option" where
  "fixHeaderIndex_step idx i buf = do {
    off \<leftarrow> m_headerOff idx i buf;
    (if off \<noteq> 0
     then do {
       b \<leftarrow> load (idx + 2 * int i) 2 buf;
       buf \<leftarrow> store (idx + 2 * int i) [b ! 1, b ! 0] buf;
       swap_at (idx + 52 + 4 * int i) buf }
     else Some buf) }"

definition swap_unknown :: "int \<Rightarrow> byte list \<Rightarrow> byte list option" where
  "swap_unknown p buf = do {
    buf \<leftarrow> swap_at p buf; buf \<leftarrow> swap_at (p + 4) buf; buf \<leftarrow> swap_at (p + 8) buf; swap_at (p + 12) buf }"

text \<open>The records of the unknown headers: none when the count is not positive.\<close>

definition unknown_ptrs :: "int \<Rightarrow> int \<Rightarrow> int list" where
  "unknown_ptrs base cnt = map (\<lambda>j. base + 16 * int j) [0..<nat cnt]"

definition fixHeaderIndexEndian :: "int \<Rightarrow> int \<Rightarrow> byte list \<Rightarrow> byte list option" where
  "fixHeaderIndexEndian idx unk buf = do {
    buf \<leftarrow> for_each (fixHeaderIndex_step idx) [0..<H_TRANSFER_ENCODING] buf;
    cnt \<leftarrow> hdr_cntUnknownHeaders buf;
    for_each swap_unknown (unknown_ptrs unk cnt) buf }"

text \<open>\<open>validateHeaders\<close>: the loops carry the result, -1 once a check has failed.\<close>

definition validate_known :: "byte list \<Rightarrow> int \<Rightarrow> int \<Rightarrow> nat \<Rightarrow> int \<Rightarrow> int option" where
  "validate_known buf idx totalLen i rc =
    (if rc = -1 then Some (-1)
     else do {
       off \<leftarrow> m_headerOff idx i buf;
       (if off \<noteq> 0
        then if off > totalLen then Some (-1)
          else do {
            len \<leftarrow> m_headerLen idx i buf;
            e \<leftarrow> c_add len off;
            Some (if e > totalLen then -1 else 0) }
        else Some 0) })"

definition validate_unknown :: "byte list \<Rightarrow> int \<Rightarrow> int \<Rightarrow> int \<Rightarrow> int option" where
  "validate_unknown buf totalLen p rc =
    (if rc = -1 then Some (-1)
     else do {
       no \<leftarrow> nameOff p buf;
       (if no > totalLen then Some (-1)
        else do {
          nl \<leftarrow> nameLen p buf;
          ne \<leftarrow> c_add no nl;
          (if ne > totalLen then Some (-1)
           else do {
             vo \<leftarrow> valueOff p buf;
             (if vo > totalLen then Some (-1)
              else do {
                vl \<leftarrow> valueLen p buf;
                ve \<leftarrow> c_add vo vl;
                Some (if ve > totalLen then -1 else 0) }) }) }) })"

definition validateHeaders :: "int \<Rightarrow> int \<Rightarrow> byte list \<Rightarrow> int option" where
  "validateHeaders idx unk buf = do {
    totalLen \<leftarrow> hdr_httpHeaderLen buf;
    rc \<leftarrow> for_each (validate_known buf idx totalLen) [0..<H_TRANSFER_ENCODING] 0;
    cnt \<leftarrow> hdr_cntUnknownHeaders buf;
    for_each (validate_unknown buf totalLen) (unknown_ptrs unk cnt) rc }"

subsection \<open>Header access\<close>

text \<open>
  \<open>LSAPI_GetHeader_r\<close> terminates the value in place and returns a pointer to it, \<open>None\<close>
  inside the result standing for NULL. \<open>idx\<close> ranges over C \<open>int\<close>s; as an unsigned number a
  negative one exceeds \<open>H_TRANSFER_ENCODING\<close>.
\<close>

definition terminate_at :: "int \<Rightarrow> byte list \<Rightarrow> byte list option" where
  "terminate_at p buf = do { b \<leftarrow> load p 1 buf; (if b ! 0 \<noteq> 0 then store p [0] buf else Some buf) }"

definition LSAPI_GetHeader_r :: "LSAPI_Request \<Rightarrow> int \<Rightarrow> (int option \<times> LSAPI_Request) option" where
  "LSAPI_GetHeader_r r headerIndex =
    (if headerIndex < 0 \<or> headerIndex > int H_TRANSFER_ENCODING then Some (None, r)
     else do {
       idx \<leftarrow> m_pHeaderIndex r;
       off \<leftarrow> m_headerOff idx (nat headerIndex) (m_pReqBuf r);
       (if off = 0 then Some (None, r)
        else do {
          base \<leftarrow> m_pHttpHeader r;
          len \<leftarrow> m_headerLen idx (nat headerIndex) (m_pReqBuf r);
          buf \<leftarrow> terminate_at (base + off + len) (m_pReqBuf r);
          Some (Some (base + off), r\<lparr>m_pReqBuf := buf\<rparr>) }) })"

text \<open>\<open>strtoll (s, NULL, 10)\<close>: blanks, a sign, digits; out of range values saturate.\<close>

definition is_space :: "byte \<Rightarrow> bool" where
  "is_space b \<longleftrightarrow> b = 0x20 \<or> (0x09 \<le> b \<and> b \<le> 0x0d)"

definition is_digit :: "byte \<Rightarrow> bool" where
  "is_digit b \<longleftrightarrow> 0x30 \<le> b \<and> b \<le> 0x39"

definition digits_value :: "byte list \<Rightarrow> int" where
  "digits_value ds = foldl (\<lambda>n d. 10 * n + (int (unat d) - 48)) 0 ds"

definition strtoll :: "byte list \<Rightarrow> int" where
  "strtoll s =
    (let s = dropWhile is_space s;
         neg = (s \<noteq> [] \<and> hd s = 0x2d);
         s = (if s \<noteq> [] \<and> (hd s = 0x2d \<or> hd s = 0x2b) then tl s else s);
         n = digits_value (takeWhile is_digit s);
         n = (if neg then - n else n)
     in max (- (2 ^ 63)) (min (2 ^ 63 - 1) n))"

definition parseContentLenFromHeader :: "LSAPI_Request \<Rightarrow> (int \<times> LSAPI_Request) option" where
  "parseContentLenFromHeader r = do {
    (p, r) \<leftarrow> LSAPI_GetHeader_r r (int H_CONTENT_LENGTH);
    (case p of None \<Rightarrow> Some (0, r)
     | Some p \<Rightarrow> do { s \<leftarrow> c_string_at p (m_pReqBuf r); Some (0, r\<lparr>m_reqBodyLen := strtoll s\<rparr>) }) }"

text \<open>
  \<open>parseRequest\<close> in its four stages: the environment lists, the offsets of the strings, the
  layout of the header index, the checks and the body length.
\<close>

definition parseRequest_env ::
  "LSAPI_Request \<Rightarrow> int \<Rightarrow> lsapi_world \<Rightarrow> (int \<times> LSAPI_Request \<times> int) option"
where
  "parseRequest_env r totalLen w = do {
    let buf = m_pReqBuf r;
    let pBegin = sizeof_req_header;
    let pEnd = totalLen;
    cntSpecialEnv \<leftarrow> hdr_cntSpecialEnv buf;
    let (rc, senv) =
      (if int (length (m_pSpecialEnvList r)) < cntSpecialEnv
       then allocateEnvList (m_pSpecialEnvList r) cntSpecialEnv w else (0, m_pSpecialEnvList r));
    let r = r\<lparr>m_pSpecialEnvList := senv\<rparr>;
    (if rc = -1 then Some (-1, r, pBegin)
     else do {
       cntEnv \<leftarrow> hdr_cntEnv buf;
       let (rc, env) =
         (if int (length (m_pEnvList r)) < cntEnv
          then allocateEnvList (m_pEnvList r) cntEnv w else (0, m_pEnvList r));
       let r = r\<lparr>m_pEnvList := env\<rparr>;
       (if rc = -1 then Some (-1, r, pBegin)
        else do {
          (rc, senv, pBegin) \<leftarrow> parseEnv (m_pSpecialEnvList r) cntSpecialEnv pBegin pEnd buf;
          let r = r\<lparr>m_pSpecialEnvList := senv\<rparr>;
          (if rc = -1 then Some (-1, r, pBegin)
           else do {
             (rc, env, pBegin) \<leftarrow> parseEnv (m_pEnvList r) cntEnv pBegin pEnd buf;
             Some (rc, r\<lparr>m_pEnvList := env\<rparr>, pBegin) }) }) }) }"

definition parseRequest_offsets :: "LSAPI_Request \<Rightarrow> int \<Rightarrow> (int \<times> LSAPI_Request) option" where
  "parseRequest_offsets r totalLen = do {
    scriptFileOff \<leftarrow> hdr_scriptFileOff (m_pReqBuf r);
    scriptNameOff \<leftarrow> hdr_scriptNameOff (m_pReqBuf r);
    queryStringOff \<leftarrow> hdr_queryStringOff (m_pReqBuf r);
    requestMethodOff \<leftarrow> hdr_requestMethodOff (m_pReqBuf r);
    (if scriptFileOff < 0 \<or> scriptFileOff \<ge> totalLen \<or> scriptNameOff < 0 \<or> scriptNameOff \<ge> totalLen \<or>
        queryStringOff < 0 \<or> queryStringOff \<ge> totalLen \<or> requestMethodOff < 0 \<or> requestMethodOff \<ge> totalLen
     then Some (-1, r)
     else Some (0, r\<lparr>m_pScriptFile := Some scriptFileOff, m_pScriptName := Some scriptNameOff,
                    m_pQueryString := Some queryStringOff, m_pRequestMethod := Some requestMethodOff\<rparr>)) }"

definition parseRequest_layout :: "LSAPI_Request \<Rightarrow> int \<Rightarrow> int \<Rightarrow> (int \<times> int \<times> int \<times> LSAPI_Request) option" where
  "parseRequest_layout r totalLen pBegin = do {
    cntUnknownHeaders \<leftarrow> hdr_cntUnknownHeaders (m_pReqBuf r);
    httpHeaderLen \<leftarrow> hdr_httpHeaderLen (m_pReqBuf r);
    let idx = (pBegin + 7) div 8 * 8;
    let unk = idx + sizeof_header_index;
    let http = unk + sizeof_header_offset * cntUnknownHeaders;
    let r = r\<lparr>m_pHeaderIndex := Some idx, m_pUnknownHeader := Some unk, m_pHttpHeader := Some http\<rparr>;
    Some (if http + httpHeaderLen \<noteq> totalLen then -1 else 0, idx, unk, r) }"

definition parseRequest :: "LSAPI_Request \<Rightarrow> int \<Rightarrow> lsapi_world \<Rightarrow> (int \<times> LSAPI_Request) option" where
  "parseRequest r totalLen w = do {
    flag \<leftarrow> load 3 1 (m_pReqBuf r);
    let shouldFixEndian = (LSAPI_ENDIAN \<noteq> flag ! 0 AND LSAPI_ENDIAN_BIT);
    buf \<leftarrow> (if shouldFixEndian then fixEndian (m_pReqBuf r) else Some (m_pReqBuf r));
    (rc, r, pBegin) \<leftarrow> parseRequest_env (r\<lparr>m_pReqBuf := buf\<rparr>) totalLen w;
    (if rc = -1 then Some (-1, r)
     else do {
       (rc, r) \<leftarrow> parseRequest_offsets r totalLen;
       (if rc = -1 then Some (-1, r)
        else do {
          (rc, idx, unk, r) \<leftarrow> parseRequest_layout r totalLen pBegin;
          (if rc = -1 then Some (-1, r)
           else do {
             buf \<leftarrow> (if shouldFixEndian then fixHeaderIndexEndian idx unk (m_pReqBuf r) else Some (m_pReqBuf r));
             let r = r\<lparr>m_pReqBuf := buf\<rparr>;
             rc \<leftarrow> validateHeaders idx unk buf;
             (if rc = -1 then Some (-1, r)
              else do {
                bodyLen \<leftarrow> hdr_reqBodyLen buf;
                let r = r\<lparr>m_reqBodyLen := bodyLen\<rparr>;
                (if bodyLen = -2 then map_option (\<lambda>(_, r). (0, r)) (parseContentLenFromHeader r)
                 else Some (0, r)) }) }) }) }) }"

subsection \<open>Environment and header variables\<close>

text \<open>The tables of header names, as bytes.\<close>

definition ascii :: "string \<Rightarrow> byte list" where
  "ascii s = map of_char s"

definition CGI_HEADERS :: "string list" where
  "CGI_HEADERS =
    [''HTTP_ACCEPT'', ''HTTP_ACCEPT_CHARSET'', ''HTTP_ACCEPT_ENCODING'', ''HTTP_ACCEPT_LANGUAGE'',
     ''HTTP_AUTHORIZATION'', ''HTTP_CONNECTION'', ''CONTENT_TYPE'', ''CONTENT_LENGTH'', ''HTTP_COOKIE'',
     ''HTTP_COOKIE2'', ''HTTP_HOST'', ''HTTP_PRAGMA'', ''HTTP_REFERER'', ''HTTP_USER_AGENT'',
     ''HTTP_CACHE_CONTROL'', ''HTTP_IF_MODIFIED_SINCE'', ''HTTP_IF_MATCH'', ''HTTP_IF_NONE_MATCH'',
     ''HTTP_IF_RANGE'', ''HTTP_IF_UNMODIFIED_SINCE'', ''HTTP_KEEP_ALIVE'', ''HTTP_RANGE'',
     ''HTTP_X_FORWARDED_FOR'', ''HTTP_VIA'', ''HTTP_TRANSFER_ENCODING'']"

definition CGI_HEADER_LEN :: "nat list" where
  "CGI_HEADER_LEN =
    [11, 19, 20, 20, 18, 15, 12, 14, 11, 12, 9, 11, 12, 15, 18, 22, 13, 18, 13, 24, 15, 10, 20, 8, 22]"

definition HTTP_HEADERS :: "string list" where
  "HTTP_HEADERS =
    [''Accept'', ''Accept-Charset'', ''Accept-Encoding'', ''Accept-Language'', ''Authorization'',
     ''Connection'', ''Content-Type'', ''Content-Length'', ''Cookie'', ''Cookie2'', ''Host'', ''Pragma'',
     ''Referer'', ''User-Agent'', ''Cache-Control'', ''If-Modified-Since'', ''If-Match'', ''If-None-Match'',
     ''If-Range'', ''If-Unmodified-Since'', ''Keep-Alive'', ''Range'', ''X-Forwarded-For'', ''Via'',
     ''Transfer-Encoding'']"

definition HTTP_HEADER_LEN :: "nat list" where
  "HTTP_HEADER_LEN =
    [6, 14, 15, 15, 13, 10, 12, 14, 6, 7, 4, 6, 7, 10, 13, 17, 8, 13, 8, 19, 10, 5, 15, 3, 17]"

text \<open>
  \<open>GetHeaderVar\<close> searches the known headers that are present, then the unknown ones. The
  inner loop compares the upper-cased header name with the variable name after \<open>HTTP_\<close>; it
  stops at the first byte where \<open>ch != *p || (*p == '_' && ch != '-')\<close>.
\<close>

fun var_name_matches :: "byte list \<Rightarrow> int \<Rightarrow> nat \<Rightarrow> byte list \<Rightarrow> bool option" where
  "var_name_matches buf p 0 name = Some (name = [])"
| "var_name_matches buf p (Suc n) [] = Some False"
| "var_name_matches buf p (Suc n) (c # name) = do {
    k \<leftarrow> load p 1 buf;
    let ch = toupper (k ! 0);
    (if ch \<noteq> c \<or> (c = 0x5f \<and> ch \<noteq> 0x2d) then Some False else var_name_matches buf (p + 1) n name) }"

fun GetHeaderVar_known :: "LSAPI_Request \<Rightarrow> byte list \<Rightarrow> nat list \<Rightarrow> (int option \<times> LSAPI_Request) option" where
  "GetHeaderVar_known r name [] = Some (None, r)"
| "GetHeaderVar_known r name (i # is) = do {
    idx \<leftarrow> m_pHeaderIndex r;
    off \<leftarrow> m_headerOff idx i (m_pReqBuf r);
    (if off \<noteq> 0 \<and> name = ascii (CGI_HEADERS ! i)
     then do {
       base \<leftarrow> m_pHttpHeader r;
       len \<leftarrow> m_headerLen idx i (m_pReqBuf r);
       buf \<leftarrow> terminate_at (base + off + len) (m_pReqBuf r);
       Some (Some (base + off), r\<lparr>m_pReqBuf := buf\<rparr>) }
     else GetHeaderVar_known r name is) }"

fun GetHeaderVar_unknown :: "LSAPI_Request \<Rightarrow> byte list \<Rightarrow> int list \<Rightarrow> (int option \<times> LSAPI_Request) option" where
  "GetHeaderVar_unknown r name [] = Some (None, r)"
| "GetHeaderVar_unknown r name (p # ps) = do {
    base \<leftarrow> m_pHttpHeader r;
    no \<leftarrow> nameOff p (m_pReqBuf r);
    nl \<leftarrow> nameLen p (m_pReqBuf r);
    found \<leftarrow> (if nl < 0 then Some False else var_name_matches (m_pReqBuf r) (base + no) (nat nl) (drop 5 name));
    (if found
     then do {
       vo \<leftarrow> valueOff p (m_pReqBuf r);
       vl \<leftarrow> valueLen p (m_pReqBuf r);
       buf \<leftarrow> terminate_at (base + vo + vl) (m_pReqBuf r);
       Some (Some (base + vo), r\<lparr>m_pReqBuf := buf\<rparr>) }
     else GetHeaderVar_unknown r name ps) }"

definition GetHeaderVar :: "LSAPI_Request \<Rightarrow> byte list \<Rightarrow> (int option \<times> LSAPI_Request) option" where
  "GetHeaderVar r name = do {
    (p, r') \<leftarrow> GetHeaderVar_known r name [0..<H_TRANSFER_ENCODING];
    (case p of Some _ \<Rightarrow> Some (p, r')
     | None \<Rightarrow> do {
         cnt \<leftarrow> hdr_cntUnknownHeaders (m_pReqBuf r);
         unk \<leftarrow> m_pUnknownHeader r;
         GetHeaderVar_unknown r name (unknown_ptrs unk cnt) }) }"

fun GetEnv_loop :: "LSAPI_key_value_pair option list \<Rightarrow> nat \<Rightarrow> byte list \<Rightarrow> byte list \<Rightarrow> int option option" where
  "GetEnv_loop envs 0 name buf = Some None"
| "GetEnv_loop [] (Suc n) name buf = None"
| "GetEnv_loop (e # envs) (Suc n) name buf = do {
    kv \<leftarrow> e;
    k \<leftarrow> c_string_at (pKey kv) buf;
    (if name = k then Some (Some (pValue kv)) else GetEnv_loop envs n name buf) }"

definition LSAPI_GetEnv_r :: "LSAPI_Request \<Rightarrow> byte list \<Rightarrow> (int option \<times> LSAPI_Request) option" where
  "LSAPI_GetEnv_r r name = do {
    cntEnv \<leftarrow> hdr_cntEnv (m_pReqBuf r);
    (if take 5 name = ascii ''HTTP_'' then GetHeaderVar r name
     else map_option (\<lambda>p. (p, r)) (GetEnv_loop (m_pEnvList r) (nat cntEnv) name (m_pReqBuf r))) }"

text \<open>
  The iterators hand each pair to a callback that returns a C \<open>int\<close> (0 or less stops the
  iteration) and has a state of its own, its \<open>arg\<close>. The callback sees the bytes its
  pointer and length arguments delimit. The result of an iterator is its C return value,
  the callback's state and the request, whose buffer the iterator changes by terminating
  the strings.
\<close>

type_synonym 'a env_handler = "byte list \<Rightarrow> byte list \<Rightarrow> 'a \<Rightarrow> int \<times> 'a"

definition load_len :: "int \<Rightarrow> int \<Rightarrow> byte list \<Rightarrow> byte list option" where
  "load_len p n buf = (if n < 0 then None else load p (nat n) buf)"

fun EnvForeach ::
  "LSAPI_key_value_pair option list \<Rightarrow> nat \<Rightarrow> int \<Rightarrow> byte list \<Rightarrow> 'a env_handler \<Rightarrow> 'a \<Rightarrow> (int \<times> 'a) option"
where
  "EnvForeach envs 0 n buf fn arg = Some (n, arg)"
| "EnvForeach [] (Suc k) n buf fn arg = None"
| "EnvForeach (e # envs) (Suc k) n buf fn arg = do {
    kv \<leftarrow> e;
    key \<leftarrow> load_len (pKey kv) (keyLen kv) buf;
    val \<leftarrow> load_len (pValue kv) (valLen kv) buf;
    let (ret, arg) = fn key val arg;
    (if ret \<le> 0 then Some (ret, arg) else EnvForeach envs k n buf fn arg) }"

definition LSAPI_ForeachEnv_r :: "LSAPI_Request \<Rightarrow> 'a env_handler \<Rightarrow> 'a \<Rightarrow> (int \<times> 'a) option" where
  "LSAPI_ForeachEnv_r r fn arg = do {
    n \<leftarrow> hdr_cntEnv (m_pReqBuf r);
    (if n > 0 then EnvForeach (m_pEnvList r) (nat n) n (m_pReqBuf r) fn arg else Some (0, arg)) }"

definition LSAPI_ForeachSpecialEnv_r :: "LSAPI_Request \<Rightarrow> 'a env_handler \<Rightarrow> 'a \<Rightarrow> (int \<times> 'a) option" where
  "LSAPI_ForeachSpecialEnv_r r fn arg = do {
    n \<leftarrow> hdr_cntSpecialEnv (m_pReqBuf r);
    (if n > 0 then EnvForeach (m_pSpecialEnvList r) (nat n) n (m_pReqBuf r) fn arg else Some (0, arg)) }"

text \<open>\<open>LSAPI_ForeachOrgHeader_r\<close> first collects up to 512 header records, then sorts them by
  the location of the value; \<open>qsort\<close> leaves open the order of records with the same location,
  which is that of collection here.\<close>

record headerInfo =
  hi_name :: "int + string"
  hi_nameLen :: int
  hi_value :: int
  hi_valueLen :: int

fun collect_known ::
  "int \<Rightarrow> int \<Rightarrow> nat list \<Rightarrow> byte list \<times> headerInfo list \<Rightarrow> (byte list \<times> headerInfo list) option"
where
  "collect_known idx base [] (buf, hs) = Some (buf, hs)"
| "collect_known idx base (i # is) (buf, hs) = do {
    off \<leftarrow> m_headerOff idx i buf;
    (if off \<noteq> 0
     then do {
       len \<leftarrow> m_headerLen idx i buf;
       let pValue = base + off;
       buf \<leftarrow> store (pValue + len) [0] buf;
       collect_known idx base is (buf, hs @
         [\<lparr>hi_name = Inr (HTTP_HEADERS ! i), hi_nameLen = int (HTTP_HEADER_LEN ! i),
           hi_value = pValue, hi_valueLen = len\<rparr>]) }
     else collect_known idx base is (buf, hs)) }"

fun collect_unknown ::
  "int \<Rightarrow> int list \<Rightarrow> byte list \<times> headerInfo list \<Rightarrow> (byte list \<times> headerInfo list) option"
where
  "collect_unknown base [] (buf, hs) = Some (buf, hs)"
| "collect_unknown base (p # ps) (buf, hs) = do {
    no \<leftarrow> nameOff p buf;
    nl \<leftarrow> nameLen p buf;
    buf \<leftarrow> store (base + no + nl) [0] buf;
    vo \<leftarrow> valueOff p buf;
    vl \<leftarrow> valueLen p buf;
    buf \<leftarrow> store (base + vo + vl) [0] buf;
    let hs = hs @ [\<lparr>hi_name = Inl (base + no), hi_nameLen = nl, hi_value = base + vo, hi_valueLen = vl\<rparr>];
    (if length hs = 512 then Some (buf, hs) else collect_unknown base ps (buf, hs)) }"

fun call_headers :: "byte list \<Rightarrow> headerInfo list \<Rightarrow> int \<Rightarrow> 'a env_handler \<Rightarrow> 'a \<Rightarrow> (int \<times> 'a) option" where
  "call_headers buf [] count fn arg = Some (count, arg)"
| "call_headers buf (h # hs) count fn arg = do {
    name \<leftarrow> (case hi_name h of Inr s \<Rightarrow> Some (take (nat (hi_nameLen h)) (ascii s))
             | Inl p \<Rightarrow> load_len p (hi_nameLen h) buf);
    val \<leftarrow> load_len (hi_value h) (hi_valueLen h) buf;
    let (ret, arg) = fn name val arg;
    (if ret \<le> 0 then Some (ret, arg) else call_headers buf hs count fn arg) }"

definition LSAPI_ForeachOrgHeader_r ::
  "LSAPI_Request \<Rightarrow> 'a env_handler \<Rightarrow> 'a \<Rightarrow> (int \<times> 'a \<times> LSAPI_Request) option"
where
  "LSAPI_ForeachOrgHeader_r r fn arg =
    (case m_pHeaderIndex r of None \<Rightarrow> Some (0, arg, r)
     | Some idx \<Rightarrow> do {
         base \<leftarrow> m_pHttpHeader r;
         (buf, hs) \<leftarrow> collect_known idx base [0..<H_TRANSFER_ENCODING] (m_pReqBuf r, []);
         cnt \<leftarrow> hdr_cntUnknownHeaders buf;
         unk \<leftarrow> m_pUnknownHeader r;
         (buf, hs) \<leftarrow> collect_unknown base (unknown_ptrs unk cnt) (buf, hs);
         (ret, arg) \<leftarrow> call_headers buf (sort_key hi_value hs) (int (length hs)) fn arg;
         Some (ret, arg, r\<lparr>m_pReqBuf := buf\<rparr>) })"

text \<open>\<open>LSAPI_ForeachHeader_r\<close> passes CGI names; those of unknown headers are built on the
  stack from at most 250 bytes of the header name.\<close>

definition cgi_name :: "byte list \<Rightarrow> byte list" where
  "cgi_name key = ascii ''HTTP_'' @ map (\<lambda>ch. if ch = 0x2d then 0x5f else toupper ch) key"

fun foreach_known ::
  "int \<Rightarrow> int \<Rightarrow> nat list \<Rightarrow> int \<Rightarrow> 'a env_handler \<Rightarrow> 'a \<Rightarrow> byte list \<Rightarrow> ((int + int) \<times> 'a \<times> byte list) option"
where
  "foreach_known idx base [] count fn arg buf = Some (Inr count, arg, buf)"
| "foreach_known idx base (i # is) count fn arg buf = do {
    off \<leftarrow> m_headerOff idx i buf;
    (if off \<noteq> 0
     then do {
       len \<leftarrow> m_headerLen idx i buf;
       buf \<leftarrow> store (base + off + len) [0] buf;
       val \<leftarrow> load_len (base + off) len buf;
       let (ret, arg) = fn (take (CGI_HEADER_LEN ! i) (ascii (CGI_HEADERS ! i))) val arg;
       (if ret \<le> 0 then Some (Inl ret, arg, buf) else foreach_known idx base is (count + 1) fn arg buf) }
     else foreach_known idx base is count fn arg buf) }"

fun foreach_unknown ::
  "int \<Rightarrow> int list \<Rightarrow> 'a env_handler \<Rightarrow> 'a \<Rightarrow> byte list \<Rightarrow> (int option \<times> 'a \<times> byte list) option"
where
  "foreach_unknown base [] fn arg buf = Some (None, arg, buf)"
| "foreach_unknown base (p # ps) fn arg buf = do {
    no \<leftarrow> nameOff p buf;
    nl \<leftarrow> nameLen p buf;
    let keyLen = (if nl > 250 then 250 else nl);
    key \<leftarrow> load_len (base + no) keyLen buf;
    vo \<leftarrow> valueOff p buf;
    vl \<leftarrow> valueLen p buf;
    buf \<leftarrow> store (base + vo + vl) [0] buf;
    val \<leftarrow> load_len (base + vo) vl buf;
    let (ret, arg) = fn (cgi_name key) val arg;
    (if ret \<le> 0 then Some (Some ret, arg, buf) else foreach_unknown base ps fn arg buf) }"

definition LSAPI_ForeachHeader_r ::
  "LSAPI_Request \<Rightarrow> 'a env_handler \<Rightarrow> 'a \<Rightarrow> (int \<times> 'a \<times> LSAPI_Request) option"
where
  "LSAPI_ForeachHeader_r r fn arg = do {
    idx \<leftarrow> m_pHeaderIndex r;
    base \<leftarrow> m_pHttpHeader r;
    (res, arg, buf) \<leftarrow> foreach_known idx base [0..<H_TRANSFER_ENCODING] 0 fn arg (m_pReqBuf r);
    (case res of Inl ret \<Rightarrow> Some (ret, arg, r\<lparr>m_pReqBuf := buf\<rparr>)
     | Inr count \<Rightarrow> do {
         cnt \<leftarrow> hdr_cntUnknownHeaders buf;
         unk \<leftarrow> m_pUnknownHeader r;
         (res, arg, buf) \<leftarrow> foreach_unknown base (unknown_ptrs unk cnt) fn arg buf;
         Some (case res of Some ret \<Rightarrow> ret | None \<Rightarrow> count + cnt, arg, r\<lparr>m_pReqBuf := buf\<rparr>) }) }"

subsection \<open>The request body\<close>

text \<open>
  \<open>readBodyToReqBuf\<close> refills the part of the buffer behind the request packet. A negative
  length passed to \<open>read\<close> is a huge \<open>size_t\<close>: the read may then overrun the buffer.
\<close>

definition readBodyToReqBuf ::
  "LSAPI_Request \<Rightarrow> lsapi_world \<Rightarrow> (int \<times> LSAPI_Request \<times> lsapi_world) option"
where
  "readBodyToReqBuf r w =
    (let len = m_bufRead r - m_bufProcessed r in
     if len > 0 then Some (len, r, w)
     else do {
       packetLen \<leftarrow> load_int32 4 (m_pReqBuf r);
       let r = r\<lparr>m_bufRead := packetLen, m_bufProcessed := packetLen\<rparr>;
       let bodyLeft = m_reqBodyLen r - m_reqBodyRead r;
       let len = int (length (m_pReqBuf r)) - m_bufRead r;
       (if len < 0 then Some (-1, r, w)
        else let len = min len bodyLeft in
          if len < 0 then None
          else case lsapi_read (nat len) w of
            (Inl _, w') \<Rightarrow> Some (-1, r, w')
          | (Inr bs, w') \<Rightarrow> do {
              buf \<leftarrow> store (m_bufRead r) bs (m_pReqBuf r);
              Some (int (length bs), r\<lparr>m_pReqBuf := buf, m_bufRead := m_bufRead r + int (length bs)\<rparr>, w') }) })"

text \<open>\<open>EOF\<close> is -1.\<close>

definition LSAPI_ReqBodyGetChar_r ::
  "LSAPI_Request \<Rightarrow> lsapi_world \<Rightarrow> (int \<times> LSAPI_Request \<times> lsapi_world) option"
where
  "LSAPI_ReqBodyGetChar_r r w =
    (if m_fd r = -1 then Some (-1, r, w)
     else do {
       (n, r, w) \<leftarrow> (if m_bufProcessed r \<ge> m_bufRead r then readBodyToReqBuf r w else Some (1, r, w));
       (if n \<le> 0 then Some (-1, r, w)
        else do {
          b \<leftarrow> load (m_bufProcessed r) 1 (m_pReqBuf r);
          Some (int (unat (b ! 0)),
                r\<lparr>m_reqBodyRead := m_reqBodyRead r + 1, m_bufProcessed := m_bufProcessed r + 1\<rparr>, w) }) })"

text \<open>
  \<open>LSAPI_ReqBodyGetLine_r\<close> with a buffer of \<open>bufLen\<close> bytes returns the line it stored
  (without the terminating NUL) and \<open>getLF\<close>. \<open>memchr\<close> finds the first line feed of the
  chunk. The room left shrinks in every round.
\<close>

function GetLine_loop ::
  "nat \<Rightarrow> LSAPI_Request \<Rightarrow> lsapi_world \<Rightarrow> (byte list \<times> bool \<times> LSAPI_Request \<times> lsapi_world) option"
where
  "GetLine_loop left r w =
    (if left = 0 then Some ([], False, r, w)
     else let len = m_bufRead r - m_bufProcessed r in
       case (if len \<le> 0 then readBodyToReqBuf r w else Some (len, r, w)) of
         None \<Rightarrow> None
       | Some (len, r, w) \<Rightarrow>
           if len \<le> 0 then Some ([], True, r, w)
           else case load (m_bufProcessed r) (min (nat len) left) (m_pReqBuf r) of
             None \<Rightarrow> None
           | Some cur \<Rightarrow>
               (let lf = (0x0a \<in> set cur);
                    part = (if lf then takeWhile (\<lambda>b. b \<noteq> 0x0a) cur @ [0x0a] else cur);
                    r = r\<lparr>m_bufProcessed := m_bufProcessed r + int (length part),
                          m_reqBodyRead := m_reqBodyRead r + int (length part)\<rparr>
                in if lf then Some (part, True, r, w)
                   else map_option (\<lambda>(bs, f, r, w). (part @ bs, f, r, w)) (GetLine_loop (left - length part) r w)))"
  by pat_completeness auto
termination
  by (relation "measure (\<lambda>(left, r, w). left)") (auto dest: load_SomeD split: if_splits)

declare GetLine_loop.simps [simp del]

definition LSAPI_ReqBodyGetLine_r ::
  "LSAPI_Request \<Rightarrow> nat \<Rightarrow> lsapi_world \<Rightarrow> (int \<times> byte list \<times> bool \<times> LSAPI_Request \<times> lsapi_world) option"
where
  "LSAPI_ReqBodyGetLine_r r bufLen w =
    (if m_fd r = -1 then Some (-1, [], False, r, w)
     else if bufLen = 0 then None
     else map_option (\<lambda>(bs, f, r, w). (int (length bs), bs, f, r, w)) (GetLine_loop (bufLen - 1) r w))"

text \<open>\<open>LSAPI_ReadReqBody_r\<close>: first what is buffered, then directly from the connection.\<close>

definition LSAPI_ReadReqBody_r ::
  "LSAPI_Request \<Rightarrow> nat \<Rightarrow> lsapi_world \<Rightarrow> (int \<times> byte list \<times> LSAPI_Request \<times> lsapi_world) option"
where
  "LSAPI_ReadReqBody_r r bufLen w =
    (if m_fd r = -1 \<or> bufLen \<ge> 2 ^ 63 then Some (-1, [], r, w)
     else let total = m_reqBodyLen r - m_reqBodyRead r in
       if total \<le> 0 then Some (0, [], r, w)
       else do {
         let bufLen = min bufLen (nat total);
         let len = min (nat (m_bufRead r - m_bufProcessed r)) bufLen;
         buffered \<leftarrow> (if len > 0 then load (m_bufProcessed r) len (m_pReqBuf r) else Some []);
         let r = r\<lparr>m_bufProcessed := m_bufProcessed r + int len\<rparr>;
         let (direct, complete, w) = read_fully lsapi_read (bufLen - len) w;
         let data = buffered @ direct;
         (if \<not> complete \<and> data = [] then Some (-1, [], r, w)
          else Some (int (length data), data, r\<lparr>m_reqBodyRead := m_reqBodyRead r + int (length data)\<rparr>, w)) })"

end
