(* ===== verification/Lsapi_Request_Parse.thy ===== *)
theory Lsapi_Request_Parse
  imports Lsapi_Request
begin

text \<open>
  Correctness of the request parser. The specification is the encoder of a well-formed
  request packet, in the layout that the comment in lsapidef.h describes; the lemmas show
  that \<open>parseRequest\<close> recovers from the packet what was encoded, and that it stays inside its
  buffers on arbitrary bytes as long as the counts of the packet are not negative.
\<close>

subsection \<open>Loads from a concatenation\<close>

lemma load_append:
  "p = int (length pre) \<Longrightarrow> n = length mid \<Longrightarrow> load p n (pre @ mid @ post) = Some mid"
  by (simp add: load_def mem_read_def)

lemma load_int32_append:
  "p = int (length pre) \<Longrightarrow> int32_range v \<Longrightarrow> load_int32 p (pre @ int32_bytes v @ post) = Some v"
  by (simp add: load_int32_def load_append int32_of_bytes)

lemma length_concat_int32 [simp]: "length (concat (map int32_bytes vs)) = 4 * length vs"
  by (induction vs) auto

lemma length_concat_uint16 [simp]: "length (concat (map uint16_bytes vs)) = 2 * length vs"
  by (induction vs) auto

lemma concat_map_split:
  "i < length vs \<Longrightarrow>
    concat (map f vs) = concat (map f (take i vs)) @ f (vs ! i) @ concat (map f (drop (Suc i) vs))"
  by (subst id_take_nth_drop [of i vs]) simp_all

lemma load_int32_table:
  assumes "i < length vs" "list_all int32_range vs" "p = int (length pre) + 4 * int i"
  shows "load_int32 p (pre @ concat (map int32_bytes vs) @ post) = Some (vs ! i)"
proof -
  note concat_map_split [OF assms(1), of int32_bytes]
  moreover have "int32_range (vs ! i)"
    using assms by (simp add: list_all_length)
  ultimately show ?thesis
    using assms load_int32_append [of p "pre @ concat (map int32_bytes (take i vs))" "vs ! i"] by simp
qed

lemma load_uint16_table:
  assumes "i < length vs" "list_all (\<lambda>v. v < 65536) vs" "p = int (length pre) + 2 * int i"
  shows "load_uint16 p (pre @ concat (map uint16_bytes vs) @ post) = Some (int (vs ! i))"
proof -
  let ?pre = "pre @ concat (map uint16_bytes (take i vs))"
  let ?post = "concat (map uint16_bytes (drop (Suc i) vs)) @ post"
  have "load p 2 (?pre @ uint16_bytes (vs ! i) @ ?post) = Some (uint16_bytes (vs ! i))"
    using assms(1,3) by (intro load_append) simp_all
  moreover have "pre @ concat (map uint16_bytes vs) @ post = ?pre @ uint16_bytes (vs ! i) @ ?post"
    by (subst concat_map_split [OF assms(1)]) simp
  moreover have "uint16_of (uint16_bytes (vs ! i)) = vs ! i"
    using assms(1,2) by (simp add: uint16_of_bytes list_all_length)
  ultimately show ?thesis by (simp only: load_uint16_def option.map)
qed

lemma for_each_const: "(\<And>i. i \<in> set is \<Longrightarrow> body i s = Some s) \<Longrightarrow> for_each body is s = Some s"
  by (induction "is") auto

lemma drop_length_append: "drop (length xs) (xs @ ys) = ys"
  by simp

subsection \<open>The environment blocks\<close>

text \<open>
  An entry is the two lengths, high byte first and each counting a NUL, then the key and the
  value with their NULs. A block is its entries and four zero bytes.
\<close>

definition be16_bytes :: "nat \<Rightarrow> byte list" where
  "be16_bytes n = [of_nat (n div 256), of_nat n]"

definition env_entry :: "byte list \<times> byte list \<Rightarrow> byte list" where
  "env_entry = (\<lambda>(k, v). be16_bytes (length k + 1) @ be16_bytes (length v + 1) @ k @ [0] @ v @ [0])"

definition env_block :: "(byte list \<times> byte list) list \<Rightarrow> byte list" where
  "env_block kvs = concat (map env_entry kvs) @ [0, 0, 0, 0]"

definition env_ok :: "byte list \<times> byte list \<Rightarrow> bool" where
  "env_ok = (\<lambda>(k, v). length k < 65535 \<and> length v < 65535)"

fun env_slots :: "int \<Rightarrow> (byte list \<times> byte list) list \<Rightarrow> LSAPI_key_value_pair option list" where
  "env_slots p [] = []"
| "env_slots p ((k, v) # kvs) =
    Some \<lparr>pKey = p + 4, pValue = p + 4 + int (length k) + 1, keyLen = int (length k), valLen = int (length v)\<rparr>
    # env_slots (p + int (length (env_entry (k, v)))) kvs"

lemma length_env_slots [simp]: "length (env_slots p kvs) = length kvs"
  by (induction p kvs rule: env_slots.induct) auto

lemma length_be16_bytes [simp]: "length (be16_bytes n) = 2"
  by (simp add: be16_bytes_def)

lemma length_env_entry [simp]: "length (env_entry (k, v)) = 6 + length k + length v"
  by (simp add: env_entry_def)

lemma be16_be16_bytes: "n < 65536 \<Longrightarrow> be16 (of_nat (n div 256)) (of_nat n) = int n"
  by (simp add: be16_def del: of_nat_add of_nat_mult)

lemma parseEnv_loop_entry:
  assumes "drop (nat p) buf = env_entry (k, v) @ rest" "env_ok (k, v)" "0 \<le> p"
    and "int i \<noteq> count" "p + int (length (env_entry (k, v))) \<le> pEnd" "i < length envs"
  shows "parseEnv_loop buf count pEnd i envs p =
    parseEnv_loop buf count pEnd (i + 1) (envs[i := hd (env_slots p [(k, v)])]) (p + int (length (env_entry (k, v))))"
proof -
  have "length (drop (nat p) buf) \<ge> 4" by (simp add: assms(1))
  then have "nat p + 4 \<le> length buf" by simp
  then have l: "load p 4 buf = Some (be16_bytes (length k + 1) @ be16_bytes (length v + 1))"
    using assms(1,3) by (simp add: load_def mem_read_def env_entry_def)
  have k: "be16 (of_nat (Suc (length k) div 256)) (of_nat (Suc (length k))) = int (length k) + 1"
    and v: "be16 (of_nat (Suc (length v) div 256)) (of_nat (Suc (length v))) = int (length v) + 1"
    using assms(2) be16_be16_bytes [of "Suc (length k)"] be16_be16_bytes [of "Suc (length v)"]
    by (simp_all add: env_ok_def del: of_nat_Suc)
  show ?thesis
    using assms(4-6) l
    by (subst parseEnv_loop.simps)
      (simp add: be16_bytes_def k v del: of_nat_Suc, simp add: algebra_simps)
qed

lemma parseEnv_loop_block:
  assumes "drop (nat p) buf = env_block kvs @ rest" "list_all env_ok kvs" "0 \<le> p"
    and "count = int (i + length kvs)" "p + int (length (env_block kvs)) \<le> pEnd + 4"
    and "i + length kvs \<le> length envs"
  shows "parseEnv_loop buf count pEnd i envs p =
    Some (0, take i envs @ env_slots p kvs @ drop (i + length kvs) envs, p + int (length (env_block kvs)))"
  using assms
proof (induction kvs arbitrary: p i envs)
  case Nil
  then have d: "drop (nat p) buf = [0, 0, 0, 0] @ rest" by (simp add: env_block_def)
  then have "length (drop (nat p) buf) \<ge> 4" by simp
  then have "nat p + 4 \<le> length buf" by simp
  with d Nil have "load p 4 buf = Some [0, 0, 0, 0]"
    by (simp add: load_def mem_read_def)
  with Nil show ?case
    by (subst parseEnv_loop.simps) (simp add: env_block_def)
next
  case (Cons kv kvs)
  obtain k v where kv: "kv = (k, v)" by (cases kv)
  let ?n = "int (length (env_entry (k, v)))"
  have d: "drop (nat p) buf = env_entry (k, v) @ env_block kvs @ rest"
    using Cons.prems(1) by (simp add: env_block_def kv)
  have "nat (p + ?n) = length (env_entry (k, v)) + nat p"
    using Cons.prems(3) by (simp add: nat_add_distrib)
  then have "drop (nat (p + ?n)) buf = drop (length (env_entry (k, v))) (drop (nat p) buf)"
    by (simp only: drop_drop)
  also have "\<dots> = env_block kvs @ rest" by (simp only: d drop_length_append)
  finally have d': "drop (nat (p + ?n)) buf = env_block kvs @ rest" .
  let ?envs = "envs[i := hd (env_slots p [(k, v)])]"
  have "parseEnv_loop buf count pEnd i envs p = parseEnv_loop buf count pEnd (i + 1) ?envs (p + ?n)"
    by (rule parseEnv_loop_entry [OF d]) (use Cons.prems in \<open>auto simp: kv env_block_def\<close>)
  also have "\<dots> = Some (0, take (i + 1) ?envs @ env_slots (p + ?n) kvs @ drop (i + 1 + length kvs) ?envs,
      p + ?n + int (length (env_block kvs)))"
    by (rule Cons.IH [OF d']) (use Cons.prems in \<open>auto simp: kv env_block_def\<close>)
  also have "take (i + 1) ?envs = take i envs @ [hd (env_slots p [(k, v)])]"
    using Cons.prems(6) by (simp add: take_Suc_conv_app_nth)
  finally show ?case
    using Cons.prems(6) by (simp add: kv env_block_def)
qed

lemma parseEnv_block:
  assumes "buf = pre @ env_block kvs @ rest" "list_all env_ok kvs" "p = int (length pre)"
    and "length kvs \<le> length envs" "length kvs \<le> 8192" "p + int (length (env_block kvs)) \<le> pEnd + 4"
  shows "parseEnv envs (int (length kvs)) p pEnd buf =
    Some (0, env_slots p kvs @ drop (length kvs) envs, p + int (length (env_block kvs)))"
  using parseEnv_loop_block [of p buf kvs rest "int (length kvs)" 0 pEnd envs] assms
  by (simp add: parseEnv_def)

subsection \<open>The request packet\<close>

text \<open>
  The content of a request packet. A known header is its length and its offset in the block
  of HTTP headers, offset 0 standing for an absent one; an unknown header is the offset and
  length of its name and of its value.
\<close>

record request_packet =
  rq_special :: "(byte list \<times> byte list) list"
  rq_env :: "(byte list \<times> byte list) list"
  rq_scriptFile :: int
  rq_scriptName :: int
  rq_queryString :: int
  rq_method :: int
  rq_known :: "(nat \<times> int) list"
  rq_unknown :: "(int \<times> int \<times> int \<times> int) list"
  rq_http :: "byte list"
  rq_bodyLen :: int

definition rq_envs :: "request_packet \<Rightarrow> byte list" where
  "rq_envs p = env_block (rq_special p) @ env_block (rq_env p)"

definition rq_index_pos :: "request_packet \<Rightarrow> nat" where
  "rq_index_pos p = (44 + length (rq_envs p) + 7) div 8 * 8"

definition rq_unknown_pos :: "request_packet \<Rightarrow> nat" where
  "rq_unknown_pos p = rq_index_pos p + 152"

definition rq_http_pos :: "request_packet \<Rightarrow> nat" where
  "rq_http_pos p = rq_unknown_pos p + 16 * length (rq_unknown p)"

definition rq_total :: "request_packet \<Rightarrow> nat" where
  "rq_total p = rq_http_pos p + length (rq_http p)"

definition rq_fields :: "request_packet \<Rightarrow> int list" where
  "rq_fields p =
    [int (length (rq_http p)), rq_bodyLen p, rq_scriptFile p, rq_scriptName p, rq_queryString p, rq_method p,
     int (length (rq_unknown p)), int (length (rq_env p)), int (length (rq_special p))]"

definition rq_lens :: "request_packet \<Rightarrow> nat list" where
  "rq_lens p = map fst (rq_known p)"

definition rq_offs :: "request_packet \<Rightarrow> int list" where
  "rq_offs p = map snd (rq_known p)"

definition rq_index :: "request_packet \<Rightarrow> byte list" where
  "rq_index p = concat (map uint16_bytes (rq_lens p)) @ [0, 0] @ concat (map int32_bytes (rq_offs p))"

definition unknown_fields :: "int \<times> int \<times> int \<times> int \<Rightarrow> int list" where
  "unknown_fields = (\<lambda>(no, nl, vo, vl). [no, nl, vo, vl])"

definition request_bytes :: "request_packet \<Rightarrow> byte list" where
  "request_bytes p =
    packet_header_bytes (lsapi_buildPacketHeader LSAPI_BEGIN_REQUEST (int (rq_total p))) @
    concat (map int32_bytes (rq_fields p)) @ rq_envs p @
    replicate (rq_index_pos p - (44 + length (rq_envs p))) 0 @
    rq_index p @ concat (map int32_bytes (concat (map unknown_fields (rq_unknown p)))) @ rq_http p"

definition area_in :: "int \<Rightarrow> int \<Rightarrow> int \<Rightarrow> bool" where
  "area_in off len sz \<longleftrightarrow> 0 \<le> off \<and> 0 \<le> len \<and> off + len \<le> sz"

definition request_ok :: "request_packet \<Rightarrow> bool" where
  "request_ok p \<longleftrightarrow>
    list_all env_ok (rq_special p) \<and> list_all env_ok (rq_env p) \<and>
    length (rq_special p) \<le> 8192 \<and> length (rq_env p) \<le> 8192 \<and>
    rq_total p \<le> 65535 \<and> int32_range (rq_bodyLen p) \<and>
    list_all (\<lambda>off. 0 \<le> off \<and> off < int (rq_total p))
      [rq_scriptFile p, rq_scriptName p, rq_queryString p, rq_method p] \<and>
    length (rq_known p) = 25 \<and>
    list_all (\<lambda>(len, off). len < 65536 \<and> int32_range off) (rq_known p) \<and>
    list_all (\<lambda>(len, off). area_in off (int len) (int (length (rq_http p)))) (take 24 (rq_known p)) \<and>
    list_all (\<lambda>(no, nl, vo, vl). area_in no nl (int (length (rq_http p))) \<and>
      area_in vo vl (int (length (rq_http p)))) (rq_unknown p)"

lemma length_rq_index: "length (rq_known p) = 25 \<Longrightarrow> length (rq_index p) = 152"
  by (simp add: rq_index_def rq_lens_def rq_offs_def del: map_map)

lemma length_unknown_fields [simp]: "length (concat (map unknown_fields us)) = 4 * length us"
  by (induction us) (auto simp: unknown_fields_def)

lemma rq_index_pos_ge: "44 + length (rq_envs p) \<le> rq_index_pos p"
  unfolding rq_index_pos_def by linarith

lemma length_request_bytes: "request_ok p \<Longrightarrow> length (request_bytes p) = rq_total p"
  using rq_index_pos_ge [of p]
  by (simp add: request_bytes_def rq_total_def rq_http_pos_def rq_unknown_pos_def length_rq_index
      rq_fields_def request_ok_def)

lemma rq_pos_bound:
  assumes "request_ok p"
  shows "int (rq_http_pos p) \<le> 65535" "int (length (rq_http p)) \<le> 65535" "int (length (rq_unknown p)) \<le> 65535"
  using assms by (auto simp: request_ok_def rq_total_def rq_http_pos_def)

lemma rq_field:
  assumes "request_ok p" "k < 9"
  shows "load_int32 (8 + 4 * int k) (request_bytes p @ tail) = Some (rq_fields p ! k)"
proof -
  have "list_all int32_range (rq_fields p)"
    using assms rq_pos_bound [OF assms(1)] by (auto simp: rq_fields_def request_ok_def int32_range_def)
  moreover have "k < length (rq_fields p)"
    using assms by (simp add: rq_fields_def)
  ultimately show ?thesis
    unfolding request_bytes_def append_assoc by (intro load_int32_table) simp_all
qed

lemma rq_hdr:
  assumes "request_ok p"
  shows "hdr_httpHeaderLen (request_bytes p @ tail) = Some (int (length (rq_http p)))"
    and "hdr_reqBodyLen (request_bytes p @ tail) = Some (rq_bodyLen p)"
    and "hdr_scriptFileOff (request_bytes p @ tail) = Some (rq_scriptFile p)"
    and "hdr_scriptNameOff (request_bytes p @ tail) = Some (rq_scriptName p)"
    and "hdr_queryStringOff (request_bytes p @ tail) = Some (rq_queryString p)"
    and "hdr_requestMethodOff (request_bytes p @ tail) = Some (rq_method p)"
    and "hdr_cntUnknownHeaders (request_bytes p @ tail) = Some (int (length (rq_unknown p)))"
    and "hdr_cntEnv (request_bytes p @ tail) = Some (int (length (rq_env p)))"
    and "hdr_cntSpecialEnv (request_bytes p @ tail) = Some (int (length (rq_special p)))"
  using rq_field [OF assms, of 0 tail] rq_field [OF assms, of 1 tail] rq_field [OF assms, of 2 tail]
    rq_field [OF assms, of 3 tail] rq_field [OF assms, of 4 tail] rq_field [OF assms, of 5 tail]
    rq_field [OF assms, of 6 tail] rq_field [OF assms, of 7 tail] rq_field [OF assms, of 8 tail]
  by (simp_all add: rq_fields_def hdr_httpHeaderLen_def hdr_reqBodyLen_def hdr_scriptFileOff_def
      hdr_scriptNameOff_def hdr_queryStringOff_def hdr_requestMethodOff_def hdr_cntUnknownHeaders_def
      hdr_cntEnv_def hdr_cntSpecialEnv_def)

text \<open>The packet around its parts.\<close>

definition rq_head :: "request_packet \<Rightarrow> byte list" where
  "rq_head p = packet_header_bytes (lsapi_buildPacketHeader LSAPI_BEGIN_REQUEST (int (rq_total p))) @
    concat (map int32_bytes (rq_fields p))"

definition rq_upto_index :: "request_packet \<Rightarrow> byte list" where
  "rq_upto_index p = rq_head p @ rq_envs p @ replicate (rq_index_pos p - (44 + length (rq_envs p))) 0"

lemma length_rq_head [simp]: "length (rq_head p) = 44"
  by (simp add: rq_head_def rq_fields_def)

lemma length_rq_upto_index [simp]: "length (rq_upto_index p) = rq_index_pos p"
  using rq_index_pos_ge [of p] by (simp add: rq_upto_index_def)

lemma request_bytes_split:
  "request_bytes p @ tail = rq_upto_index p @ rq_index p @
    concat (map int32_bytes (concat (map unknown_fields (rq_unknown p)))) @ rq_http p @ tail"
  by (simp add: request_bytes_def rq_upto_index_def rq_head_def)

lemma rq_headerOff:
  assumes "request_ok p" "i < 25"
  shows "m_headerOff (int (rq_index_pos p)) i (request_bytes p @ tail) = Some (snd (rq_known p ! i))"
proof -
  have l: "length (rq_lens p) = 25" "length (rq_offs p) = 25" "list_all int32_range (rq_offs p)"
    "rq_offs p ! i = snd (rq_known p ! i)"
    using assms rq_pos_bound [OF assms(1)]
    by (auto simp: request_ok_def list_all_iff area_in_def int32_range_def rq_offs_def rq_lens_def)
  let ?pre = "rq_upto_index p @ concat (map uint16_bytes (rq_lens p)) @ [0, 0]"
  let ?post = "concat (map int32_bytes (concat (map unknown_fields (rq_unknown p)))) @ rq_http p @ tail"
  have "request_bytes p @ tail = ?pre @ concat (map int32_bytes (rq_offs p)) @ ?post"
    unfolding request_bytes_split rq_index_def by simp
  moreover have "load_int32 (int (rq_index_pos p) + 52 + 4 * int i)
      (?pre @ concat (map int32_bytes (rq_offs p)) @ ?post) = Some (rq_offs p ! i)"
    using assms(2) l by (intro load_int32_table) simp_all
  ultimately show ?thesis by (simp only: m_headerOff_def l)
qed

lemma rq_headerLen:
  assumes "request_ok p" "i < 25"
  shows "m_headerLen (int (rq_index_pos p)) i (request_bytes p @ tail) = Some (int (fst (rq_known p ! i)))"
proof -
  have l: "length (rq_lens p) = 25" "list_all (\<lambda>v. v < 65536) (rq_lens p)" "rq_lens p ! i = fst (rq_known p ! i)"
    using assms by (auto simp: request_ok_def list_all_iff rq_lens_def)
  let ?post = "[0, 0] @ concat (map int32_bytes (rq_offs p)) @
    concat (map int32_bytes (concat (map unknown_fields (rq_unknown p)))) @ rq_http p @ tail"
  have "request_bytes p @ tail = rq_upto_index p @ concat (map uint16_bytes (rq_lens p)) @ ?post"
    unfolding request_bytes_split rq_index_def by simp
  moreover have "load_uint16 (int (rq_index_pos p) + 2 * int i)
      (rq_upto_index p @ concat (map uint16_bytes (rq_lens p)) @ ?post) = Some (int (rq_lens p ! i))"
    using assms(2) l by (intro load_uint16_table) simp_all
  ultimately show ?thesis by (simp only: m_headerLen_def l)
qed

lemma nth_unknown_fields:
  "j < length us \<Longrightarrow> k < 4 \<Longrightarrow> concat (map unknown_fields us) ! (4 * j + k) = unknown_fields (us ! j) ! k"
proof (induction us arbitrary: j)
  case Nil
  then show ?case by simp
next
  case (Cons u us)
  have "length (unknown_fields u) = 4" by (cases u) (simp add: unknown_fields_def)
  with Cons show ?case by (cases j) (simp_all add: nth_append)
qed

lemma rq_unknown_field:
  assumes "request_ok p" "j < length (rq_unknown p)" "k < 4"
  shows "load_int32 (int (rq_unknown_pos p) + 16 * int j + 4 * int k) (request_bytes p @ tail) =
    Some (unknown_fields (rq_unknown p ! j) ! k)"
proof -
  let ?us = "concat (map unknown_fields (rq_unknown p))"
  have "list_all int32_range ?us"
    using assms(1) rq_pos_bound [OF assms(1)]
    by (fastforce simp: request_ok_def list_all_iff area_in_def int32_range_def unknown_fields_def)
  moreover have "length (rq_index p) = 152"
    using assms(1) by (simp add: request_ok_def length_rq_index)
  ultimately have "load_int32 (int (rq_unknown_pos p) + 16 * int j + 4 * int k)
      ((rq_upto_index p @ rq_index p) @ concat (map int32_bytes ?us) @ rq_http p @ tail) = Some (?us ! (4 * j + k))"
    using assms(2,3) by (intro load_int32_table) (simp_all add: rq_unknown_pos_def)
  moreover have "?us ! (4 * j + k) = unknown_fields (rq_unknown p ! j) ! k"
    using assms(2,3) by (rule nth_unknown_fields)
  moreover have "request_bytes p @ tail = (rq_upto_index p @ rq_index p) @ concat (map int32_bytes ?us) @ rq_http p @ tail"
    by (simp add: request_bytes_split)
  ultimately show ?thesis by (simp only:)
qed

lemma rq_unknown_fields:
  assumes "request_ok p" "j < length (rq_unknown p)" "rq_unknown p ! j = (no, nl, vo, vl)"
  shows "nameOff (int (rq_unknown_pos p) + 16 * int j) (request_bytes p @ tail) = Some no"
    and "nameLen (int (rq_unknown_pos p) + 16 * int j) (request_bytes p @ tail) = Some nl"
    and "valueOff (int (rq_unknown_pos p) + 16 * int j) (request_bytes p @ tail) = Some vo"
    and "valueLen (int (rq_unknown_pos p) + 16 * int j) (request_bytes p @ tail) = Some vl"
  using rq_unknown_field [OF assms(1,2), of 0 tail] rq_unknown_field [OF assms(1,2), of 1 tail]
    rq_unknown_field [OF assms(1,2), of 2 tail] rq_unknown_field [OF assms(1,2), of 3 tail]
  by (simp_all add: assms(3) unknown_fields_def nameOff_def nameLen_def valueOff_def valueLen_def)

lemma rq_known_area:
  assumes "request_ok p" "i < 24" "rq_known p ! i = (len, off)"
  shows "area_in off (int len) (int (length (rq_http p)))"
proof -
  have "take 24 (rq_known p) ! i = (len, off)" "i < length (take 24 (rq_known p))"
    using assms by (simp_all add: request_ok_def)
  then have "(len, off) \<in> set (take 24 (rq_known p))" by (metis nth_mem)
  then show ?thesis using assms(1) by (auto simp: request_ok_def list_all_iff)
qed

lemma validate_request_bytes:
  assumes "request_ok p"
  shows "validateHeaders (int (rq_index_pos p)) (int (rq_unknown_pos p)) (request_bytes p @ tail) = Some 0"
proof -
  let ?n = "int (length (rq_http p))"
  have "validate_known (request_bytes p @ tail) (int (rq_index_pos p)) ?n i 0 = Some 0" if "i < 24" for i
  proof -
    obtain len off where k: "rq_known p ! i = (len, off)" by (cases "rq_known p ! i")
    have "area_in off (int len) ?n" by (rule rq_known_area [OF assms that k])
    then show ?thesis
      using that k rq_headerOff [OF assms, of i tail] rq_headerLen [OF assms, of i tail] rq_pos_bound [OF assms]
      by (auto simp: validate_known_def c_add_def int32_range_def area_in_def)
  qed
  then have "for_each (validate_known (request_bytes p @ tail) (int (rq_index_pos p)) ?n) [0..<H_TRANSFER_ENCODING] 0 = Some 0"
    by (intro for_each_const) simp
  moreover have "validate_unknown (request_bytes p @ tail) ?n (int (rq_unknown_pos p) + 16 * int j) 0 = Some 0"
    if "j < length (rq_unknown p)" for j
  proof -
    obtain no nl vo vl where u: "rq_unknown p ! j = (no, nl, vo, vl)" by (cases "rq_unknown p ! j")
    have "(no, nl, vo, vl) \<in> set (rq_unknown p)"
      using that u nth_mem [of j "rq_unknown p"] by simp
    then have "area_in no nl ?n" "area_in vo vl ?n" using assms by (auto simp: request_ok_def list_all_iff)
    then show ?thesis
      using rq_unknown_fields [OF assms that u, of tail] rq_pos_bound [OF assms]
      by (auto simp: validate_unknown_def c_add_def int32_range_def area_in_def)
  qed
  then have "for_each (validate_unknown (request_bytes p @ tail) ?n)
      (unknown_ptrs (int (rq_unknown_pos p)) (int (length (rq_unknown p)))) 0 = Some 0"
    by (intro for_each_const) (auto simp: unknown_ptrs_def)
  ultimately show ?thesis
    by (simp add: validateHeaders_def rq_hdr [OF assms])
qed

lemma allocateEnvList_grown:
  assumes "alloc_ok w (24 * n)" "n \<le> 8192"
  shows "\<exists>L. (if int (length envs) < int n then allocateEnvList envs (int n) w else (0, envs)) = (0, L) \<and>
    n \<le> length L \<and> drop n L = drop n envs"
  using assms by (auto simp: allocateEnvList_def mult.commute)

lemma parseRequest_env_bytes:
  assumes ok: "request_ok p" and buf: "m_pReqBuf r = request_bytes p @ tail"
    and alloc: "\<And>n. alloc_ok w n"
  shows "parseRequest_env r (int (rq_total p)) w = Some (0,
    r\<lparr>m_pSpecialEnvList := env_slots 44 (rq_special p) @ drop (length (rq_special p)) (m_pSpecialEnvList r),
      m_pEnvList := env_slots (44 + int (length (env_block (rq_special p)))) (rq_env p) @
        drop (length (rq_env p)) (m_pEnvList r)\<rparr>,
    44 + int (length (rq_envs p)))"
proof -
  let ?buf = "request_bytes p @ tail" and ?S = "env_block (rq_special p)"
  have lens: "length (rq_special p) \<le> 8192" "length (rq_env p) \<le> 8192" using ok by (simp_all add: request_ok_def)
  obtain S where S: "(if int (length (m_pSpecialEnvList r)) < int (length (rq_special p))
        then allocateEnvList (m_pSpecialEnvList r) (int (length (rq_special p))) w else (0, m_pSpecialEnvList r)) = (0, S)"
      "length (rq_special p) \<le> length S" "drop (length (rq_special p)) S = drop (length (rq_special p)) (m_pSpecialEnvList r)"
    using allocateEnvList_grown [OF alloc lens(1), of "m_pSpecialEnvList r"] by blast
  obtain E where E: "(if int (length (m_pEnvList r)) < int (length (rq_env p))
        then allocateEnvList (m_pEnvList r) (int (length (rq_env p))) w else (0, m_pEnvList r)) = (0, E)"
      "length (rq_env p) \<le> length E" "drop (length (rq_env p)) E = drop (length (rq_env p)) (m_pEnvList r)"
    using allocateEnvList_grown [OF alloc lens(2), of "m_pEnvList r"] by blast
  obtain rest where rest: "?buf = rq_head p @ ?S @ env_block (rq_env p) @ rest"
    by (simp add: request_bytes_def rq_envs_def rq_head_def)
  have tot: "44 + length ?S + length (env_block (rq_env p)) \<le> rq_total p"
    using rq_index_pos_ge [of p] by (simp add: rq_total_def rq_http_pos_def rq_unknown_pos_def rq_envs_def)
  have "parseEnv S (int (length (rq_special p))) 44 (int (rq_total p)) ?buf =
      Some (0, env_slots 44 (rq_special p) @ drop (length (rq_special p)) S, 44 + int (length ?S))"
    using ok tot S(2) rest by (intro parseEnv_block [of _ "rq_head p"]) (auto simp: request_ok_def)
  moreover have "parseEnv E (int (length (rq_env p))) (44 + int (length ?S)) (int (rq_total p)) ?buf =
      Some (0, env_slots (44 + int (length ?S)) (rq_env p) @ drop (length (rq_env p)) E,
        44 + int (length ?S) + int (length (env_block (rq_env p))))"
    using ok tot E(2) rest by (intro parseEnv_block [of _ "rq_head p @ ?S"]) (auto simp: request_ok_def)
  ultimately show ?thesis
    using S(1,3) E(1,3)
    by (simp add: parseRequest_env_def rq_hdr [OF ok] buf Let_def rq_envs_def add.assoc cong: if_cong split del: if_split)
qed

lemma rq_flag: "load 3 (Suc 0) (request_bytes p @ tail) = Some [0]"
proof -
  obtain rest where "request_bytes p @ tail = [LSAPI_VERSION_B0, LSAPI_VERSION_B1, LSAPI_BEGIN_REQUEST] @ [0] @ rest"
    by (simp add: request_bytes_def packet_header_bytes_def lsapi_buildPacketHeader_def)
  then show ?thesis by (simp add: load_def mem_read_def)
qed

text \<open>What the parser leaves in the request.\<close>

definition parsed :: "request_packet \<Rightarrow> LSAPI_Request \<Rightarrow> LSAPI_Request" where
  "parsed p r = r
    \<lparr>m_pSpecialEnvList := env_slots 44 (rq_special p) @ drop (length (rq_special p)) (m_pSpecialEnvList r),
     m_pEnvList := env_slots (44 + int (length (env_block (rq_special p)))) (rq_env p) @
        drop (length (rq_env p)) (m_pEnvList r),
     m_pScriptFile := Some (rq_scriptFile p), m_pScriptName := Some (rq_scriptName p),
     m_pQueryString := Some (rq_queryString p), m_pRequestMethod := Some (rq_method p),
     m_pHeaderIndex := Some (int (rq_index_pos p)), m_pUnknownHeader := Some (int (rq_unknown_pos p)),
     m_pHttpHeader := Some (int (rq_http_pos p)), m_reqBodyLen := rq_bodyLen p\<rparr>"

lemma parseRequest_bytes:
  assumes ok: "request_ok p" and buf: "m_pReqBuf r = request_bytes p @ tail"
    and alloc: "\<And>n. alloc_ok w n" and body: "rq_bodyLen p \<noteq> -2"
  shows "parseRequest r (int (rq_total p)) w = Some (0, parsed p r)"
proof -
  have idx: "(51 + int (length (rq_envs p))) div 8 * 8 = int (rq_index_pos p)"
    by (simp add: rq_index_pos_def zdiv_int)
  have r1: "r\<lparr>m_pReqBuf := request_bytes p @ tail\<rparr> = r" using buf by simp
  let ?r2 = "r\<lparr>m_pSpecialEnvList := env_slots 44 (rq_special p) @ drop (length (rq_special p)) (m_pSpecialEnvList r),
      m_pEnvList := env_slots (44 + int (length (env_block (rq_special p)))) (rq_env p) @
        drop (length (rq_env p)) (m_pEnvList r)\<rparr>"
  let ?r3 = "?r2\<lparr>m_pScriptFile := Some (rq_scriptFile p), m_pScriptName := Some (rq_scriptName p),
     m_pQueryString := Some (rq_queryString p), m_pRequestMethod := Some (rq_method p)\<rparr>"
  let ?r4 = "?r3\<lparr>m_pHeaderIndex := Some (int (rq_index_pos p)), m_pUnknownHeader := Some (int (rq_unknown_pos p)),
     m_pHttpHeader := Some (int (rq_http_pos p))\<rparr>"
  have "parseRequest_offsets ?r2 (int (rq_total p)) = Some (0, ?r3)"
    using ok by (auto simp: parseRequest_offsets_def buf rq_hdr [OF ok] request_ok_def)
  moreover have "parseRequest_layout ?r3 (int (rq_total p)) (44 + int (length (rq_envs p))) =
      Some (0, int (rq_index_pos p), int (rq_unknown_pos p), ?r4)"
    by (simp add: parseRequest_layout_def buf rq_hdr [OF ok] Let_def idx)
      (simp add: rq_total_def rq_http_pos_def rq_unknown_pos_def)
  moreover have "?r4\<lparr>m_pReqBuf := request_bytes p @ tail\<rparr> = ?r4" using buf by simp
  moreover note parseRequest_env_bytes [OF ok buf alloc]
  ultimately show ?thesis
    using body
    by (simp add: parseRequest_def buf rq_flag r1 Let_def validate_request_bytes [OF ok] rq_hdr [OF ok] parsed_def)
qed

subsection \<open>The environment of a parsed request\<close>

lemma load_drop:
  assumes "0 \<le> p" "drop (nat p) buf = xs @ ys" "nat p \<le> length buf" "n = length xs"
  shows "load p n buf = Some xs"
proof -
  have "length (drop (nat p) buf) = length xs + length ys" by (simp only: assms(2) length_append)
  with assms(3) have "nat p + length xs \<le> length buf" by simp
  with assms show ?thesis by (simp add: load_def mem_read_def)
qed

lemma c_string_drop:
  "0 \<le> p \<Longrightarrow> drop (nat p) buf = s @ 0 # ys \<Longrightarrow> 0 \<notin> set s \<Longrightarrow> c_string_at p buf = Some s"
  by (auto simp: c_string_at_def takeWhile_append)

lemma drop_nat_add: "0 \<le> p \<Longrightarrow> drop (nat p) buf = xs @ ys \<Longrightarrow> drop (nat (p + int (length xs))) buf = ys"
  by (metis append_eq_conv_conj drop_drop nat_int_add add.commute nat_add_distrib nat_int of_nat_0_le_iff)

lemma env_entry_areas:
  assumes "0 \<le> p" "drop (nat p) buf = env_entry (k, v) @ rest"
  shows "load (p + 4) (length k) buf = Some k"
    and "load (p + 4 + int (length k) + 1) (length v) buf = Some v"
    and "0 \<notin> set k \<Longrightarrow> c_string_at (p + 4) buf = Some k"
    and "0 \<notin> set v \<Longrightarrow> c_string_at (p + 4 + int (length k) + 1) buf = Some v"
proof -
  have "drop (nat p) buf = (be16_bytes (length k + 1) @ be16_bytes (length v + 1)) @ k @ 0 # v @ 0 # rest"
    using assms(2) by (simp add: env_entry_def)
  from drop_nat_add [OF assms(1) this] have k: "drop (nat (p + 4)) buf = k @ 0 # v @ 0 # rest" by simp
  then have "drop (nat (p + 4)) buf = (k @ [0]) @ v @ 0 # rest" by simp
  from drop_nat_add [OF _ this] assms(1) have v: "drop (nat (p + 4 + int (length k) + 1)) buf = v @ 0 # rest"
    by (simp add: add.assoc)
  have "drop (nat (p + 4)) buf \<noteq> []" "drop (nat (p + 4 + int (length k) + 1)) buf \<noteq> []" using k v by simp_all
  then have "nat (p + 4) \<le> length buf" "nat (p + 4 + int (length k) + 1) \<le> length buf" by simp_all
  with k v assms(1) show "load (p + 4) (length k) buf = Some k"
    "load (p + 4 + int (length k) + 1) (length v) buf = Some v"
    by (auto intro: load_drop)
  show "0 \<notin> set k \<Longrightarrow> c_string_at (p + 4) buf = Some k"
    using k assms(1) by (auto intro: c_string_drop)
  show "0 \<notin> set v \<Longrightarrow> c_string_at (p + 4 + int (length k) + 1) buf = Some v"
    using v assms(1) by (auto intro: c_string_drop)
qed

text \<open>Iteration over a list of pairs, until the callback returns 0 or less.\<close>

fun foreach_pairs :: "(byte list \<times> byte list) list \<Rightarrow> int \<Rightarrow> 'a env_handler \<Rightarrow> 'a \<Rightarrow> int \<times> 'a" where
  "foreach_pairs [] n fn arg = (n, arg)"
| "foreach_pairs ((k, v) # kvs) n fn arg =
    (case fn k v arg of (ret, arg') \<Rightarrow> if ret \<le> 0 then (ret, arg') else foreach_pairs kvs n fn arg')"

lemma EnvForeach_slots:
  assumes "0 \<le> p" "drop (nat p) buf = concat (map env_entry kvs) @ rest"
  shows "EnvForeach (env_slots p kvs @ slots) (length kvs) n buf fn arg = Some (foreach_pairs kvs n fn arg)"
  using assms
proof (induction p kvs arbitrary: arg rule: env_slots.induct)
  case (1 p)
  then show ?case by simp
next
  case (2 p k v kvs)
  have d: "drop (nat p) buf = env_entry (k, v) @ concat (map env_entry kvs) @ rest" using "2.prems" by simp
  note a = env_entry_areas [OF "2.prems"(1) d]
  have IH: "EnvForeach (env_slots (p + int (length (env_entry (k, v)))) kvs @ slots) (length kvs) n buf fn arg =
      Some (foreach_pairs kvs n fn arg)" for arg
    by (rule "2.IH") (use "2.prems"(1) drop_nat_add [OF "2.prems"(1) d] in simp_all)
  show ?case
    using a(1,2) IH by (simp add: load_len_def split: prod.split)
qed

lemma GetEnv_loop_slots:
  assumes "0 \<le> p" "drop (nat p) buf = concat (map env_entry kvs) @ rest" "list_all (\<lambda>(k, v). 0 \<notin> set k \<and> 0 \<notin> set v) kvs"
  shows "\<exists>q. GetEnv_loop (env_slots p kvs @ slots) (length kvs) name buf = Some q \<and>
    Option.bind q (\<lambda>a. c_string_at a buf) = map_of kvs name"
  using assms
proof (induction p kvs rule: env_slots.induct)
  case (1 p)
  then show ?case by simp
next
  case (2 p k v kvs)
  have d: "drop (nat p) buf = env_entry (k, v) @ concat (map env_entry kvs) @ rest" using "2.prems" by simp
  note a = env_entry_areas [OF "2.prems"(1) d]
  show ?case
  proof (cases "name = k")
    case True
    then show ?thesis using a(3,4) "2.prems"(3) by simp
  next
    case False
    have "\<exists>q. GetEnv_loop (env_slots (p + int (length (env_entry (k, v)))) kvs @ slots) (length kvs) name buf = Some q \<and>
        Option.bind q (\<lambda>a. c_string_at a buf) = map_of kvs name"
      by (rule "2.IH") (use "2.prems" drop_nat_add [OF "2.prems"(1) d] in simp_all)
    with False show ?thesis using a(3) "2.prems"(3) by simp
  qed
qed

lemma rq_envs_drop:
  shows "drop 44 (request_bytes p @ tail) = concat (map env_entry (rq_special p)) @ [0, 0, 0, 0] @
      drop (44 + length (env_block (rq_special p))) (request_bytes p @ tail)"
    and "drop (44 + length (env_block (rq_special p))) (request_bytes p @ tail) =
      concat (map env_entry (rq_env p)) @ [0, 0, 0, 0] @
      drop (44 + length (rq_envs p)) (request_bytes p @ tail)"
proof -
  obtain rest where b: "request_bytes p @ tail = rq_head p @ env_block (rq_special p) @ env_block (rq_env p) @ rest"
    by (simp add: request_bytes_split rq_upto_index_def rq_envs_def)
  have 1: "drop 44 (request_bytes p @ tail) = env_block (rq_special p) @ env_block (rq_env p) @ rest"
    unfolding b by simp
  have 2: "drop (44 + length (env_block (rq_special p))) (request_bytes p @ tail) = env_block (rq_env p) @ rest"
    unfolding b by simp
  have 3: "drop (44 + length (rq_envs p)) (request_bytes p @ tail) = rest"
    unfolding b by (simp add: rq_envs_def)
  show "drop 44 (request_bytes p @ tail) = concat (map env_entry (rq_special p)) @ [0, 0, 0, 0] @
      drop (44 + length (env_block (rq_special p))) (request_bytes p @ tail)"
    unfolding 1 2 by (simp add: env_block_def)
  show "drop (44 + length (env_block (rq_special p))) (request_bytes p @ tail) =
      concat (map env_entry (rq_env p)) @ [0, 0, 0, 0] @ drop (44 + length (rq_envs p)) (request_bytes p @ tail)"
    unfolding 2 3 by (simp add: env_block_def)
qed

lemma parsed_fields [simp]:
  "m_pReqBuf (parsed p r) = m_pReqBuf r"
  "m_pSpecialEnvList (parsed p r) = env_slots 44 (rq_special p) @ drop (length (rq_special p)) (m_pSpecialEnvList r)"
  "m_pEnvList (parsed p r) = env_slots (44 + int (length (env_block (rq_special p)))) (rq_env p) @
      drop (length (rq_env p)) (m_pEnvList r)"
  "m_pHeaderIndex (parsed p r) = Some (int (rq_index_pos p))"
  "m_pUnknownHeader (parsed p r) = Some (int (rq_unknown_pos p))"
  "m_pHttpHeader (parsed p r) = Some (int (rq_http_pos p))"
  "m_reqBodyLen (parsed p r) = rq_bodyLen p"
  by (simp_all add: parsed_def)

lemma ForeachEnv_parsed:
  assumes "request_ok p" "m_pReqBuf r = request_bytes p @ tail"
  shows "LSAPI_ForeachEnv_r (parsed p r) fn arg = Some (foreach_pairs (rq_env p) (int (length (rq_env p))) fn arg)"
    and "LSAPI_ForeachSpecialEnv_r (parsed p r) fn arg =
      Some (foreach_pairs (rq_special p) (int (length (rq_special p))) fn arg)"
proof -
  have "nat (44 + int (length (env_block (rq_special p)))) = 44 + length (env_block (rq_special p))"
    by (simp add: nat_add_distrib)
  then have "EnvForeach (m_pEnvList (parsed p r)) (length (rq_env p)) (int (length (rq_env p))) (m_pReqBuf r) fn arg =
      Some (foreach_pairs (rq_env p) (int (length (rq_env p))) fn arg)"
    using rq_envs_drop(2) [of p tail] unfolding assms(2)
    by (simp only: parsed_fields) (rule EnvForeach_slots, simp_all)
  then show "LSAPI_ForeachEnv_r (parsed p r) fn arg = Some (foreach_pairs (rq_env p) (int (length (rq_env p))) fn arg)"
    by (cases "rq_env p = []") (simp_all add: LSAPI_ForeachEnv_r_def assms rq_hdr)
  have "EnvForeach (m_pSpecialEnvList (parsed p r)) (length (rq_special p)) (int (length (rq_special p))) (m_pReqBuf r) fn arg =
      Some (foreach_pairs (rq_special p) (int (length (rq_special p))) fn arg)"
    using rq_envs_drop(1) [of p tail] unfolding assms(2)
    by (simp only: parsed_fields) (rule EnvForeach_slots, simp_all)
  then show "LSAPI_ForeachSpecialEnv_r (parsed p r) fn arg =
      Some (foreach_pairs (rq_special p) (int (length (rq_special p))) fn arg)"
    by (cases "rq_special p = []") (simp_all add: LSAPI_ForeachSpecialEnv_r_def assms rq_hdr)
qed

lemma GetEnv_parsed:
  assumes "request_ok p" "m_pReqBuf r = request_bytes p @ tail" "take 5 name \<noteq> ascii ''HTTP_''"
    and "list_all (\<lambda>(k, v). 0 \<notin> set k \<and> 0 \<notin> set v) (rq_env p)"
  shows "\<exists>q. LSAPI_GetEnv_r (parsed p r) name = Some (q, parsed p r) \<and>
    Option.bind q (\<lambda>a. c_string_at a (m_pReqBuf r)) = map_of (rq_env p) name"
proof -
  have "nat (44 + int (length (env_block (rq_special p)))) = 44 + length (env_block (rq_special p))"
    by (simp add: nat_add_distrib)
  then have "\<exists>q. GetEnv_loop (m_pEnvList (parsed p r)) (length (rq_env p)) name (request_bytes p @ tail) = Some q \<and>
      Option.bind q (\<lambda>a. c_string_at a (request_bytes p @ tail)) = map_of (rq_env p) name"
    using rq_envs_drop(2) [of p tail] assms(4)
    by (simp only: parsed_fields) (rule GetEnv_loop_slots, simp_all)
  then show ?thesis
    using assms by (auto simp: LSAPI_GetEnv_r_def rq_hdr)
qed

subsection \<open>The headers of a parsed request\<close>

lemma terminate_at_eq: "0 \<le> q \<Longrightarrow> nat q < length buf \<Longrightarrow> terminate_at q buf = Some (buf[nat q := 0])"
proof -
  assume "0 \<le> q" "nat q < length buf"
  moreover have "mem_read (nat q) 1 buf = [buf ! nat q]"
    using \<open>nat q < length buf\<close> by (simp add: mem_read_def take_Suc_conv_app_nth hd_drop_conv_nth)
  moreover have "mem_write (nat q) [0] buf = buf[nat q := 0]"
    using \<open>nat q < length buf\<close> by (simp add: mem_write_def upd_conv_take_nth_drop)
  moreover have "buf ! nat q = 0 \<Longrightarrow> buf[nat q := 0] = buf" by (metis list_update_id)
  ultimately show ?thesis
    by (simp add: terminate_at_def load_def store_def)
qed

lemma c_string_terminated:
  assumes "load q n buf = Some v" "nat q + n < length buf" "0 \<notin> set v"
  shows "c_string_at q (buf[nat q + n := 0]) = Some v"
proof -
  have q: "0 \<le> q" and v: "v = take n (drop (nat q) buf)" "length v = n"
    using load_SomeD [OF assms(1)] assms(1) by (auto simp: load_def mem_read_def split: if_splits)
  have "drop (nat q) (buf[nat q + n := 0]) = (drop (nat q) buf)[n := 0]"
    by (simp add: drop_update_swap)
  also have "\<dots> = take n (drop (nat q) buf) @ 0 # drop (Suc n) (drop (nat q) buf)"
    using assms(2) by (intro upd_conv_take_nth_drop) simp
  finally show ?thesis
    using q v assms(3) by (intro c_string_drop) simp_all
qed

lemma rq_http_area:
  assumes "request_ok p" "area_in off len (int (length (rq_http p)))"
  shows "load (int (rq_http_pos p) + off) (nat len) (request_bytes p @ tail) =
    Some (mem_read (nat off) (nat len) (rq_http p))"
proof -
  let ?pre = "rq_upto_index p @ rq_index p @ concat (map int32_bytes (concat (map unknown_fields (rq_unknown p))))"
  have l: "length ?pre = rq_http_pos p"
    using assms(1) by (simp add: rq_http_pos_def rq_unknown_pos_def request_ok_def length_rq_index)
  have b: "request_bytes p @ tail = ?pre @ rq_http p @ tail" by (simp add: request_bytes_split)
  have o: "nat (int (rq_http_pos p) + off) = rq_http_pos p + nat off" "0 \<le> off" "nat off + nat len \<le> length (rq_http p)"
    using assms(2) by (auto simp: area_in_def nat_add_distrib)
  have "mem_read (rq_http_pos p + nat off) (nat len) (?pre @ rq_http p @ tail) = mem_read (nat off) (nat len) (rq_http p @ tail)"
    using mem_read_shift [of ?pre "rq_http_pos p + nat off" "nat len" "rq_http p @ tail"] unfolding l append_assoc by simp
  also have "\<dots> = mem_read (nat off) (nat len) (rq_http p)"
    using o by (simp add: mem_read_def)
  finally show ?thesis
    using o l unfolding b load_def by (auto simp flip: l)
qed

lemma GetHeader_parsed:
  assumes ok: "request_ok p" and buf: "m_pReqBuf r = request_bytes p @ tail" and "tail \<noteq> []"
    and "i < H_TRANSFER_ENCODING" "rq_known p ! i = (len, off)" "off \<noteq> 0"
  shows "LSAPI_GetHeader_r (parsed p r) (int i) = Some (Some (int (rq_http_pos p) + off),
    (parsed p r)\<lparr>m_pReqBuf := (m_pReqBuf r)[rq_http_pos p + nat off + len := 0]\<rparr>)"
proof -
  have a: "area_in off (int len) (int (length (rq_http p)))"
    by (rule rq_known_area [OF ok assms(4,5)])
  let ?q = "int (rq_http_pos p) + off + int len"
  have q: "0 \<le> ?q" "nat ?q = rq_http_pos p + nat off + len"
    using a by (auto simp: area_in_def nat_add_distrib)
  moreover have "nat ?q < length (request_bytes p @ tail)"
    using a assms(3) q(2) length_request_bytes [OF ok] by (cases tail) (auto simp: rq_total_def area_in_def)
  ultimately have "terminate_at ?q (request_bytes p @ tail) =
      Some ((request_bytes p @ tail)[rq_http_pos p + nat off + len := 0])"
    by (simp only: terminate_at_eq)
  then show ?thesis
    using assms(4-6) rq_headerOff [OF ok, of i tail] rq_headerLen [OF ok, of i tail]
    by (simp add: LSAPI_GetHeader_r_def buf)
qed

lemma GetHeader_absent:
  assumes "request_ok p" "m_pReqBuf r = request_bytes p @ tail"
    and "i \<le> H_TRANSFER_ENCODING" "snd (rq_known p ! i) = 0"
  shows "LSAPI_GetHeader_r (parsed p r) (int i) = Some (None, parsed p r)"
  using assms rq_headerOff [OF assms(1), of i tail] by (simp add: LSAPI_GetHeader_r_def)

lemma GetHeader_value:
  assumes "request_ok p" "m_pReqBuf r = request_bytes p @ tail" "tail \<noteq> []"
    and "i < H_TRANSFER_ENCODING" "rq_known p ! i = (len, off)" "off \<noteq> 0"
    and "v = mem_read (nat off) len (rq_http p)" "0 \<notin> set v"
  shows "\<exists>q r'. LSAPI_GetHeader_r (parsed p r) (int i) = Some (Some q, r') \<and> c_string_at q (m_pReqBuf r') = Some v"
proof -
  have a: "area_in off (int len) (int (length (rq_http p)))"
    by (rule rq_known_area [OF assms(1,4,5)])
  let ?q = "int (rq_http_pos p) + off"
  have n: "nat ?q = rq_http_pos p + nat off" using a by (simp add: area_in_def nat_add_distrib)
  have "load ?q len (request_bytes p @ tail) = Some v"
    using rq_http_area [OF assms(1) a, of tail] assms(7) by simp
  moreover have "nat ?q + len < length (request_bytes p @ tail)"
    using a n assms(3) length_request_bytes [OF assms(1)] by (cases tail) (auto simp: rq_total_def area_in_def)
  ultimately have "c_string_at ?q ((request_bytes p @ tail)[nat ?q + len := 0]) = Some v"
    using assms(8) by (rule c_string_terminated)
  with GetHeader_parsed [OF assms(1-6)] show ?thesis
    by (simp add: assms(2) n)
qed

subsection \<open>Properties\<close>

text \<open>A small packet: one environment entry, the header Host and one header without an index.\<close>

definition sample_packet :: request_packet where
  "sample_packet =
    \<lparr>rq_special = [], rq_env = [([0x41], [0x62, 0x63])], rq_scriptFile = 49, rq_scriptName = 49,
     rq_queryString = 49, rq_method = 49,
     rq_known = [(0, 0), (0, 0), (0, 0), (0, 0), (0, 0), (0, 0), (0, 0), (0, 0), (0, 0), (0, 0), (3, 2), (0, 0),
       (0, 0), (0, 0), (0, 0), (0, 0), (0, 0), (0, 0), (0, 0), (0, 0), (0, 0), (0, 0), (0, 0), (0, 0), (0, 0)],
     rq_unknown = [(0, 1, 2, 3)], rq_http = [0x58, 0x3a, 0x61, 0x62, 0x63, 0x0a], rq_bodyLen = 0\<rparr>"

definition sample_request :: LSAPI_Request where
  "sample_request = zero_request\<lparr>m_pReqBuf := request_bytes sample_packet @ replicate 1024 0\<rparr>"

lemma sample_ok: "request_ok sample_packet"
  by (simp add: request_ok_def sample_packet_def rq_total_def rq_http_pos_def rq_unknown_pos_def rq_index_pos_def
      rq_envs_def env_block_def env_ok_def area_in_def int32_range_def)

text \<open>
  C20. Round trip of the request packet: for every well-formed request content, \<open>parseRequest\<close>
  on its encoding (followed by anything, as the buffer is larger than the packet) succeeds
  and sets all pointers, counts and the environment lists to what was encoded, whatever the
  request held before.
\<close>
theorem parseRequest_roundtrip:
  assumes "request_ok p" "m_pReqBuf r = request_bytes p @ tail" "\<And>n. alloc_ok w n" "rq_bodyLen p \<noteq> -2"
  shows "parseRequest r (int (rq_total p)) w = Some (0, parsed p r)"
  using assms by (rule parseRequest_bytes)

theorem parseRequest_roundtrip_witness:
  "request_ok sample_packet \<and> rq_bodyLen sample_packet \<noteq> -2 \<and>
   parseRequest sample_request (int (rq_total sample_packet)) (start_world []) = Some (0, parsed sample_packet sample_request)"
proof -
  have "alloc_ok (start_world []) n" for n by (simp add: start_world_def)
  moreover have "rq_bodyLen sample_packet \<noteq> -2" by (simp add: sample_packet_def)
  moreover have "m_pReqBuf sample_request = request_bytes sample_packet @ replicate 1024 0"
    by (simp add: sample_request_def)
  ultimately show ?thesis
    using parseRequest_roundtrip [OF sample_ok, of sample_request "replicate 1024 0" "start_world []"] sample_ok by simp
qed

text \<open>
  C24. Header lookup: after a packet was parsed, \<open>LSAPI_GetHeader_r\<close> of a known header that is
  present returns a pointer to a C string that is exactly the bytes the packet's index
  delimits, provided that they contain no NUL.
\<close>
theorem GetHeader_correct:
  assumes "request_ok p" "m_pReqBuf r = request_bytes p @ tail" "tail \<noteq> []"
    and "i < H_TRANSFER_ENCODING" "rq_known p ! i = (len, off)" "off \<noteq> 0"
    and "v = mem_read (nat off) len (rq_http p)" "0 \<notin> set v"
  shows "\<exists>q r'. LSAPI_GetHeader_r (parsed p r) (int i) = Some (Some q, r') \<and> c_string_at q (m_pReqBuf r') = Some v"
  using assms by (rule GetHeader_value)

theorem GetHeader_correct_witness:
  "\<exists>q r'. LSAPI_GetHeader_r (parsed sample_packet sample_request) (int 10) = Some (Some q, r') \<and>
    c_string_at q (m_pReqBuf r') = Some [0x61, 0x62, 0x63]"
  by (rule GetHeader_correct [OF sample_ok, of sample_request "replicate 1024 0" 10 3 2])
    (simp_all add: sample_packet_def sample_request_def mem_read_def)

text \<open>
  C25. Environment lookup: for a name that does not start with \<open>HTTP_\<close>, \<open>LSAPI_GetEnv_r\<close> on a
  parsed packet returns a pointer to the value of the first entry of that name, and NULL
  exactly when the packet has none.
\<close>
theorem GetEnv_correct:
  assumes "request_ok p" "m_pReqBuf r = request_bytes p @ tail" "take 5 name \<noteq> ascii ''HTTP_''"
    and "list_all (\<lambda>(k, v). 0 \<notin> set k \<and> 0 \<notin> set v) (rq_env p)"
  shows "\<exists>q. LSAPI_GetEnv_r (parsed p r) name = Some (q, parsed p r) \<and>
    Option.bind q (\<lambda>a. c_string_at a (m_pReqBuf r)) = map_of (rq_env p) name"
  using assms by (rule GetEnv_parsed)

theorem GetEnv_correct_witness:
  "\<exists>q. LSAPI_GetEnv_r (parsed sample_packet sample_request) [0x41] = Some (q, parsed sample_packet sample_request) \<and>
    Option.bind q (\<lambda>a. c_string_at a (m_pReqBuf sample_request)) = map_of (rq_env sample_packet) [0x41]"
  by (rule GetEnv_correct [OF sample_ok, of _ "replicate 1024 0"])
    (simp_all add: sample_packet_def sample_request_def ascii_def)

text \<open>
  C26. Iteration: \<open>LSAPI_ForeachEnv_r\<close> and \<open>LSAPI_ForeachSpecialEnv_r\<close> on a parsed packet call
  the callback on exactly the encoded pairs, in their order and until it returns 0 or less,
  and return what the iteration over the abstract list returns.
\<close>
theorem ForeachEnv_correct:
  assumes "request_ok p" "m_pReqBuf r = request_bytes p @ tail"
  shows "LSAPI_ForeachEnv_r (parsed p r) fn arg = Some (foreach_pairs (rq_env p) (int (length (rq_env p))) fn arg) \<and>
    LSAPI_ForeachSpecialEnv_r (parsed p r) fn arg =
      Some (foreach_pairs (rq_special p) (int (length (rq_special p))) fn arg)"
  by (simp add: ForeachEnv_parsed [OF assms])

theorem ForeachEnv_correct_witness:
  "LSAPI_ForeachEnv_r (parsed sample_packet sample_request) (\<lambda>k v kvs. (1, kvs @ [(k, v)])) [] =
    Some (1, [([0x41], [0x62, 0x63])])"
  using ForeachEnv_correct [OF sample_ok, of sample_request "replicate 1024 0" "\<lambda>k v kvs. (1, kvs @ [(k, v)])" "[]"]
  by (simp add: sample_request_def) (simp add: sample_packet_def)

text \<open>
  A variable name with an underscore behind \<open>HTTP_\<close> matches no header without an index:
  the test \<open>ch != *p || (*p == '_' && ch != '-')\<close> asks the header's character to be both
  \<open>_\<close> and \<open>-\<close>. So \<open>LSAPI_GetEnv_r\<close> never finds a variable such as \<open>HTTP_X_REAL_IP\<close> among
  these headers, although \<open>LSAPI_ForeachHeader_r\<close> announces the header under that name.
\<close>
theorem GetHeaderVar_no_underscore:
  assumes "var_name_matches buf p n name = Some True"
  shows "0x5f \<notin> set name"
  using assms
  by (induction buf p n name rule: var_name_matches.induct)
    (auto split: bind_splits if_splits simp: Let_def)

theorem GetHeaderVar_no_underscore_witness:
  "var_name_matches [0x78, 0x31] 0 2 [0x58, 0x31] = Some True \<and> (0x5f :: byte) \<notin> set [0x58, 0x31]"
proof -
  have "var_name_matches [0x78, 0x31] 0 2 [0x58, 0x31] = Some True"
    by code_simp
  with GetHeaderVar_no_underscore [OF this] show ?thesis by simp
qed

end
