(* ===== verification/Lsapi_Request_Safety.thy ===== *)
theory Lsapi_Request_Safety
  imports Lsapi_Request_Parse
begin

text \<open>
  Memory safety of the request parser on arbitrary packets. The code rejects most malformed
  packets; what it does not check are negative counts, negative offsets and lengths of
  headers. With these excluded, \<open>parseRequest\<close> never leaves its buffers, and when it accepts
  a packet every pointer it stores lies inside the packet.
\<close>

subsection \<open>The environment blocks\<close>

definition kv_in :: "int \<Rightarrow> LSAPI_key_value_pair \<Rightarrow> bool" where
  "kv_in pEnd kv \<longleftrightarrow> 0 \<le> pKey kv \<and> 0 \<le> keyLen kv \<and> 0 \<le> valLen kv \<and>
    pValue kv = pKey kv + keyLen kv + 1 \<and> pValue kv + valLen kv + 1 \<le> pEnd"

definition slots_in :: "int \<Rightarrow> nat \<Rightarrow> LSAPI_key_value_pair option list \<Rightarrow> bool" where
  "slots_in pEnd n envs \<longleftrightarrow> (\<forall>j < n. \<exists>kv. envs ! j = Some kv \<and> kv_in pEnd kv)"

lemma load_ok: "0 \<le> p \<Longrightarrow> nat p + n \<le> length buf \<Longrightarrow> \<exists>bs. load p n buf = Some bs \<and> length bs = n"
  by (simp add: load_def)

lemma parseEnv_loop_safe:
  assumes "0 \<le> pBegin" "pBegin + 4 \<le> int (length buf)" "pEnd + 4 \<le> int (length buf)"
    and "int i \<le> count" "count \<le> int (length envs)" "slots_in pEnd i envs"
  shows "\<exists>rc envs' p'. parseEnv_loop buf count pEnd i envs pBegin = Some (rc, envs', p') \<and>
    (rc = 0 \<or> rc = -1) \<and> length envs' = length envs \<and>
    (rc = 0 \<longrightarrow> pBegin + 4 \<le> p' \<and> p' \<le> max pEnd pBegin + 4 \<and> slots_in pEnd (nat count) envs')"
  using assms
proof (induction "nat (pEnd - pBegin)" arbitrary: pBegin i envs rule: less_induct)
  case less
  have "nat pBegin + 4 \<le> length buf" using less.prems(1,2) by linarith
  from load_ok [OF less.prems(1) this] obtain b where b: "load pBegin 4 buf = Some b" by blast
  let ?kl = "be16 (b ! 0) (b ! 1)" and ?vl = "be16 (b ! 2) (b ! 3)"
  show ?case
  proof (cases "int i \<noteq> count \<and> \<not> pEnd - pBegin < 4 \<and> \<not> pBegin + 4 + ?kl + ?vl > pEnd \<and> ?kl \<noteq> 0 \<and> ?vl \<noteq> 0")
    case False
    then show ?thesis
      using b less.prems by (subst parseEnv_loop.simps) (auto simp: Let_def)
  next
    case True
    let ?p = "pBegin + 4 + ?kl + ?vl"
    let ?e = "\<lparr>pKey = pBegin + 4, pValue = pBegin + 4 + ?kl, keyLen = ?kl - 1, valLen = ?vl - 1\<rparr>"
    have pos: "0 < ?kl" "0 < ?vl" using True be16_nonneg by (metis order_le_less)+
    have i: "i < length envs" using True less.prems(4,5) by linarith
    have e: "kv_in pEnd ?e" using True pos less.prems(1) by (simp add: kv_in_def)
    have s: "slots_in pEnd (i + 1) (envs[i := Some ?e])"
      using less.prems(6) e i by (auto simp: slots_in_def less_Suc_eq nth_list_update)
    have "nat (pEnd - ?p) < nat (pEnd - pBegin)" using True pos by linarith
    from less.hyps [OF this, of "i + 1" "envs[i := Some ?e]"] True pos less.prems s
    have "\<exists>rc envs' p'. parseEnv_loop buf count pEnd (i + 1) (envs[i := Some ?e]) ?p = Some (rc, envs', p') \<and>
      (rc = 0 \<or> rc = -1) \<and> length envs' = length envs \<and>
      (rc = 0 \<longrightarrow> ?p + 4 \<le> p' \<and> p' \<le> max pEnd ?p + 4 \<and> slots_in pEnd (nat count) envs')"
      by simp
    then obtain rc envs' p' where
      IH: "parseEnv_loop buf count pEnd (i + 1) (envs[i := Some ?e]) ?p = Some (rc, envs', p')"
        "rc = 0 \<or> rc = -1" "length envs' = length envs"
        "rc = 0 \<longrightarrow> ?p + 4 \<le> p' \<and> p' \<le> max pEnd ?p + 4 \<and> slots_in pEnd (nat count) envs'"
      by blast
    moreover have "parseEnv_loop buf count pEnd i envs pBegin =
        parseEnv_loop buf count pEnd (i + 1) (envs[i := Some ?e]) ?p"
      using True b i by (subst parseEnv_loop.simps) (simp add: Let_def)
    moreover have "rc = 0 \<longrightarrow> pBegin + 4 \<le> p' \<and> p' \<le> max pEnd pBegin + 4"
      using IH(4) True pos by linarith
    ultimately show ?thesis by auto
  qed
qed

lemma parseEnv_safe:
  assumes "0 \<le> pBegin" "pBegin + 4 \<le> int (length buf)" "pEnd + 4 \<le> int (length buf)"
    and "0 \<le> count" "count \<le> int (length envs) \<or> count > 8192"
  shows "\<exists>rc envs' p'. parseEnv envs count pBegin pEnd buf = Some (rc, envs', p') \<and>
    (rc = 0 \<or> rc = -1) \<and> length envs' = length envs \<and>
    (rc = 0 \<longrightarrow> pBegin + 4 \<le> p' \<and> p' \<le> max pEnd pBegin + 4 \<and> slots_in pEnd (nat count) envs')"
  using assms parseEnv_loop_safe [of pBegin buf pEnd 0 count envs]
  by (cases "count > 8192") (auto simp: parseEnv_def slots_in_def)

subsection \<open>The header index\<close>

text \<open>The counts of a packet that the code takes for granted.\<close>

definition counts_nonneg :: "byte list \<Rightarrow> bool" where
  "counts_nonneg buf \<longleftrightarrow> (\<exists>cS cE cU hl. hdr_cntSpecialEnv buf = Some cS \<and> 0 \<le> cS \<and>
    hdr_cntEnv buf = Some cE \<and> 0 \<le> cE \<and> hdr_cntUnknownHeaders buf = Some cU \<and> 0 \<le> cU \<and>
    hdr_httpHeaderLen buf = Some hl \<and> 0 \<le> hl)"

text \<open>The only position at which the header index can lie, from the sizes of what follows.\<close>

definition index_at :: "byte list \<Rightarrow> int \<Rightarrow> int" where
  "index_at buf totalLen = totalLen - the (hdr_httpHeaderLen buf) - 16 * the (hdr_cntUnknownHeaders buf) - 152"

definition offsets_nonneg :: "int \<Rightarrow> int \<Rightarrow> byte list \<Rightarrow> bool" where
  "offsets_nonneg idx cnt buf \<longleftrightarrow>
    (\<forall>i < H_TRANSFER_ENCODING. \<forall>off. m_headerOff idx i buf = Some off \<longrightarrow> 0 \<le> off) \<and>
    (\<forall>p \<in> set (unknown_ptrs (idx + 152) cnt). \<forall>f \<in> {nameOff, nameLen, valueOff, valueLen}.
      \<forall>v. f p buf = Some v \<longrightarrow> 0 \<le> v \<and> v \<le> 1073741824)"

definition index_valid :: "int \<Rightarrow> int \<Rightarrow> int \<Rightarrow> byte list \<Rightarrow> bool" where
  "index_valid idx cnt hl buf \<longleftrightarrow>
    (\<forall>i < H_TRANSFER_ENCODING. \<exists>off len. m_headerOff idx i buf = Some off \<and> m_headerLen idx i buf = Some len \<and>
      (off \<noteq> 0 \<longrightarrow> area_in off len hl)) \<and>
    (\<forall>p \<in> set (unknown_ptrs (idx + 152) cnt). \<exists>no nl vo vl.
      nameOff p buf = Some no \<and> nameLen p buf = Some nl \<and> valueOff p buf = Some vo \<and> valueLen p buf = Some vl \<and>
      area_in no nl hl \<and> area_in vo vl hl)"

lemma load_int32_ok: "0 \<le> p \<Longrightarrow> p + 4 \<le> int (length buf) \<Longrightarrow> \<exists>v. load_int32 p buf = Some v \<and> int32_range v"
  by (auto simp: load_int32_def load_def int32_of_range)

lemma load_uint16_ok: "0 \<le> p \<Longrightarrow> p + 2 \<le> int (length buf) \<Longrightarrow> \<exists>v. load_uint16 p buf = Some v \<and> 0 \<le> v \<and> v \<le> 65535"
  by (auto simp: load_uint16_def load_def uint16_of_def)

text \<open>A loop that carries a result code and checks one thing per round.\<close>

definition rc_ok :: "int \<Rightarrow> bool" where
  "rc_ok rc \<longleftrightarrow> rc = 0 \<or> rc = -1"

lemma for_each_check:
  assumes "\<And>i rc. i \<in> set is \<Longrightarrow> rc_ok rc \<Longrightarrow>
      \<exists>rc'. body i rc = Some rc' \<and> rc_ok rc' \<and> (rc' = 0 \<longrightarrow> rc = 0 \<and> P i)"
    and "rc_ok rc"
  shows "\<exists>rc'. for_each body is rc = Some rc' \<and> rc_ok rc' \<and> (rc' = 0 \<longrightarrow> rc = 0 \<and> (\<forall>i \<in> set is. P i))"
  using assms
proof (induction "is" arbitrary: rc)
  case Nil
  then show ?case by simp
next
  case (Cons i "is")
  from Cons.prems(1) [of i rc] Cons.prems(2) obtain rc1 where
    1: "body i rc = Some rc1" "rc_ok rc1" "rc1 = 0 \<longrightarrow> rc = 0 \<and> P i" by auto
  have "\<exists>rc'. for_each body is rc1 = Some rc' \<and> rc_ok rc' \<and> (rc' = 0 \<longrightarrow> rc1 = 0 \<and> (\<forall>i \<in> set is. P i))"
    by (rule Cons.IH [OF Cons.prems(1) 1(2)]) simp_all
  with 1 show ?case by auto
qed

lemma validate_known_safe:
  assumes "0 \<le> idx" "idx + 152 \<le> int (length buf)" "0 \<le> hl" "hl \<le> 65535" "i < H_TRANSFER_ENCODING" "rc_ok rc"
    and "\<And>off. m_headerOff idx i buf = Some off \<Longrightarrow> 0 \<le> off"
  shows "\<exists>rc'. validate_known buf idx hl i rc = Some rc' \<and> rc_ok rc' \<and> (rc' = 0 \<longrightarrow> rc = 0 \<and>
    (\<exists>off len. m_headerOff idx i buf = Some off \<and> m_headerLen idx i buf = Some len \<and> (off \<noteq> 0 \<longrightarrow> area_in off len hl)))"
proof -
  have "0 \<le> idx + 52 + 4 * int i" "idx + 52 + 4 * int i + 4 \<le> int (length buf)" using assms by linarith+
  from load_int32_ok [OF this] obtain off where off: "m_headerOff idx i buf = Some off"
    by (auto simp: m_headerOff_def)
  have "0 \<le> idx + 2 * int i" "idx + 2 * int i + 2 \<le> int (length buf)" using assms by linarith+
  from load_uint16_ok [OF this] obtain len where len: "m_headerLen idx i buf = Some len" "0 \<le> len" "len \<le> 65535"
    by (auto simp: m_headerLen_def)
  have "0 \<le> off" by (rule assms(7) [OF off])
  then show ?thesis
    using off len assms(3,4,6)
    by (auto simp: validate_known_def rc_ok_def c_add_def int32_range_def area_in_def)
qed

lemma validate_unknown_safe:
  assumes "0 \<le> p" "p + 16 \<le> int (length buf)" "0 \<le> hl" "hl \<le> 65535" "rc_ok rc"
    and "\<And>f v. f \<in> {nameOff, nameLen, valueOff, valueLen} \<Longrightarrow> f p buf = Some v \<Longrightarrow> 0 \<le> v \<and> v \<le> 1073741824"
  shows "\<exists>rc'. validate_unknown buf hl p rc = Some rc' \<and> rc_ok rc' \<and> (rc' = 0 \<longrightarrow> rc = 0 \<and>
    (\<exists>no nl vo vl. nameOff p buf = Some no \<and> nameLen p buf = Some nl \<and> valueOff p buf = Some vo \<and>
      valueLen p buf = Some vl \<and> area_in no nl hl \<and> area_in vo vl hl))"
proof -
  obtain no nl vo vl where f: "nameOff p buf = Some no" "nameLen p buf = Some nl" "valueOff p buf = Some vo"
      "valueLen p buf = Some vl"
    using load_int32_ok [of p buf] load_int32_ok [of "p + 4" buf] load_int32_ok [of "p + 8" buf]
      load_int32_ok [of "p + 12" buf] assms(1,2)
    by (auto simp: nameOff_def nameLen_def valueOff_def valueLen_def)
  have "0 \<le> no \<and> no \<le> 1073741824" "0 \<le> nl \<and> nl \<le> 1073741824" "0 \<le> vo \<and> vo \<le> 1073741824" "0 \<le> vl \<and> vl \<le> 1073741824"
    using assms(6) f by blast+
  then show ?thesis
    using f assms(3-5)
    by (auto simp: validate_unknown_def rc_ok_def c_add_def int32_range_def area_in_def)
qed

lemma validateHeaders_safe:
  assumes "hdr_httpHeaderLen buf = Some hl" "hdr_cntUnknownHeaders buf = Some cnt" "0 \<le> hl" "hl \<le> 65535" "0 \<le> cnt"
    and "0 \<le> idx" "idx + 152 + 16 * cnt \<le> int (length buf)" "offsets_nonneg idx cnt buf"
  shows "\<exists>rc. validateHeaders idx (idx + 152) buf = Some rc \<and> rc_ok rc \<and> (rc = 0 \<longrightarrow> index_valid idx cnt hl buf)"
proof -
  let ?K = "\<lambda>i. \<exists>off len. m_headerOff idx i buf = Some off \<and> m_headerLen idx i buf = Some len \<and>
    (off \<noteq> 0 \<longrightarrow> area_in off len hl)"
  let ?U = "\<lambda>p. \<exists>no nl vo vl. nameOff p buf = Some no \<and> nameLen p buf = Some nl \<and> valueOff p buf = Some vo \<and>
      valueLen p buf = Some vl \<and> area_in no nl hl \<and> area_in vo vl hl"
  have "\<exists>rc. for_each (validate_known buf idx hl) [0..<H_TRANSFER_ENCODING] 0 = Some rc \<and> rc_ok rc \<and>
      (rc = 0 \<longrightarrow> 0 = (0 :: int) \<and> (\<forall>i \<in> set [0..<H_TRANSFER_ENCODING]. ?K i))"
    by (rule for_each_check, rule validate_known_safe)
      (use assms in \<open>auto simp: rc_ok_def offsets_nonneg_def\<close>)
  then obtain rc where rc: "for_each (validate_known buf idx hl) [0..<H_TRANSFER_ENCODING] 0 = Some rc" "rc_ok rc"
    "rc = 0 \<longrightarrow> (\<forall>i < H_TRANSFER_ENCODING. ?K i)" by auto
  have "\<exists>rc'. for_each (validate_unknown buf hl) (unknown_ptrs (idx + 152) cnt) rc = Some rc' \<and> rc_ok rc' \<and>
      (rc' = 0 \<longrightarrow> rc = 0 \<and> (\<forall>p \<in> set (unknown_ptrs (idx + 152) cnt). ?U p))"
  proof (rule for_each_check [OF validate_unknown_safe rc(2)])
    fix p assume "p \<in> set (unknown_ptrs (idx + 152) cnt)"
    then obtain j where "j < nat cnt" "p = idx + 152 + 16 * int j" by (auto simp: unknown_ptrs_def)
    with assms(5-7) show "0 \<le> p" "p + 16 \<le> int (length buf)" by linarith+
  qed (use assms(3,4,8) in \<open>auto simp: offsets_nonneg_def\<close>)
  with rc show ?thesis
    by (auto simp: validateHeaders_def assms(1,2) index_valid_def)
qed

subsection \<open>Changes behind the index\<close>

text \<open>The accessors write behind the header index only; what lies before is not affected.\<close>

definition same_below :: "int \<Rightarrow> byte list \<Rightarrow> byte list \<Rightarrow> bool" where
  "same_below q buf buf' \<longleftrightarrow> length buf = length buf' \<and> take (nat q) buf = take (nat q) buf'"

lemma same_below_update: "0 \<le> q \<Longrightarrow> q \<le> p \<Longrightarrow> same_below q buf (buf[nat p := b])"
  by (simp add: same_below_def)

lemma same_below_load:
  assumes "same_below q buf buf'" "p + int n \<le> q"
  shows "load p n buf' = load p n buf"
proof -
  have "take n (drop (nat p) b) = take n (drop (nat p) (take (nat q) b))" if "0 \<le> p" for b :: "byte list"
    using that assms(2) by (simp add: drop_take min_def nat_diff_distrib') linarith
  then show ?thesis
    using assms(1) unfolding same_below_def load_def mem_read_def by metis
qed

lemma same_below_fields:
  assumes "same_below q buf buf'" "idx + 152 + 16 * cnt \<le> q" "44 \<le> q" "0 \<le> cnt"
  shows "i \<le> 24 \<Longrightarrow> m_headerOff idx i buf' = m_headerOff idx i buf"
    and "i \<le> 24 \<Longrightarrow> m_headerLen idx i buf' = m_headerLen idx i buf"
    and "p \<in> set (unknown_ptrs (idx + 152) cnt) \<Longrightarrow> nameOff p buf' = nameOff p buf"
    and "p \<in> set (unknown_ptrs (idx + 152) cnt) \<Longrightarrow> nameLen p buf' = nameLen p buf"
    and "p \<in> set (unknown_ptrs (idx + 152) cnt) \<Longrightarrow> valueOff p buf' = valueOff p buf"
    and "p \<in> set (unknown_ptrs (idx + 152) cnt) \<Longrightarrow> valueLen p buf' = valueLen p buf"
    and "hdr_httpHeaderLen buf' = hdr_httpHeaderLen buf" "hdr_cntUnknownHeaders buf' = hdr_cntUnknownHeaders buf"
    and "hdr_cntEnv buf' = hdr_cntEnv buf" "hdr_cntSpecialEnv buf' = hdr_cntSpecialEnv buf"
  using assms(2-4)
  by (auto simp: m_headerOff_def m_headerLen_def nameOff_def nameLen_def valueOff_def valueLen_def
      hdr_httpHeaderLen_def hdr_cntUnknownHeaders_def hdr_cntEnv_def hdr_cntSpecialEnv_def unknown_ptrs_def
      load_int32_def load_uint16_def intro!: arg_cong [of _ _ "map_option _"] same_below_load [OF assms(1)])

lemma same_below_index_valid:
  assumes "same_below q buf buf'" "idx + 152 + 16 * cnt \<le> q" "44 \<le> q" "0 \<le> cnt" "index_valid idx cnt hl buf"
  shows "index_valid idx cnt hl buf'"
  using assms(5) unfolding index_valid_def
  by (simp add: same_below_fields [OF assms(1-4)])

subsection \<open>The parser\<close>

definition request_wf :: "int \<Rightarrow> LSAPI_Request \<Rightarrow> bool" where
  "request_wf totalLen r \<longleftrightarrow> (\<exists>idx cnt hl cE cS.
    hdr_httpHeaderLen (m_pReqBuf r) = Some hl \<and> hdr_cntUnknownHeaders (m_pReqBuf r) = Some cnt \<and>
    hdr_cntEnv (m_pReqBuf r) = Some cE \<and> hdr_cntSpecialEnv (m_pReqBuf r) = Some cS \<and>
    0 \<le> hl \<and> 0 \<le> cnt \<and> 44 \<le> idx \<and>
    m_pHeaderIndex r = Some idx \<and> m_pUnknownHeader r = Some (idx + 152) \<and>
    m_pHttpHeader r = Some (idx + 152 + 16 * cnt) \<and> idx + 152 + 16 * cnt + hl = totalLen \<and>
    totalLen < int (length (m_pReqBuf r)) \<and>
    index_valid idx cnt hl (m_pReqBuf r) \<and>
    slots_in totalLen (nat cS) (m_pSpecialEnvList r) \<and> slots_in totalLen (nat cE) (m_pEnvList r) \<and>
    nat cS \<le> length (m_pSpecialEnvList r) \<and> nat cE \<le> length (m_pEnvList r) \<and>
    (\<forall>q \<in> {m_pScriptFile r, m_pScriptName r, m_pQueryString r, m_pRequestMethod r}.
      \<exists>o'. q = Some o' \<and> 0 \<le> o' \<and> o' < totalLen))"

lemma GetHeader_wf:
  assumes "request_wf totalLen r" "j < int H_TRANSFER_ENCODING"
  shows "\<exists>q r'. LSAPI_GetHeader_r r j = Some (q, r') \<and> request_wf totalLen r' \<and> r' = r\<lparr>m_pReqBuf := m_pReqBuf r'\<rparr> \<and>
    (\<forall>a. q = Some a \<longrightarrow> 0 \<le> a \<and> a \<le> totalLen \<and> (\<exists>s. c_string_at a (m_pReqBuf r') = Some s))"
proof (cases "j < 0")
  case True
  then have "LSAPI_GetHeader_r r j = Some (None, r)" by (simp add: LSAPI_GetHeader_r_def)
  with assms(1) show ?thesis by simp
next
  case False
  from assms(1) obtain idx cnt hl cE cS where w:
    "hdr_httpHeaderLen (m_pReqBuf r) = Some hl" "hdr_cntUnknownHeaders (m_pReqBuf r) = Some cnt"
    "hdr_cntEnv (m_pReqBuf r) = Some cE" "hdr_cntSpecialEnv (m_pReqBuf r) = Some cS"
    "0 \<le> hl" "0 \<le> cnt" "44 \<le> idx" "m_pHeaderIndex r = Some idx" "m_pUnknownHeader r = Some (idx + 152)"
    "m_pHttpHeader r = Some (idx + 152 + 16 * cnt)" "idx + 152 + 16 * cnt + hl = totalLen"
    "totalLen < int (length (m_pReqBuf r))" "index_valid idx cnt hl (m_pReqBuf r)"
    "slots_in totalLen (nat cS) (m_pSpecialEnvList r)" "slots_in totalLen (nat cE) (m_pEnvList r)"
    "nat cS \<le> length (m_pSpecialEnvList r)" "nat cE \<le> length (m_pEnvList r)"
    "\<forall>q \<in> {m_pScriptFile r, m_pScriptName r, m_pQueryString r, m_pRequestMethod r}.
      \<exists>o'. q = Some o' \<and> 0 \<le> o' \<and> o' < totalLen"
    unfolding request_wf_def by blast
  have "nat j < H_TRANSFER_ENCODING" using False assms(2) by simp
  with w(13) obtain off len where i: "m_headerOff idx (nat j) (m_pReqBuf r) = Some off"
    "m_headerLen idx (nat j) (m_pReqBuf r) = Some len" "off \<noteq> 0 \<longrightarrow> area_in off len hl"
    unfolding index_valid_def by blast
  show ?thesis
  proof (cases "off = 0")
    case True
    then have "LSAPI_GetHeader_r r j = Some (None, r)"
      using False assms(2) i w(8) by (simp add: LSAPI_GetHeader_r_def)
    with assms(1) show ?thesis by simp
  next
    case off: False
    let ?a = "idx + 152 + 16 * cnt + off" and ?buf = "(m_pReqBuf r)[nat (idx + 152 + 16 * cnt + off + len) := 0]"
    let ?r = "r\<lparr>m_pReqBuf := ?buf\<rparr>"
    have a: "area_in off len hl" using i(3) off by simp
    have t: "nat (?a + len) < length (m_pReqBuf r)" using a w(5-7,11,12) unfolding area_in_def by linarith
    have g: "LSAPI_GetHeader_r r j = Some (Some ?a, ?r)"
      using False assms(2) i off w(7,8,10) terminate_at_eq [OF _ t] a w(6)
      by (simp add: LSAPI_GetHeader_r_def area_in_def)
    have sb: "same_below (idx + 152 + 16 * cnt) (m_pReqBuf r) ?buf"
      using a w(6,7) by (intro same_below_update) (simp_all add: area_in_def)
    have f: "hdr_httpHeaderLen ?buf = Some hl" "hdr_cntUnknownHeaders ?buf = Some cnt" "hdr_cntEnv ?buf = Some cE"
      "hdr_cntSpecialEnv ?buf = Some cS" "index_valid idx cnt hl ?buf"
      using same_below_fields(7-10) [OF sb, of idx cnt] same_below_index_valid [OF sb, of idx cnt hl] w(1-4,6,7,13) by auto
    have "request_wf totalLen ?r"
      unfolding request_wf_def
      by (rule exI [of _ idx], rule exI [of _ cnt], rule exI [of _ hl], rule exI [of _ cE], rule exI [of _ cS])
        (use w f in simp)
    moreover have "0 \<in> set (drop (nat ?a) ?buf)"
    proof -
      have n: "nat (?a + len) = nat ?a + nat len" using a w(6,7) by (simp add: area_in_def nat_add_distrib)
      have "drop (nat ?a) ?buf ! nat len = 0" using t n by simp
      moreover have "nat len < length (drop (nat ?a) ?buf)" using t n by simp
      ultimately show ?thesis by (metis nth_mem)
    qed
    then have "\<exists>s. c_string_at ?a ?buf = Some s" using a w(6,7) by (simp add: c_string_at_def area_in_def)
    ultimately show ?thesis
      using g a w(5-7,11) by (auto simp: area_in_def)
  qed
qed

lemma allocateEnvList_length:
  assumes "0 \<le> cnt" "(rc, L) = (if int (length envs) < cnt then allocateEnvList envs cnt w else (0, envs))"
  shows "rc = -1 \<or> (rc = 0 \<and> cnt \<le> int (length L))"
  using assms by (auto simp: allocateEnvList_def split: if_splits)

lemma parseRequest_env_safe:
  assumes "counts_nonneg (m_pReqBuf r)" "hdr_cntSpecialEnv (m_pReqBuf r) = Some cS" "hdr_cntEnv (m_pReqBuf r) = Some cE"
    and "0 \<le> totalLen" "totalLen + 1024 \<le> int (length (m_pReqBuf r))"
  shows "\<exists>rc S E p. parseRequest_env r totalLen w = Some (rc, r\<lparr>m_pSpecialEnvList := S, m_pEnvList := E\<rparr>, p) \<and> rc_ok rc \<and>
    (rc = 0 \<longrightarrow> 44 \<le> p \<and> slots_in totalLen (nat cS) S \<and> slots_in totalLen (nat cE) E \<and>
      nat cS \<le> length S \<and> nat cE \<le> length E)"
proof -
  let ?buf = "m_pReqBuf r"
  have c: "0 \<le> cS" "0 \<le> cE" using assms(1-3) by (auto simp: counts_nonneg_def)
  obtain rc1 S where S: "(if int (length (m_pSpecialEnvList r)) < cS then allocateEnvList (m_pSpecialEnvList r) cS w
      else (0, m_pSpecialEnvList r)) = (rc1, S)" by (metis surj_pair)
  obtain rc2 E where E: "(if int (length (m_pEnvList r)) < cE then allocateEnvList (m_pEnvList r) cE w
      else (0, m_pEnvList r)) = (rc2, E)" by (metis surj_pair)
  note ls = allocateEnvList_length [OF c(1) S [symmetric]] allocateEnvList_length [OF c(2) E [symmetric]]
  have comm: "r\<lparr>m_pEnvList := E, m_pSpecialEnvList := S\<rparr> = r\<lparr>m_pSpecialEnvList := S, m_pEnvList := E\<rparr>" for S E
    by simp
  have eq: "parseRequest_env r totalLen w =
    (if rc1 = -1 then Some (-1, r\<lparr>m_pSpecialEnvList := S, m_pEnvList := m_pEnvList r\<rparr>, 44)
     else if rc2 = -1 then Some (-1, r\<lparr>m_pSpecialEnvList := S, m_pEnvList := E\<rparr>, 44)
     else do {
       (rc, S', p) \<leftarrow> parseEnv S cS 44 totalLen ?buf;
       (if rc = -1 then Some (-1, r\<lparr>m_pSpecialEnvList := S', m_pEnvList := E\<rparr>, p)
        else do {
          (rc, E', p) \<leftarrow> parseEnv E cE p totalLen ?buf;
          Some (rc, r\<lparr>m_pSpecialEnvList := S', m_pEnvList := E'\<rparr>, p) }) })"
    unfolding parseRequest_env_def Let_def
    by (simp add: S E comm assms(2,3) cong: if_cong split del: if_split)
  show ?thesis
  proof (cases "rc1 = -1")
    case True
    show ?thesis
      by (rule exI [of _ "-1"], rule exI [of _ S], rule exI [of _ "m_pEnvList r"], rule exI [of _ 44])
        (simp add: eq rc_ok_def True)
  next
    case rc1: False
    show ?thesis
    proof (cases "rc2 = -1")
      case True
      then show ?thesis
        using rc1 by (intro exI [of _ "-1"] exI [of _ S] exI [of _ E] exI [of _ 44]) (simp add: eq rc_ok_def)
    next
      case rc2: False
      from parseEnv_safe [of 44 ?buf totalLen cS S] obtain rc3 S' p3 where
        p3: "parseEnv S cS 44 totalLen ?buf = Some (rc3, S', p3)" "rc3 = 0 \<or> rc3 = -1" "length S' = length S"
          "rc3 = 0 \<longrightarrow> 48 \<le> p3 \<and> p3 \<le> max totalLen 44 + 4 \<and> slots_in totalLen (nat cS) S'"
        using assms(4,5) c ls(1) rc1 by auto
      show ?thesis
      proof (cases "rc3 = 0")
        case False
        then show ?thesis
          using rc1 rc2 p3(1,2)
          by (intro exI [of _ "-1"] exI [of _ S'] exI [of _ E] exI [of _ p3]) (auto simp: eq rc_ok_def)
      next
        case True
        have "p3 + 4 \<le> int (length ?buf)" using p3(4) True assms(4,5) by (auto simp: max_def split: if_splits)
        from parseEnv_safe [OF _ this, of totalLen cE E] obtain rc4 E' p4 where
          p4: "parseEnv E cE p3 totalLen ?buf = Some (rc4, E', p4)" "rc4 = 0 \<or> rc4 = -1" "length E' = length E"
            "rc4 = 0 \<longrightarrow> p3 + 4 \<le> p4 \<and> p4 \<le> max totalLen p3 + 4 \<and> slots_in totalLen (nat cE) E'"
          using assms(4,5) c ls(2) rc2 p3 True by auto
        have env: "parseRequest_env r totalLen w = Some (rc4, r\<lparr>m_pSpecialEnvList := S', m_pEnvList := E'\<rparr>, p4)"
          using rc1 rc2 p3(1) True p4(1) by (simp add: eq)
        have "nat cS \<le> length S'" "nat cE \<le> length E'"
          using ls rc1 rc2 p3(3) p4(3) by auto
        moreover have "rc4 = 0 \<longrightarrow> 44 \<le> p4" using p3(4) p4(4) True by auto
        ultimately show ?thesis
          using env p3(4) p4(2,4) True
          by - (rule exI [of _ rc4], rule exI [of _ S'], rule exI [of _ E'], rule exI [of _ p4], simp add: rc_ok_def)
      qed
    qed
  qed
qed

lemma parseRequest_safe_aux:
  assumes flag: "load 3 1 (m_pReqBuf r) = Some [f]" "f AND LSAPI_ENDIAN_BIT = 0"
    and cn: "counts_nonneg (m_pReqBuf r)"
    and len: "0 \<le> totalLen" "totalLen \<le> 65535" "totalLen + 1024 \<le> int (length (m_pReqBuf r))"
    and cnt: "hdr_cntUnknownHeaders (m_pReqBuf r) = Some cnt"
    and nonneg: "offsets_nonneg (index_at (m_pReqBuf r) totalLen) cnt (m_pReqBuf r)"
  shows "\<exists>rc r'. parseRequest r totalLen w = Some (rc, r') \<and> rc_ok rc \<and> (rc = 0 \<longrightarrow> request_wf totalLen r')"
proof -
  let ?buf = "m_pReqBuf r"
  obtain cS cE hl where c: "hdr_cntSpecialEnv ?buf = Some cS" "0 \<le> cS" "hdr_cntEnv ?buf = Some cE" "0 \<le> cE"
    "0 \<le> cnt" "hdr_httpHeaderLen ?buf = Some hl" "0 \<le> hl"
    using cn cnt by (auto simp: counts_nonneg_def)
  obtain rc1 S E p where e: "parseRequest_env r totalLen w = Some (rc1, r\<lparr>m_pSpecialEnvList := S, m_pEnvList := E\<rparr>, p)"
    "rc_ok rc1" "rc1 = 0 \<longrightarrow> 44 \<le> p \<and> slots_in totalLen (nat cS) S \<and> slots_in totalLen (nat cE) E \<and>
      nat cS \<le> length S \<and> nat cE \<le> length E"
    using parseRequest_env_safe [OF cn c(1,3) len(1,3), of w] by blast
  have b: "44 \<le> int (length ?buf)" using len by simp
  obtain sf sn qs rm bl where o: "hdr_scriptFileOff ?buf = Some sf" "hdr_scriptNameOff ?buf = Some sn"
    "hdr_queryStringOff ?buf = Some qs" "hdr_requestMethodOff ?buf = Some rm" "hdr_reqBodyLen ?buf = Some bl"
    using load_int32_ok [of 16 ?buf] load_int32_ok [of 20 ?buf] load_int32_ok [of 24 ?buf] load_int32_ok [of 28 ?buf]
      load_int32_ok [of 12 ?buf] b
    by (auto simp: hdr_scriptFileOff_def hdr_scriptNameOff_def hdr_queryStringOff_def hdr_requestMethodOff_def
        hdr_reqBodyLen_def)
  let ?idx = "(p + 7) div 8 * 8" and ?r0 = "r\<lparr>m_pSpecialEnvList := S, m_pEnvList := E\<rparr>"
  let ?r1 = "?r0\<lparr>m_pScriptFile := Some sf, m_pScriptName := Some sn, m_pQueryString := Some qs, m_pRequestMethod := Some rm\<rparr>"
  let ?r2 = "?r1\<lparr>m_pHeaderIndex := Some ?idx, m_pUnknownHeader := Some (?idx + 152),
     m_pHttpHeader := Some (?idx + 152 + 16 * cnt)\<rparr>"
  let ?off = "sf < 0 \<or> sf \<ge> totalLen \<or> sn < 0 \<or> sn \<ge> totalLen \<or> qs < 0 \<or> qs \<ge> totalLen \<or> rm < 0 \<or> rm \<ge> totalLen"
  let ?lay = "?idx + 152 + 16 * cnt + hl \<noteq> totalLen"
  have r: "r\<lparr>m_pReqBuf := ?buf\<rparr> = r" "?r2\<lparr>m_pReqBuf := ?buf\<rparr> = ?r2" by simp_all
  have eq: "parseRequest r totalLen w =
    (if rc1 = -1 then Some (-1, ?r0) else if ?off then Some (-1, ?r0) else if ?lay then Some (-1, ?r2)
     else do {
       rc \<leftarrow> validateHeaders ?idx (?idx + 152) ?buf;
       (if rc = -1 then Some (-1, ?r2)
        else if bl = -2 then map_option (\<lambda>(_, r). (0, r)) (parseContentLenFromHeader (?r2\<lparr>m_reqBodyLen := bl\<rparr>))
        else Some (0, ?r2\<lparr>m_reqBodyLen := bl\<rparr>)) })"
    unfolding parseRequest_def Let_def
    using flag by (simp add: r e(1) o c cnt parseRequest_offsets_def parseRequest_layout_def Let_def cong: if_cong)
  show ?thesis
  proof (cases "rc1 = -1 \<or> ?off \<or> ?lay")
    case True
    then show ?thesis by (auto simp: eq rc_ok_def)
  next
    case False
    then have l: "?idx + 152 + 16 * cnt + hl = totalLen" and rc1: "rc1 = 0" using e(2) by (auto simp: rc_ok_def)
    have i: "44 \<le> ?idx" using e(3) rc1 by linarith
    have "index_at ?buf totalLen = ?idx" using l by (simp add: index_at_def c(6) cnt)
    with nonneg have "offsets_nonneg ?idx cnt ?buf" by simp
    moreover have "hl \<le> 65535" "?idx + 152 + 16 * cnt \<le> int (length ?buf)" using l i c(5,7) len by linarith+
    ultimately obtain rc where v: "validateHeaders ?idx (?idx + 152) ?buf = Some rc" "rc_ok rc"
      "rc = 0 \<longrightarrow> index_valid ?idx cnt hl ?buf"
      using validateHeaders_safe [OF c(6) cnt c(7) _ c(5), of ?idx] i by auto
    show ?thesis
    proof (cases "rc = 0")
      case False
      with v have "rc = -1" by (simp add: rc_ok_def)
      with \<open>\<not> (rc1 = -1 \<or> ?off \<or> ?lay)\<close> v(1) show ?thesis by (simp add: eq rc_ok_def)
    next
      case True
      have wf: "request_wf totalLen (?r2\<lparr>m_reqBodyLen := bl\<rparr>)"
        unfolding request_wf_def
        by (rule exI [of _ ?idx], rule exI [of _ cnt], rule exI [of _ hl], rule exI [of _ cE], rule exI [of _ cS])
          (use c cnt i l len v True e(3) rc1 \<open>\<not> (rc1 = -1 \<or> ?off \<or> ?lay)\<close> in simp)
      show ?thesis
      proof (cases "bl = -2")
        case False
        with \<open>\<not> (rc1 = -1 \<or> ?off \<or> ?lay)\<close> v(1) True wf show ?thesis by (simp add: eq rc_ok_def)
      next
        case bl: True
        obtain q r' where g: "LSAPI_GetHeader_r (?r2\<lparr>m_reqBodyLen := bl\<rparr>) 7 = Some (q, r')" "request_wf totalLen r'"
          "\<forall>a. q = Some a \<longrightarrow> (\<exists>s. c_string_at a (m_pReqBuf r') = Some s)"
          using GetHeader_wf [OF wf, of 7] by auto
        have "\<exists>r''. parseContentLenFromHeader (?r2\<lparr>m_reqBodyLen := bl\<rparr>) = Some (0, r'') \<and> request_wf totalLen r''"
          using g by (cases q) (auto simp: parseContentLenFromHeader_def request_wf_def)
        with \<open>\<not> (rc1 = -1 \<or> ?off \<or> ?lay)\<close> v(1) True bl show ?thesis by (auto simp: eq rc_ok_def)
      qed
    qed
  qed
qed

subsection \<open>Properties\<close>

lemma well_formed_counts: "request_ok p \<Longrightarrow> counts_nonneg (request_bytes p @ tail)"
  by (simp add: counts_nonneg_def rq_hdr)

lemma well_formed_offsets:
  assumes "request_ok p"
  shows "offsets_nonneg (index_at (request_bytes p @ tail) (int (rq_total p))) (int (length (rq_unknown p))) (request_bytes p @ tail)"
proof -
  let ?buf = "request_bytes p @ tail" and ?idx = "int (rq_index_pos p)" and ?hl = "int (length (rq_http p))"
  have idx: "index_at ?buf (int (rq_total p)) = ?idx"
    by (simp add: index_at_def rq_hdr [OF assms] rq_total_def rq_http_pos_def rq_unknown_pos_def)
  have "0 \<le> off" if "i < 24" "m_headerOff ?idx i ?buf = Some off" for i off
    using that rq_headerOff [OF assms, of i tail] rq_known_area [OF assms that(1)]
    by (cases "rq_known p ! i") (auto simp: area_in_def)
  moreover have "0 \<le> v \<and> v \<le> 1073741824"
    if q: "q \<in> set (unknown_ptrs (?idx + 152) (int (length (rq_unknown p))))"
      and f: "f \<in> {nameOff, nameLen, valueOff, valueLen}" "f q ?buf = Some v" for q f v
  proof -
    obtain j where j: "j < length (rq_unknown p)" "q = int (rq_unknown_pos p) + 16 * int j"
      using q by (auto simp: unknown_ptrs_def rq_unknown_pos_def)
    obtain no nl vo vl where u: "rq_unknown p ! j = (no, nl, vo, vl)" by (cases "rq_unknown p ! j")
    have "(no, nl, vo, vl) \<in> set (rq_unknown p)" using j(1) u by (metis nth_mem)
    then have "area_in no nl ?hl" "area_in vo vl ?hl" using assms by (auto simp: request_ok_def list_all_iff)
    then show ?thesis
      using f rq_unknown_fields [OF assms j(1) u, of tail] rq_pos_bound(2) [OF assms]
      by (auto simp: j(2) area_in_def)
  qed
  ultimately show ?thesis unfolding idx offsets_nonneg_def by blast
qed





end
