(* ===== verification/Lsapi_Request_Body.thy ===== *)
theory Lsapi_Request_Body
  imports Lsapi_Request_Safety
begin

text \<open>
  The readers of the request body. What is still to be read is the part of the request
  buffer between \<open>m_bufProcessed\<close> and \<open>m_bufRead\<close> followed by what the connection delivers;
  every reader takes its result from the front of that sequence.
\<close>

definition body_stream :: "LSAPI_Request \<Rightarrow> lsapi_world \<Rightarrow> byte list" where
  "body_stream r w =
    mem_read (nat (m_bufProcessed r)) (nat (m_bufRead r - m_bufProcessed r)) (m_pReqBuf r) @ rx_avail w"

text \<open>
  The positions are ordered behind the packet, and the buffer holds no more than what is
  left of the body.
\<close>

definition body_wf :: "LSAPI_Request \<Rightarrow> bool" where
  "body_wf r \<longleftrightarrow> (\<exists>packetLen. load_int32 4 (m_pReqBuf r) = Some packetLen \<and> 8 \<le> packetLen \<and>
    packetLen \<le> m_bufProcessed r \<and> m_bufProcessed r \<le> m_bufRead r \<and> m_bufRead r \<le> int (length (m_pReqBuf r)) \<and>
    m_bufRead r - m_bufProcessed r \<le> m_reqBodyLen r - m_reqBodyRead r)"

lemma body_stream_empty: "m_bufRead r = m_bufProcessed r \<Longrightarrow> body_stream r w = rx_avail w"
  by (simp add: body_stream_def)

lemma store_load_int32:
  assumes "store p bs buf = Some buf'" "8 \<le> p"
  shows "load_int32 4 buf' = load_int32 4 buf"
proof -
  have "same_below p buf buf'"
    using assms by (auto simp: same_below_def store_def take_mem_write_before split: if_splits)
  from same_below_load [OF this, of 4 4] assms(2) show ?thesis by (simp add: load_int32_def)
qed

text \<open>The refill: the stream stays the same, and afterwards the buffer holds its first \<open>n\<close> bytes.\<close>

lemma readBodyToReqBuf_spec:
  assumes "body_wf r"
  shows "\<exists>n r' w'. readBodyToReqBuf r w = Some (n, r', w') \<and> body_wf r' \<and> body_stream r' w' = body_stream r w \<and>
    m_fd r' = m_fd r \<and> m_reqBodyRead r' = m_reqBodyRead r \<and> m_reqBodyLen r' = m_reqBodyLen r \<and>
    (n > 0 \<longrightarrow> n = m_bufRead r' - m_bufProcessed r') \<and>
    (rx_live w \<and> m_bufRead r = m_bufProcessed r \<and> m_reqBodyRead r < m_reqBodyLen r \<and> rx_avail w \<noteq> [] \<and>
      m_bufRead r' < int (length (m_pReqBuf r')) \<longrightarrow> n > 0)"
proof -
  from assms obtain pl where w: "load_int32 4 (m_pReqBuf r) = Some pl" "8 \<le> pl"
    "pl \<le> m_bufProcessed r" "m_bufProcessed r \<le> m_bufRead r" "m_bufRead r \<le> int (length (m_pReqBuf r))"
    "m_bufRead r - m_bufProcessed r \<le> m_reqBodyLen r - m_reqBodyRead r"
    unfolding body_wf_def by blast
  show ?thesis
  proof (cases "m_bufRead r - m_bufProcessed r > 0")
    case True
    with assms show ?thesis by (simp add: readBodyToReqBuf_def)
  next
    case False
    then have e: "m_bufRead r = m_bufProcessed r" using w(4) by simp
    let ?r = "r\<lparr>m_bufRead := pl, m_bufProcessed := pl\<rparr>"
    let ?n = "min (int (length (m_pReqBuf r)) - pl) (m_reqBodyLen r - m_reqBodyRead r)"
    have n: "0 \<le> ?n" "?n \<le> int (length (m_pReqBuf r)) - pl" "?n \<le> m_reqBodyLen r - m_reqBodyRead r"
      using w e by auto
    obtain res w' where rd: "lsapi_read (nat ?n) w = (res, w')" by (cases "lsapi_read (nat ?n) w")
    show ?thesis
    proof (cases res)
      case (Inl err)
      have "readBodyToReqBuf r w = Some (-1, ?r, w')"
        using False w n rd Inl by (simp add: readBodyToReqBuf_def Let_def)
      moreover have "rx_avail w' = rx_avail w" using rd Inl sock.rd_fail by blast
      moreover have "body_wf ?r" using w e by (auto simp: body_wf_def)
      moreover have "\<not> (rx_live w \<and> 0 < nat ?n \<and> rx_avail w \<noteq> [])"
        using sock.rd_live [of w "nat ?n"] rd Inl by auto
      ultimately show ?thesis using w(2,5) e n by (auto simp: body_stream_empty)
    next
      case (Inr bs)
      have le: "length bs \<le> nat ?n" and av: "rx_avail w = bs @ rx_avail w'"
        using rd Inr sock.rd_le sock.rd_avail by blast+
      then have st: "0 \<le> pl \<and> nat pl + length bs \<le> length (m_pReqBuf r)" using w(2) n by linarith
      let ?buf = "mem_write (nat pl) bs (m_pReqBuf r)"
      let ?r' = "?r\<lparr>m_pReqBuf := ?buf, m_bufRead := pl + int (length bs)\<rparr>"
      have s: "store pl bs (m_pReqBuf r) = Some ?buf" using st by (simp add: store_def)
      have "readBodyToReqBuf r w = Some (int (length bs), ?r', w')"
        using False w n rd Inr s by (simp add: readBodyToReqBuf_def Let_def)
      moreover have "body_wf ?r'"
        using w st le n store_load_int32 [OF s w(2)] by (auto simp: body_wf_def)
      moreover have "body_stream ?r' w' = body_stream r w"
        using e av st by (simp add: body_stream_def mem_read_write)
      moreover have "rx_live w \<and> 0 < nat ?n \<and> rx_avail w \<noteq> [] \<longrightarrow> bs \<noteq> []"
        using sock.rd_live [of w "nat ?n"] rd Inr by auto
      ultimately show ?thesis using w(2,5) e n st by auto
    qed
  qed
qed

text \<open>Taking \<open>n\<close> bytes of what is buffered.\<close>

definition body_skip :: "nat \<Rightarrow> LSAPI_Request \<Rightarrow> LSAPI_Request" where
  "body_skip n r = r\<lparr>m_bufProcessed := m_bufProcessed r + int n, m_reqBodyRead := m_reqBodyRead r + int n\<rparr>"

lemma body_skip_spec:
  assumes "body_wf r" "int n \<le> m_bufRead r - m_bufProcessed r"
  shows "\<exists>bs. load (m_bufProcessed r) n (m_pReqBuf r) = Some bs \<and> length bs = n \<and>
    body_stream r w = bs @ body_stream (body_skip n r) w \<and> body_wf (body_skip n r)"
proof -
  from assms(1) obtain pl where b: "load_int32 4 (m_pReqBuf r) = Some pl" "8 \<le> pl"
    "pl \<le> m_bufProcessed r" "m_bufProcessed r \<le> m_bufRead r" "m_bufRead r \<le> int (length (m_pReqBuf r))"
    "m_bufRead r - m_bufProcessed r \<le> m_reqBodyLen r - m_reqBodyRead r"
    unfolding body_wf_def by blast
  let ?k = "nat (m_bufProcessed r)" and ?m = "nat (m_bufRead r - m_bufProcessed r)"
  have "mem_read ?k n (m_pReqBuf r) @ mem_read (?k + n) (?m - n) (m_pReqBuf r) = mem_read ?k ?m (m_pReqBuf r)"
    using mem_read_append [of ?k n "m_pReqBuf r" "?m - n"] assms(2) by simp
  moreover have "nat (m_bufProcessed r + int n) = ?k + n" "nat (m_bufRead r - (m_bufProcessed r + int n)) = ?m - n"
    using b assms(2) by (simp_all add: nat_add_distrib nat_diff_distrib')
  moreover have "load (m_bufProcessed r) n (m_pReqBuf r) = Some (mem_read ?k n (m_pReqBuf r))"
    using b assms(2) by (simp add: load_def)
  moreover have "body_wf (body_skip n r)"
    using b assms(2) by (auto simp: body_wf_def body_skip_def)
  ultimately show ?thesis
    using b assms(2) load_SomeD [of "m_bufProcessed r" n "m_pReqBuf r"]
    by (simp add: body_stream_def body_skip_def flip: append_assoc)
qed

lemma GetChar_spec:
  assumes "body_wf r" "m_fd r \<noteq> -1"
  shows "\<exists>c r' w'. LSAPI_ReqBodyGetChar_r r w = Some (c, r', w') \<and> body_wf r' \<and>
    (c = -1 \<and> body_stream r' w' = body_stream r w \<or>
     (\<exists>b. c = int (unat b) \<and> body_stream r w = b # body_stream r' w'))"
proof -
  obtain n r1 w1 where 1: "(if m_bufProcessed r \<ge> m_bufRead r then readBodyToReqBuf r w else Some (1, r, w)) = Some (n, r1, w1)"
    "body_wf r1" "body_stream r1 w1 = body_stream r w" "n > 0 \<longrightarrow> 0 < m_bufRead r1 - m_bufProcessed r1"
    using readBodyToReqBuf_spec [OF assms(1), of w] assms(1) by (cases "m_bufProcessed r \<ge> m_bufRead r") auto
  show ?thesis
  proof (cases "n \<le> 0")
    case True
    then have "LSAPI_ReqBodyGetChar_r r w = Some (-1, r1, w1)"
      using 1(1) assms(2) by (simp add: LSAPI_ReqBodyGetChar_r_def split del: if_split)
    with 1 show ?thesis by auto
  next
    case False
    then have "int 1 \<le> m_bufRead r1 - m_bufProcessed r1" using 1(4) by simp
    from body_skip_spec [OF 1(2) this, of w1] obtain bs where
      bs: "load (m_bufProcessed r1) 1 (m_pReqBuf r1) = Some bs" "length bs = 1"
        "body_stream r1 w1 = bs @ body_stream (body_skip 1 r1) w1" "body_wf (body_skip 1 r1)" by blast
    obtain b where b: "bs = [b]" using bs(2) by (cases bs) auto
    have c: "body_skip 1 r1 = r1\<lparr>m_reqBodyRead := m_reqBodyRead r1 + 1, m_bufProcessed := m_bufProcessed r1 + 1\<rparr>"
      by (simp add: body_skip_def)
    have "LSAPI_ReqBodyGetChar_r r w = Some (int (unat b), body_skip 1 r1, w1)"
      using 1(1) assms(2) False bs(1) b unfolding c
      by (simp add: LSAPI_ReqBodyGetChar_r_def split del: if_split)
    with bs 1(3) b show ?thesis by auto
  qed
qed

lemma load_take: "load p n buf = Some xs \<Longrightarrow> load p m buf = Some ys \<Longrightarrow> m \<le> n \<Longrightarrow> ys = take m xs"
  by (auto simp: load_def mem_read_def min_def split: if_splits)

text \<open>A line: at most one line feed, and that at the end.\<close>

definition one_line :: "byte list \<Rightarrow> bool" where
  "one_line bs \<longleftrightarrow> 0x0a \<notin> set (butlast bs)"

abbreviation line_part :: "byte list \<Rightarrow> byte list" where
  "line_part cur \<equiv> (if 0x0a \<in> set cur then takeWhile (\<lambda>b. b \<noteq> 0x0a) cur @ [0x0a] else cur)"

lemma prefix_facts: "\<exists>ys. cur = xs @ ys \<Longrightarrow> length cur = n \<Longrightarrow> length xs \<le> n \<and> xs = take (length xs) cur"
  by auto

lemma line_part_prefix: "\<exists>ys. cur = line_part cur @ ys"
  by (induction cur) auto

lemma line_part_one_line: "one_line (line_part cur)"
proof (cases "0x0a \<in> set cur")
  case True
  have "0x0a \<notin> set (takeWhile (\<lambda>b. b \<noteq> 0x0a) cur)" by (auto dest: set_takeWhileD)
  with True show ?thesis by (simp add: one_line_def butlast_append)
next
  case False
  then show ?thesis by (auto simp: one_line_def dest: in_set_butlastD)
qed

lemma line_part_Nil [simp]: "line_part cur = [] \<longleftrightarrow> cur = []"
  by auto

lemma one_line_append: "0x0a \<notin> set xs \<Longrightarrow> one_line ys \<Longrightarrow> one_line (xs @ ys)"
  by (cases "ys = []") (auto simp: one_line_def butlast_append dest: in_set_butlastD)

lemma GetLine_loop_spec:
  assumes "body_wf r"
  shows "\<exists>line lf r' w'. GetLine_loop left r w = Some (line, lf, r', w') \<and> body_wf r' \<and>
    body_stream r w = line @ body_stream r' w' \<and> length line \<le> left \<and> one_line line \<and>
    (0x0a \<in> set line \<longrightarrow> lf) \<and> (\<not> lf \<longrightarrow> length line = left)"
  using assms
proof (induction left arbitrary: r w rule: less_induct)
  case (less left)
  show ?case
  proof (cases "left = 0")
    case True
    with less.prems show ?thesis
      by (subst GetLine_loop.simps) (auto simp: one_line_def intro: exI [of _ "[]"])
  next
    case left: False
    let ?len = "m_bufRead r - m_bufProcessed r"
    obtain n r1 w1 where 1: "(if ?len \<le> 0 then readBodyToReqBuf r w else Some (?len, r, w)) = Some (n, r1, w1)"
      "body_wf r1" "body_stream r1 w1 = body_stream r w" "n > 0 \<longrightarrow> n = m_bufRead r1 - m_bufProcessed r1"
      using readBodyToReqBuf_spec [OF less.prems, of w] less.prems by (cases "?len \<le> 0") auto
    show ?thesis
    proof (cases "n \<le> 0")
      case True
      have "GetLine_loop left r w = Some ([], True, r1, w1)"
        using left 1(1) True by (subst GetLine_loop.simps) (simp add: Let_def split del: if_split)
      with 1 show ?thesis by (auto simp: one_line_def)
    next
      case n: False
      let ?k = "min (nat n) left"
      have "int ?k \<le> m_bufRead r1 - m_bufProcessed r1" using n 1(4) by simp
      from body_skip_spec [OF 1(2) this] obtain cur where cur: "load (m_bufProcessed r1) ?k (m_pReqBuf r1) = Some cur"
        "length cur = ?k" by blast
      let ?part = "line_part cur" and ?r2 = "body_skip (length (line_part cur)) r1"
      have lp: "length ?part \<le> ?k" "?part = take (length ?part) cur"
        using prefix_facts [of cur ?part] line_part_prefix [of cur] cur(2) by blast+
      have "cur \<noteq> []" using cur(2) n left by auto
      then have pos: "0 < length ?part" by auto
      have "int (length ?part) \<le> m_bufRead r1 - m_bufProcessed r1" using n 1(4) lp(1) by linarith
      from body_skip_spec [OF 1(2) this, of w1] obtain bs where
        bs: "load (m_bufProcessed r1) (length ?part) (m_pReqBuf r1) = Some bs"
          "body_stream r1 w1 = bs @ body_stream ?r2 w1" "body_wf ?r2"
        by blast
      have "bs = take (length ?part) cur"
        by (rule load_take [OF cur(1) bs(1) lp(1)])
      then have s: "body_stream r w = ?part @ body_stream ?r2 w1" using bs(2) 1(3) lp(2) by simp
      have eq: "GetLine_loop left r w =
        (if 0x0a \<in> set cur then Some (?part, True, ?r2, w1)
         else map_option (\<lambda>(bs, f, r, w). (?part @ bs, f, r, w)) (GetLine_loop (left - length ?part) ?r2 w1))"
        using left 1(1) n cur(1)
        by (subst GetLine_loop.simps) (simp add: Let_def body_skip_def cong: if_cong split del: if_split)
      show ?thesis
      proof (cases "0x0a \<in> set cur")
        case True
        then show ?thesis
          using eq s bs(3) lp(1) line_part_one_line [of cur] by (auto split del: if_split)
      next
        case False
        have "left - length ?part < left" using pos left by simp
        from less.IH [OF this bs(3), of w1] obtain line lf r' w' where
          IH: "GetLine_loop (left - length ?part) ?r2 w1 = Some (line, lf, r', w')" "body_wf r'"
            "body_stream ?r2 w1 = line @ body_stream r' w'" "length line \<le> left - length ?part" "one_line line"
            "0x0a \<in> set line \<longrightarrow> lf" "\<not> lf \<longrightarrow> length line = left - length ?part" by blast
        have "GetLine_loop left r w = Some (cur @ line, lf, r', w')" using eq IH(1) False by simp
        moreover have "body_stream r w = (cur @ line) @ body_stream r' w'" using s IH(3) False by simp
        moreover have "one_line (cur @ line)" by (rule one_line_append [OF False IH(5)])
        ultimately show ?thesis using IH False lp(1) by auto
      qed
    qed
  qed
qed

lemma le_diff_plus: "k \<le> n - m \<Longrightarrow> m \<le> n \<Longrightarrow> m + k \<le> (n :: nat)"
  by simp

lemma min_nat_less: "min (nat b) n < n \<Longrightarrow> 0 \<le> b \<Longrightarrow> b = int (min (nat b) n)"
  by (auto simp: min_def split: if_splits)

lemma ReadReqBody_spec:
  assumes wf: "body_wf r" and fd: "m_fd r \<noteq> -1" and "n < 2 ^ 63"
  shows "\<exists>k data r' w'. LSAPI_ReadReqBody_r r n w = Some (k, data, r', w') \<and> body_wf r' \<and>
    body_stream r w = data @ body_stream r' w' \<and> m_reqBodyRead r' = m_reqBodyRead r + int (length data) \<and>
    (k = int (length data) \<or> k = -1 \<and> data = []) \<and>
    length data \<le> min n (nat (m_reqBodyLen r - m_reqBodyRead r)) \<and>
    (rx_live w \<and> min n (nat (m_reqBodyLen r - m_reqBodyRead r)) \<le> length (body_stream r w) \<longrightarrow>
      k = int (length data) \<and> length data = min n (nat (m_reqBodyLen r - m_reqBodyRead r)))"
proof -
  let ?total = "m_reqBodyLen r - m_reqBodyRead r" and ?buffered = "m_bufRead r - m_bufProcessed r"
  from wf obtain pl where b: "8 \<le> pl" "pl \<le> m_bufProcessed r" "m_bufProcessed r \<le> m_bufRead r" "?buffered \<le> ?total"
    unfolding body_wf_def by blast
  show ?thesis
  proof (cases "?total \<le> 0")
    case True
    have "LSAPI_ReadReqBody_r r n w = Some (0, [], r, w)"
      using fd assms(3) True by (simp add: LSAPI_ReadReqBody_r_def)
    with wf True show ?thesis by simp
  next
    case False
    let ?n = "min n (nat ?total)" and ?len = "min (nat ?buffered) (min n (nat ?total))"
    have "int ?len \<le> ?buffered" using b(3) by simp
    from body_skip_spec [OF wf this, of w] obtain bs where
      bs: "load (m_bufProcessed r) ?len (m_pReqBuf r) = Some bs" "length bs = ?len"
        "body_stream r w = bs @ body_stream (body_skip ?len r) w" "body_wf (body_skip ?len r)" by blast
    obtain ds c w' where ds: "read_fully lsapi_read (?n - ?len) w = (ds, c, w')"
      by (cases "read_fully lsapi_read (?n - ?len) w")
    have dl: "length ds \<le> ?n - ?len" "c \<longleftrightarrow> length ds = ?n - ?len" and av: "rx_avail w = ds @ rx_avail w'"
      using sock.read_fully_length [OF ds] sock.read_fully_avail [OF ds] by auto
    let ?r1 = "r\<lparr>m_bufProcessed := m_bufProcessed r + int ?len\<rparr>"
    have load: "(if ?len > 0 then load (m_bufProcessed r) ?len (m_pReqBuf r) else Some []) = Some bs"
      using bs(1,2) by (auto split: if_splits)
    have eq: "LSAPI_ReadReqBody_r r n w =
      (if \<not> c \<and> bs @ ds = [] then Some (-1, [], ?r1, w')
       else Some (int (length (bs @ ds)), bs @ ds, ?r1\<lparr>m_reqBodyRead := m_reqBodyRead r + int (length (bs @ ds))\<rparr>, w'))"
      using fd assms(3) False ds load unfolding LSAPI_ReadReqBody_r_def
      by (simp only: Let_def) (simp cong: if_cong split del: if_split)
    let ?r2 = "?r1\<lparr>m_reqBodyRead := m_reqBodyRead r + int (length (bs @ ds))\<rparr>"
    have full: "?len < ?n \<Longrightarrow> ?buffered = int ?len" using b(3) by (intro min_nat_less) simp_all
    have empty: "ds \<noteq> [] \<Longrightarrow> ?buffered = int ?len"
    proof (rule full)
      assume "ds \<noteq> []"
      then have "0 < length ds" by simp
      from less_le_trans [OF this dl(1)] show "?len < ?n" by (simp only: zero_less_diff)
    qed
    have stream: "body_stream r w = (bs @ ds) @ body_stream ?r2 w'"
    proof (cases "ds = []")
      case True
      with bs(3) av show ?thesis by (simp add: body_stream_def body_skip_def)
    next
      case False
      with empty have "m_bufRead r = m_bufProcessed r + int ?len" by simp
      with bs(3) av show ?thesis by (simp add: body_stream_def body_skip_def)
    qed
    have bound: "length (bs @ ds) \<le> ?n"
    proof -
      have "?len \<le> ?n" by (rule min.cobounded2)
      with dl(1) have "?len + length ds \<le> ?n" by (rule le_diff_plus)
      with bs(2) show ?thesis by simp
    qed
    have wf2: "body_wf ?r2"
    proof (cases "ds = []")
      case True
      then have "?r2 = body_skip ?len r" using bs(2) by (simp add: body_skip_def)
      with bs(4) show ?thesis by simp
    next
      case False
      then have "m_bufRead r = m_bufProcessed r + int ?len" using empty by simp
      moreover have "int (length (bs @ ds)) \<le> ?total"
        using bound \<open>\<not> ?total \<le> 0\<close> by (simp only: min.bounded_iff) linarith
      ultimately show ?thesis using wf unfolding body_wf_def by auto
    qed
    have all: "length (bs @ ds) = ?n" if "rx_live w" "?n \<le> length (body_stream r w)"
    proof (cases "?len = ?n")
      case True
      then have "?n \<le> length (bs @ ds)" using bs(2) by (simp only: length_append le_add1)
      with bound show ?thesis by (rule le_antisym)
    next
      case False
      have "?len < ?n" by (rule le_neq_implies_less [OF min.cobounded2 False])
      then have e: "?buffered = int ?len" by (rule full)
      have "length (body_stream r w) = ?len + length (rx_avail w)"
        using bs(2,3) e by (simp add: body_stream_def body_skip_def)
      then have "?n - ?len \<le> length (rx_avail w)" using that(2) by (simp only: le_diff_conv add.commute)
      from sock.read_fully_complete [OF that(1) this] ds have c by auto
      then have "length ds = ?n - ?len" using dl(2) by (simp only: simp_thms)
      then show ?thesis by (simp only: length_append bs(2) le_add_diff_inverse [OF min.cobounded2])
    qed
    show ?thesis
    proof (cases "\<not> c \<and> bs @ ds = []")
      case True
      then have "?r1 = ?r2" by simp
      with True stream wf2 all dl eq bound show ?thesis by auto
    next
      case False
      with stream wf2 all eq bound show ?thesis by auto
    qed
  qed
qed

subsection \<open>Properties\<close>

text \<open>A request of 12 bytes (8 bytes of packet, 2 of body buffered) with 4 bytes of body to read.\<close>

definition sample_body :: LSAPI_Request where
  "sample_body = zero_request\<lparr>m_fd := 5, m_pReqBuf := [0, 0, 0, 0, 8, 0, 0, 0, 0x61, 0x0a, 0, 0],
    m_bufProcessed := 8, m_bufRead := 10, m_reqBodyLen := 4\<rparr>"

lemma sample_body_wf: "body_wf sample_body"
  by (simp add: body_wf_def sample_body_def zero_request_def load_int32_def load_def mem_read_def int32_of_def Let_def)

text \<open>
  C22. \<open>LSAPI_ReadReqBody_r\<close> delivers the next bytes of the body, first from the buffer and
  then from the connection: nothing is lost, repeated or reordered, never more than asked for
  or than the body has left, and when the connection has no error and enough data, exactly
  the smaller of the two. It returns -1 only if nothing was read.
\<close>
theorem ReadReqBody_delivers:
  assumes "body_wf r" "m_fd r \<noteq> -1" "n < 2 ^ 63"
  shows "\<exists>k data r' w'. LSAPI_ReadReqBody_r r n w = Some (k, data, r', w') \<and> body_wf r' \<and>
    body_stream r w = data @ body_stream r' w' \<and> m_reqBodyRead r' = m_reqBodyRead r + int (length data) \<and>
    (k = int (length data) \<or> k = -1 \<and> data = []) \<and>
    length data \<le> min n (nat (m_reqBodyLen r - m_reqBodyRead r)) \<and>
    (rx_live w \<and> min n (nat (m_reqBodyLen r - m_reqBodyRead r)) \<le> length (body_stream r w) \<longrightarrow>
      k = int (length data) \<and> length data = min n (nat (m_reqBodyLen r - m_reqBodyRead r)))"
  using assms by (rule ReadReqBody_spec)

theorem ReadReqBody_delivers_witness:
  "\<exists>data r' w'. LSAPI_ReadReqBody_r sample_body 3 (start_world [RxData [0x62, 0x63]]) = Some (3, data, r', w') \<and>
    [0x61, 0x0a, 0x62, 0x63] = data @ body_stream r' w'"
proof -
  have s: "body_stream sample_body (start_world [RxData [0x62, 0x63]]) = [0x61, 0x0a, 0x62, 0x63]"
    by (simp add: body_stream_def sample_body_def start_world_def mem_read_def)
  have l: "rx_live (start_world [RxData [0x62, 0x63]])" by (simp add: start_world_def)
  have m: "min 3 (nat (m_reqBodyLen sample_body - m_reqBodyRead sample_body)) = 3"
    by (simp add: sample_body_def zero_request_def)
  have "m_fd sample_body \<noteq> -1" "(3 :: nat) < 2 ^ 63" by (simp_all add: sample_body_def)
  from ReadReqBody_delivers [OF sample_body_wf this, of "start_world [RxData [0x62, 0x63]]"]
  show ?thesis unfolding s m using l by auto
qed



end
