(* ===== verification/Lsapi_Response.thy ===== *)
theory Lsapi_Response
  imports Lsapi_Request
begin

text \<open>
  The response half of lsapilib.c: the buffers of an \<open>LSAPI_Request\<close> for the response headers
  and the body, the array of \<open>iovec\<close>s that collects what is to be sent, and the operations
  that fill and flush them. An \<open>iovec\<close> names the object it points into; the bytes are read
  when \<open>writev\<close> gathers them, so that an operation that changes a buffer while an \<open>iovec\<close>
  still refers to it changes what is sent.
\<close>

subsection \<open>Buffers\<close>

abbreviation (input) LSAPI_RESP_BUF_SIZE :: nat where "LSAPI_RESP_BUF_SIZE \<equiv> 8192"
abbreviation (input) LSAPI_INIT_RESP_HEADER_LEN :: nat where "LSAPI_INIT_RESP_HEADER_LEN \<equiv> 4096"
abbreviation (input) LSAPI_MAX_RESP_HEADERS :: int where "LSAPI_MAX_RESP_HEADERS \<equiv> 1000"

definition allocateIovec :: "LSAPI_Request \<Rightarrow> nat \<Rightarrow> lsapi_world \<Rightarrow> int \<times> LSAPI_Request" where
  "allocateIovec r n w =
    (if alloc_ok w (16 * n)
     then (0, r\<lparr>m_pIovec := take n (m_pIovec r) @ replicate (n - length (m_pIovec r)) None\<rparr>)
     else (-1, r))"

definition allocateRespHeaderBuf :: "LSAPI_Request \<Rightarrow> nat \<Rightarrow> lsapi_world \<Rightarrow> int \<times> LSAPI_Request" where
  "allocateRespHeaderBuf r sz w =
    (if alloc_ok w sz then (0, r\<lparr>m_pRespHeaderBuf := realloc_bytes w (m_pRespHeaderBuf r) sz\<rparr>) else (-1, r))"

text \<open>A value stored in a \<open>short\<close>, and its bytes.\<close>

definition short_of :: "int \<Rightarrow> int" where
  "short_of n = (n + 32768) mod 65536 - 32768"

definition short_bytes :: "int \<Rightarrow> byte list" where
  "short_bytes n = le_bytes 2 (nat (n mod 65536))"

text \<open>
  \<open>m_respHeader\<close> (a packet header, \<open>m_cntHeaders\<close>, \<open>m_status\<close>) is followed in the structure by
  \<open>m_respHeaderLen\<close>, and is sent together with its first entries.
\<close>

definition resp_header_bytes :: "LSAPI_Request \<Rightarrow> byte list" where
  "resp_header_bytes r = m_respHeader_pkt r @ int32_bytes (m_cntHeaders r) @ int32_bytes (m_status r) @
    concat (map short_bytes (m_respHeaderLen r))"

definition deref :: "LSAPI_Request \<Rightarrow> iov_obj \<Rightarrow> byte list" where
  "deref r obj =
    (case obj of
       RespPktHeader i \<Rightarrow> (if i < length (m_respPktHeader r) then m_respPktHeader r ! i else [])
     | RespBuf \<Rightarrow> m_pRespBuf r
     | RespHeaderBuf \<Rightarrow> m_pRespHeaderBuf r
     | RespHeader \<Rightarrow> resp_header_bytes r
     | FinishClose \<Rightarrow> finish_close
     | StderrHeader bs \<Rightarrow> bs
     | UserData bs \<Rightarrow> bs)"

text \<open>\<open>m_pIovecCur->iov_base = obj; m_pIovecCur->iov_len = len; ++m_pIovecCur;\<close>\<close>

definition push_iov :: "iov_obj \<Rightarrow> nat \<Rightarrow> LSAPI_Request \<Rightarrow> LSAPI_Request option" where
  "push_iov obj len r =
    (if m_pIovecCur r < length (m_pIovec r)
     then Some (r\<lparr>m_pIovec := (m_pIovec r)[m_pIovecCur r := Some \<lparr>iov_base = obj, iov_off = 0, iov_len = len\<rparr>],
                  m_pIovecCur := m_pIovecCur r + 1\<rparr>)
     else None)"

subsection \<open>Response headers\<close>

definition LSAPI_SetRespStatus_r :: "int \<Rightarrow> LSAPI_Request \<Rightarrow> int \<times> LSAPI_Request" where
  "LSAPI_SetRespStatus_r code r = (0, r\<lparr>m_status := code\<rparr>)"

definition LSAPI_SetAppData_r :: "nat option \<Rightarrow> LSAPI_Request \<Rightarrow> int \<times> LSAPI_Request" where
  "LSAPI_SetAppData_r d r = (0, r\<lparr>m_pAppData := d\<rparr>)"

definition LSAPI_GetReqBodyRemain_r :: "LSAPI_Request \<Rightarrow> int" where
  "LSAPI_GetReqBodyRemain_r r = m_reqBodyLen r - m_reqBodyRead r"

definition LSAPI_FinalizeRespHeaders_r :: "LSAPI_Request \<Rightarrow> (int \<times> LSAPI_Request) option" where
  "LSAPI_FinalizeRespHeaders_r r =
    (if m_pIovec r = [] then Some (-1, r)
     else if LSAPI_ST_RESP_HEADER \<notin> m_reqState r then Some (0, r)
     else do {
       let r = r\<lparr>m_reqState := m_reqState r - {LSAPI_ST_RESP_HEADER}\<rparr>;
       r \<leftarrow> (if m_pRespHeaderBufPos r > 0
            then do {
              r \<leftarrow> push_iov RespHeaderBuf (m_pRespHeaderBufPos r) r;
              Some (r\<lparr>m_totalLen := m_totalLen r + int (m_pRespHeaderBufPos r)\<rparr>) }
            else Some r);
       let len = 16 + 2 * m_cntHeaders r;
       let r = r\<lparr>m_totalLen := m_totalLen r + len\<rparr>;
       let r = r\<lparr>m_respHeader_pkt := packet_header_bytes (lsapi_buildPacketHeader LSAPI_RESP_HEADER (m_totalLen r)),
                 m_pIovec := (m_pIovec r)[0 := Some \<lparr>iov_base = RespHeader, iov_off = 0, iov_len = nat len\<rparr>],
                 m_pIovecToWrite := 0\<rparr>;
       Some (0, r) })"

text \<open>The loop that drops trailing CR and LF.\<close>

definition strip_crlf :: "byte list \<Rightarrow> byte list" where
  "strip_crlf bs = rev (dropWhile (\<lambda>c. c = 0x0a \<or> c = 0x0d) (rev bs))"

text \<open>Room for \<open>len\<close> bytes and a NUL in the header buffer, in steps of 4096.\<close>

definition ensure_header_room :: "LSAPI_Request \<Rightarrow> nat \<Rightarrow> lsapi_world \<Rightarrow> int \<times> LSAPI_Request" where
  "ensure_header_room r len w =
    (if m_pRespHeaderBufPos r + len + 1 > length (m_pRespHeaderBuf r)
     then let newlen = m_pRespHeaderBufPos r + len + 4096;
              newlen = newlen - newlen mod 4096
          in allocateRespHeaderBuf r newlen w
     else (0, r))"

text \<open>The common end of the two append functions: the bytes, a NUL, the length and the count.\<close>

definition append_header_bytes :: "LSAPI_Request \<Rightarrow> byte list \<Rightarrow> (int \<times> LSAPI_Request) option" where
  "append_header_bytes r bs = do {
    buf \<leftarrow> store (int (m_pRespHeaderBufPos r)) (bs @ [0]) (m_pRespHeaderBuf r);
    (if 0 \<le> m_cntHeaders r \<and> nat (m_cntHeaders r) < length (m_respHeaderLen r)
     then Some (0, r\<lparr>m_pRespHeaderBuf := buf, m_pRespHeaderBufPos := m_pRespHeaderBufPos r + length bs + 1,
                     m_respHeaderLen := (m_respHeaderLen r)[nat (m_cntHeaders r) := short_of (int (length bs) + 1)],
                     m_cntHeaders := m_cntHeaders r + 1\<rparr>)
     else None) }"

definition LSAPI_AppendRespHeader_r ::
  "LSAPI_Request \<Rightarrow> byte list \<Rightarrow> lsapi_world \<Rightarrow> (int \<times> LSAPI_Request) option"
where
  "LSAPI_AppendRespHeader_r r pBuf w =
    (if pBuf = [] \<or> int (length pBuf) > LSAPI_RESP_HTTP_HEADER_MAX then Some (-1, r)
     else if LSAPI_ST_RESP_BODY \<in> m_reqState r then Some (-1, r)
     else if m_cntHeaders r \<ge> LSAPI_MAX_RESP_HEADERS then Some (-1, r)
     else let bs = strip_crlf pBuf in
       if bs = [] then Some (0, r)
       else case ensure_header_room r (length bs) w of (rc, r) \<Rightarrow>
         if rc = -1 then Some (-1, r) else append_header_bytes r bs)"

definition LSAPI_AppendRespHeader2_r ::
  "LSAPI_Request \<Rightarrow> byte list \<Rightarrow> byte list \<Rightarrow> lsapi_world \<Rightarrow> (int \<times> LSAPI_Request) option"
where
  "LSAPI_AppendRespHeader2_r r pHeaderName pHeaderValue w =
    (if LSAPI_ST_RESP_BODY \<in> m_reqState r then Some (-1, r)
     else if m_cntHeaders r \<ge> LSAPI_MAX_RESP_HEADERS then Some (-1, r)
     else if pHeaderName = [] then Some (-1, r)
     else let name = strip_crlf pHeaderName in
       if name = [] then Some (0, r)
       else let val = strip_crlf pHeaderValue; len = length name + length val + 1 in
         if int len > LSAPI_RESP_HTTP_HEADER_MAX then Some (-1, r)
         else case ensure_header_room r len w of (rc, r) \<Rightarrow>
           if rc = -1 then Some (-1, r) else append_header_bytes r (name @ [0x3a] @ val))"

subsection \<open>Sending\<close>

definition lsapi_close_connection :: "LSAPI_Request \<Rightarrow> lsapi_world \<Rightarrow> LSAPI_Request \<times> lsapi_world" where
  "lsapi_close_connection r w = (if m_fd r = -1 then (r, w) else (r\<lparr>m_fd := -1\<rparr>, release_worker w))"

definition Flush_RespBuf_r :: "LSAPI_Request \<Rightarrow> LSAPI_Request option" where
  "Flush_RespBuf_r r = do {
    let bufLen = m_pRespBufPos r;
    let r = r\<lparr>m_reqState := insert LSAPI_ST_RESP_BODY (m_reqState r),
              m_respPktHeader := (m_respPktHeader r)[0 :=
                packet_header_bytes (lsapi_buildPacketHeader LSAPI_RESP_STREAM (int (bufLen + 8)))],
              m_totalLen := m_totalLen r + int (bufLen + 8)\<rparr>;
    r \<leftarrow> push_iov (RespPktHeader 0) 8 r;
    (if bufLen > 0
     then do { r \<leftarrow> push_iov RespBuf bufLen r; Some (r\<lparr>m_pRespBufPos := 0\<rparr>) }
     else Some r) }"

definition LSAPI_Flush_r :: "LSAPI_Request \<Rightarrow> lsapi_world \<Rightarrow> (int \<times> LSAPI_Request \<times> lsapi_world) option" where
  "LSAPI_Flush_r r w =
    (if m_pIovecCur r = m_pIovecToWrite r \<and> m_pRespBufPos r = 0 then Some (0, r, w)
     else if m_fd r = -1
     then Some (-1, r\<lparr>m_pRespBufPos := 0, m_totalLen := 0, m_pIovecCur := 0, m_pIovecToWrite := 0\<rparr>, w)
     else do {
       (_, r) \<leftarrow> (if LSAPI_ST_RESP_HEADER \<in> m_reqState r then LSAPI_FinalizeRespHeaders_r r else Some (0, r));
       r \<leftarrow> (if m_pRespBufPos r \<noteq> 0 then Flush_RespBuf_r r else Some r);
       (if m_pIovecCur r > m_pIovecToWrite r
        then do {
          (ret, slots, pos, w) \<leftarrow> lsapi_writev (deref r) (m_pIovec r) (m_pIovecToWrite r)
            (m_pIovecCur r - m_pIovecToWrite r) (m_totalLen r) w;
          let (r', w) = (if ret < m_totalLen r then lsapi_close_connection r w else (r, w));
          Some (if ret < m_totalLen r then -1 else ret,
                r'\<lparr>m_pIovec := slots, m_totalLen := 0, m_pIovecCur := 0, m_pIovecToWrite := 0\<rparr>, w) }
        else Some (0, r, w)) })"

text \<open>
  The loop of \<open>LSAPI_Write_r\<close>: \<open>h\<close> indexes \<open>m_respPktHeader\<close>, \<open>bufLen\<close> is what is left of the
  response buffer to send, \<open>p\<close> the rest of the data. \<open>write_round\<close> queues one packet: its
  header, what the response buffer holds, and a piece \<open>d\<close> of the data. A round that would
  send nothing repeats for ever.
\<close>

definition write_round :: "nat \<Rightarrow> nat \<Rightarrow> nat \<Rightarrow> byte list \<Rightarrow> LSAPI_Request \<Rightarrow> LSAPI_Request option" where
  "write_round h bufLen packetLen d r =
    (if h < length (m_respPktHeader r)
     then do {
       let r = r\<lparr>m_respPktHeader := (m_respPktHeader r)[h :=
                   packet_header_bytes (lsapi_buildPacketHeader LSAPI_RESP_STREAM (int (packetLen + 8)))],
                 m_totalLen := m_totalLen r + int (packetLen + 8)\<rparr>;
       r \<leftarrow> push_iov (RespPktHeader h) 8 r;
       r \<leftarrow> (if bufLen > 0
            then do { r \<leftarrow> push_iov RespBuf bufLen r; Some (r\<lparr>m_pRespBufPos := 0\<rparr>) }
            else Some r);
       push_iov (UserData d) (length d) r }
     else None)"

text \<open>The header after the last but one triggers a flush, and the array is used from its start again.\<close>

definition next_pkt_header ::
  "nat \<Rightarrow> LSAPI_Request \<Rightarrow> lsapi_world \<Rightarrow> (int \<times> nat \<times> LSAPI_Request \<times> lsapi_world) option"
where
  "next_pkt_header h r w =
    (if h + 1 \<ge> 5 - 1 then map_option (\<lambda>(ret, r, w). (ret, 0, r, w)) (LSAPI_Flush_r r w)
     else Some (0, h + 1, r, w))"

function Write_loop ::
  "LSAPI_Request \<Rightarrow> nat \<Rightarrow> nat \<Rightarrow> byte list \<Rightarrow> lsapi_world \<Rightarrow> (int \<times> nat \<times> LSAPI_Request \<times> lsapi_world) option"
where
  "Write_loop r h bufLen p w =
    (if p = [] then Some (0, h, r, w)
     else let packetLen = min (length p + bufLen) LSAPI_MAX_DATA_PACKET_LEN;
              toWrite = packetLen - bufLen
       in if toWrite = 0 then None
       else case write_round h bufLen packetLen (take toWrite p) r of None \<Rightarrow> None
         | Some r \<Rightarrow> (case next_pkt_header h r w of None \<Rightarrow> None
           | Some (ret, h, r, w) \<Rightarrow>
               if ret = -1 then Some (-1, h, r, w) else Write_loop r h 0 (drop toWrite p) w))"
  by pat_completeness auto
termination
  by (relation "measure (\<lambda>(r, h, bufLen, p, w). length p)") auto

declare Write_loop.simps [simp del]

definition LSAPI_Write_r ::
  "LSAPI_Request \<Rightarrow> byte list \<Rightarrow> lsapi_world \<Rightarrow> (int \<times> LSAPI_Request \<times> lsapi_world) option"
where
  "LSAPI_Write_r r pBuf w =
    (if LSAPI_ST_BACKGROUND \<in> m_reqState r then Some (int (length pBuf), r, w)
     else if m_fd r = -1 then Some (-1, r, w)
     else do {
       (_, r) \<leftarrow> (if LSAPI_ST_RESP_HEADER \<in> m_reqState r then LSAPI_FinalizeRespHeaders_r r else Some (0, r));
       let r = r\<lparr>m_reqState := insert LSAPI_ST_RESP_BODY (m_reqState r)\<rparr>;
       (if length pBuf < length (m_pRespBuf r) - m_pRespBufPos r
        then do {
          buf \<leftarrow> store (int (m_pRespBufPos r)) pBuf (m_pRespBuf r);
          Some (int (length pBuf), r\<lparr>m_pRespBuf := buf, m_pRespBufPos := m_pRespBufPos r + length pBuf\<rparr>, w) }
        else do {
          (ret, h, r, w) \<leftarrow> Write_loop r 0 (m_pRespBufPos r) pBuf w;
          (if ret = -1 then Some (-1, r, w)
           else if h \<noteq> 0
           then do {
             (ret, r, w) \<leftarrow> LSAPI_Flush_r r w;
             (if ret = -1 then Some (-1, r, w) else Some (int (length pBuf), r, w)) }
           else Some (int (length pBuf), r, w)) }) })"

text \<open>
  \<open>LSAPI_Write_Stderr_r\<close> uses two \<open>iovec\<close>s on the stack. A \<open>writev\<close> on a closed descriptor
  fails; the loop goes on then.
\<close>

definition fd_writev ::
  "LSAPI_Request \<Rightarrow> iovec option list \<Rightarrow> nat \<Rightarrow> int \<Rightarrow> lsapi_world \<Rightarrow> (int \<times> lsapi_world) option"
where
  "fd_writev r slots count totalLen w =
    (if s_skip_write w then Some (totalLen, w)
     else if m_fd r = -1 then Some (if g_running w \<and> totalLen > 0 then -1 else 0, w)
     else map_option (\<lambda>(ret, _, _, w). (ret, w)) (lsapi_writev (deref r) slots 0 count totalLen w))"

function Stderr_loop :: "LSAPI_Request \<Rightarrow> byte list \<Rightarrow> lsapi_world \<Rightarrow> (LSAPI_Request \<times> lsapi_world) option" where
  "Stderr_loop r p w =
    (if p = [] then Some (r, w)
     else let packetLen = min (length p) LSAPI_MAX_DATA_PACKET_LEN;
              header = packet_header_bytes (lsapi_buildPacketHeader LSAPI_STDERR_STREAM (int (packetLen + 8)));
              totalLen = int (packetLen + 8);
              iov = [Some \<lparr>iov_base = StderrHeader header, iov_off = 0, iov_len = 8\<rparr>,
                     Some \<lparr>iov_base = UserData (take packetLen p), iov_off = 0, iov_len = packetLen\<rparr>]
       in case fd_writev r iov 2 totalLen w of None \<Rightarrow> None
          | Some (ret, w') \<Rightarrow>
              (case (if ret < totalLen then lsapi_close_connection r w' else (r, w')) of
                 (r', w'') \<Rightarrow> Stderr_loop r' (drop packetLen p) w''))"
  by pat_completeness auto
termination
  by (relation "measure (\<lambda>(r, p, w). length p)") auto

declare Stderr_loop.simps [simp del]

definition LSAPI_Write_Stderr_r ::
  "LSAPI_Request \<Rightarrow> byte list \<Rightarrow> lsapi_world \<Rightarrow> (int \<times> LSAPI_Request \<times> lsapi_world) option"
where
  "LSAPI_Write_Stderr_r r pBuf w =
    (if s_stderr_log_path w \<noteq> None \<or> m_fd r = -1 \<or> m_fd r = m_fdListen r
     then Some (int (length pBuf), r, w\<lparr>stderr_out := stderr_out w @ pBuf\<rparr>)
     else do {
       (r, w) \<leftarrow> (if m_pRespBufPos r \<noteq> 0
                 then map_option (\<lambda>(_, r, w). (r, w)) (LSAPI_Flush_r r w) else Some (r, w));
       (r, w) \<leftarrow> Stderr_loop r pBuf w;
       Some (int (length pBuf), r, w) })"

text \<open>
  \<open>LSAPI_sendfile_r\<close>: \<open>file\<close> is the content of the open file \<open>fdIn\<close>; \<open>gsendfile\<close> is one
  \<open>sendfile\<close> call on Linux, which sends what the connection accepts.
\<close>

definition gsendfile :: "byte list \<Rightarrow> nat \<Rightarrow> nat \<Rightarrow> lsapi_world \<Rightarrow> int \<times> lsapi_world" where
  "gsendfile file off sz w =
    (case sys_write (mem_read off sz file) w of (Inr n, w) \<Rightarrow> (int n, w) | (Inl _, w) \<Rightarrow> (-1, w))"

definition LSAPI_sendfile_r ::
  "LSAPI_Request \<Rightarrow> int \<Rightarrow> byte list \<Rightarrow> nat \<Rightarrow> nat \<Rightarrow> lsapi_world \<Rightarrow> (int \<times> LSAPI_Request \<times> lsapi_world) option"
where
  "LSAPI_sendfile_r r fdIn file off sz w =
    (if m_fd r = -1 \<or> fdIn = -1 then Some (-1, r, w)
     else do {
       (_, r) \<leftarrow> (if LSAPI_ST_RESP_HEADER \<in> m_reqState r then LSAPI_FinalizeRespHeaders_r r else Some (0, r));
       let r = r\<lparr>m_reqState := insert LSAPI_ST_RESP_BODY (m_reqState r)\<rparr>;
       (_, r, w) \<leftarrow> LSAPI_Flush_r r w;
       let hdr = packet_header_bytes (lsapi_buildPacketHeader LSAPI_RESP_STREAM (int (sz + 8)));
       let r = r\<lparr>m_respPktHeader := (m_respPktHeader r)[0 := hdr]\<rparr>;
       (if m_fd r = -1 then Some (-1, r, w)
        else case sys_write hdr w of
          (Inr n, w) \<Rightarrow> if n \<noteq> 8 then Some (-1, r, w)
                         else (case gsendfile file off sz w of (ret, w) \<Rightarrow> Some (ret, r, w))
        | (Inl _, w) \<Rightarrow> Some (-1, r, w)) })"

subsection \<open>End of a response\<close>

text \<open>\<open>memset\<close> from \<open>m_pHeaderIndex\<close> up to \<open>m_respHeaderLen\<close>.\<close>

definition LSAPI_Reset_r :: "LSAPI_Request \<Rightarrow> LSAPI_Request" where
  "LSAPI_Reset_r r = r
    \<lparr>m_pRespBufPos := 0, m_pIovecCur := 1, m_pIovecToWrite := 1, m_pRespHeaderBufPos := 0,
     m_pHeaderIndex := None, m_pUnknownHeader := None, m_pScriptFile := None, m_pScriptName := None,
     m_pQueryString := None, m_pHttpHeader := None, m_pRequestMethod := None, m_totalLen := 0,
     m_reqState := {}, m_reqBodyLen := 0, m_reqBodyRead := 0, m_bufProcessed := 0, m_bufRead := 0,
     m_respPktHeader := replicate 5 (replicate 8 0), m_respHeader_pkt := replicate 8 0, m_cntHeaders := 0,
     m_status := 0\<rparr>"

definition LSAPI_Finish_r :: "LSAPI_Request \<Rightarrow> lsapi_world \<Rightarrow> (int \<times> LSAPI_Request \<times> lsapi_world) option" where
  "LSAPI_Finish_r r w =
    (if m_reqState r = {} then Some (0, r, w)
     else do {
       (r, w) \<leftarrow>
         (if m_fd r \<noteq> -1
          then do {
            (_, r) \<leftarrow> (if LSAPI_ST_RESP_HEADER \<in> m_reqState r then LSAPI_FinalizeRespHeaders_r r else Some (0, r));
            r \<leftarrow> (if m_pRespBufPos r \<noteq> 0 then Flush_RespBuf_r r else Some r);
            r \<leftarrow> push_iov FinishClose 8 r;
            let r = r\<lparr>m_totalLen := m_totalLen r + 8\<rparr>;
            (_, r, w) \<leftarrow> LSAPI_Flush_r r w;
            Some (r, w) }
          else Some (r, w));
       Some (0, LSAPI_Reset_r r, w) })"

definition LSAPI_End_Response_r :: "LSAPI_Request \<Rightarrow> lsapi_world \<Rightarrow> (int \<times> LSAPI_Request \<times> lsapi_world) option" where
  "LSAPI_End_Response_r r w =
    (if LSAPI_ST_BACKGROUND \<in> m_reqState r then Some (0, r, w)
     else if m_reqState r = {} then Some (0, r, w)
     else if m_fd r \<noteq> -1
     then if LSAPI_ST_RESP_HEADER \<in> m_reqState r \<and> m_pRespHeaderBufPos r = 0 then Some (0, r, w)
       else do {
         (_, r) \<leftarrow> (if LSAPI_ST_RESP_HEADER \<in> m_reqState r then LSAPI_FinalizeRespHeaders_r r else Some (0, r));
         r \<leftarrow> (if m_pRespBufPos r \<noteq> 0 then Flush_RespBuf_r r else Some r);
         r \<leftarrow> push_iov FinishClose 16 r;
         let r = r\<lparr>m_totalLen := m_totalLen r + 16\<rparr>;
         (_, r, w) \<leftarrow> LSAPI_Flush_r r w;
         let (r, w) = lsapi_close_connection r w;
         Some (0, r\<lparr>m_reqState := insert LSAPI_ST_BACKGROUND (m_reqState r)\<rparr>, w) }
     else Some (0, r\<lparr>m_reqState := insert LSAPI_ST_BACKGROUND (m_reqState r)\<rparr>, w))"

fun append_headers :: "LSAPI_Request \<Rightarrow> byte list list \<Rightarrow> lsapi_world \<Rightarrow> LSAPI_Request option" where
  "append_headers r [] w = Some r"
| "append_headers r (h # hs) w = do {
    (_, r) \<leftarrow> LSAPI_AppendRespHeader_r r h w;
    append_headers r hs w }"

definition LSAPI_ErrResponse_r ::
  "LSAPI_Request \<Rightarrow> int \<Rightarrow> byte list list \<Rightarrow> byte list \<Rightarrow> lsapi_world \<Rightarrow> (int \<times> LSAPI_Request \<times> lsapi_world) option"
where
  "LSAPI_ErrResponse_r r code headers body w = do {
    r \<leftarrow> append_headers (snd (LSAPI_SetRespStatus_r code r)) headers w;
    (r, w) \<leftarrow> (if body \<noteq> [] then map_option (\<lambda>(_, r, w). (r, w)) (LSAPI_Write_r r body w) else Some (r, w));
    (_, r, w) \<leftarrow> LSAPI_Finish_r r w;
    Some (0, r, w) }"

text \<open>
  \<open>LSAPI_InitRequest\<close>: \<open>dupfd\<close> is the copy \<open>dup\<close> makes of standard input, \<open>pipe\<close> what \<open>isPipe\<close>
  finds out about the descriptor.
\<close>

definition LSAPI_InitRequest ::
  "int \<Rightarrow> int \<Rightarrow> bool \<Rightarrow> lsapi_world \<Rightarrow> int \<times> LSAPI_Request"
where
  "LSAPI_InitRequest fd dupfd pipe w =
    (case allocateIovec zero_request 16 w of (rc, r) \<Rightarrow>
     if rc = -1 then (-1, r)
     else if \<not> alloc_ok w LSAPI_RESP_BUF_SIZE then (-1, r)
     else let r = r\<lparr>m_pRespBuf := map (junk w) [0..<LSAPI_RESP_BUF_SIZE], m_pRespBufPos := 0,
                    m_pIovecCur := 1, m_pIovecToWrite := 1\<rparr>
       in case allocateRespHeaderBuf r LSAPI_INIT_RESP_HEADER_LEN w of (rc, r) \<Rightarrow>
         if rc = -1 then (-1, r)
         else let fd = (if fd = 0 then dupfd else fd)
           in (0, if pipe then r\<lparr>m_fdListen := -1, m_fd := fd\<rparr> else r\<lparr>m_fdListen := fd, m_fd := -1\<rparr>))"

definition LSAPI_Is_Listen_r :: "LSAPI_Request \<Rightarrow> bool" where
  "LSAPI_Is_Listen_r r \<longleftrightarrow> m_fdListen r \<noteq> -1"

text \<open>\<open>LSAPI_Release_r\<close> frees four areas and leaves the pointers; what they point to is gone.\<close>

definition LSAPI_Release_r :: "LSAPI_Request \<Rightarrow> int \<times> LSAPI_Request" where
  "LSAPI_Release_r r = (0, r\<lparr>m_pReqBuf := [], m_pSpecialEnvList := [], m_pEnvList := [], m_pRespHeaderBuf := []\<rparr>)"

end
