(* ===== verification/Lsapi_Response_Correct.thy ===== *)
theory Lsapi_Response_Correct
  imports Lsapi_Response
begin

text \<open>
  Correctness of the response half: whatever headers are appended and however the body is cut
  into writes, the peer receives one header packet, stream packets of at most
  \<open>LSAPI_MAX_DATA_PACKET_LEN\<close> bytes whose payloads add up to the body, and an end packet. The
  proof follows the bytes that are pending in the \<open>iovec\<close> array: what is on the wire and what
  is pending together only grow.
\<close>

subsection \<open>Pending output\<close>

text \<open>
  The slots from \<open>m_pIovecToWrite\<close> to \<open>m_pIovecCur\<close> refer to objects of \<open>B\<close> and gather to \<open>bs\<close>;
  between the operations, \<open>m_totalLen\<close> is the length of \<open>bs\<close>.
\<close>

definition queued :: "LSAPI_Request \<Rightarrow> iov_obj set \<Rightarrow> byte list \<Rightarrow> bool" where
  "queued r B bs \<longleftrightarrow>
    m_pIovecToWrite r \<le> m_pIovecCur r \<and> m_pIovecCur r \<le> length (m_pIovec r) \<and>
    (\<forall>i. m_pIovecToWrite r \<le> i \<and> i < m_pIovecCur r \<longrightarrow> (\<exists>v. m_pIovec r ! i = Some v \<and> iov_base v \<in> B)) \<and>
    gather (deref r) (m_pIovec r) (m_pIovecToWrite r) (m_pIovecCur r - m_pIovecToWrite r) = Some bs"

definition pending :: "LSAPI_Request \<Rightarrow> iov_obj set \<Rightarrow> byte list \<Rightarrow> bool" where
  "pending r B bs \<longleftrightarrow> queued r B bs \<and> m_totalLen r = int (length bs)"

lemma queuedD:
  assumes "queued r B bs"
  shows "m_pIovecToWrite r \<le> m_pIovecCur r" "m_pIovecCur r \<le> length (m_pIovec r)"
    "gather (deref r) (m_pIovec r) (m_pIovecToWrite r) (m_pIovecCur r - m_pIovecToWrite r) = Some bs"
  using assms by (simp_all add: queued_def)

lemma queued_empty: "m_pIovecCur r = m_pIovecToWrite r \<Longrightarrow> m_pIovecCur r \<le> length (m_pIovec r) \<Longrightarrow> queued r B []"
  by (auto simp: queued_def)

text \<open>The same slots and the same objects gather to the same bytes.\<close>

lemma queued_cong:
  assumes "queued r B bs" "\<And>obj. obj \<in> B \<Longrightarrow> deref r' obj = deref r obj"
    and "m_pIovecToWrite r' = m_pIovecToWrite r" "m_pIovecCur r' = m_pIovecCur r" "m_pIovec r' = m_pIovec r"
  shows "queued r' B bs"
proof -
  have "gather (deref r') (m_pIovec r) (m_pIovecToWrite r) (m_pIovecCur r - m_pIovecToWrite r) =
      gather (deref r) (m_pIovec r) (m_pIovecToWrite r) (m_pIovecCur r - m_pIovecToWrite r)"
  proof (rule gather_cong)
    fix i assume i: "m_pIovecToWrite r \<le> i" "i < m_pIovecToWrite r + (m_pIovecCur r - m_pIovecToWrite r)"
    then have c: "i < m_pIovecCur r" using queuedD(1) [OF assms(1)] by simp
    from assms(1) i(1) c obtain v where v: "m_pIovec r ! i = Some v" "iov_base v \<in> B"
      unfolding queued_def by blast
    show "Option.bind (m_pIovec r ! i) (iov_data (deref r')) = Option.bind (m_pIovec r ! i) (iov_data (deref r))"
      using assms(2) [OF v(2)] v(1) by (simp add: iov_data_def)
  qed simp
  with assms show ?thesis unfolding queued_def by simp
qed

lemma queued_push:
  assumes "queued r B bs" "deref r obj = d @ rest" "m_pIovecCur r < length (m_pIovec r)"
  shows "\<exists>slots. push_iov obj (length d) r = Some (r\<lparr>m_pIovec := slots, m_pIovecCur := m_pIovecCur r + 1\<rparr>) \<and>
    length slots = length (m_pIovec r) \<and>
    queued (r\<lparr>m_pIovec := slots, m_pIovecCur := m_pIovecCur r + 1\<rparr>) (insert obj B) (bs @ d)"
proof -
  let ?v = "\<lparr>iov_base = obj, iov_off = 0, iov_len = length d\<rparr>"
  let ?slots = "(m_pIovec r)[m_pIovecCur r := Some ?v]"
  let ?r = "r\<lparr>m_pIovec := ?slots, m_pIovecCur := m_pIovecCur r + 1\<rparr>"
  note p = queuedD [OF assms(1)]
  have d: "deref ?r = deref r"
    by (rule ext) (simp add: deref_def resp_header_bytes_def split: iov_obj.split)
  have g: "gather (deref r) ?slots (m_pIovecToWrite r) (m_pIovecCur r - m_pIovecToWrite r) = Some bs"
    using p(1,3) by (subst gather_cong [of _ _ _ "m_pIovec r" _ "deref r"]) auto
  have "gather (deref r) ?slots (m_pIovecToWrite r) (m_pIovecCur r - m_pIovecToWrite r + 1) = Some (bs @ d)"
    unfolding gather_append g using assms(2,3) p(1)
    by (simp add: iov_data_def load_def mem_read_def)
  then have "queued ?r (insert obj B) (bs @ d)"
    using assms(1,3) p unfolding queued_def d
    by (auto simp: less_Suc_eq nth_list_update Suc_diff_le)
  with assms(3) show ?thesis by (intro exI [of _ ?slots]) (simp add: push_iov_def)
qed

subsection \<open>Shape of the response state\<close>

definition resp_wf :: "LSAPI_Request \<Rightarrow> bool" where
  "resp_wf r \<longleftrightarrow> length (m_pIovec r) = 16 \<and> length (m_pRespBuf r) = LSAPI_RESP_BUF_SIZE \<and>
    m_pRespBufPos r < LSAPI_RESP_BUF_SIZE \<and> length (m_respPktHeader r) = 5 \<and>
    length (m_respHeaderLen r) = 1000 \<and> m_pRespHeaderBufPos r \<le> length (m_pRespHeaderBuf r)"

text \<open>The objects the header packet consists of; the operations on the body do not touch them.\<close>

abbreviation header_objs :: "iov_obj set" where
  "header_objs \<equiv> {RespHeader, RespHeaderBuf}"

text \<open>
  While headers are collected: the headers appended so far are in the header buffer, each with
  its NUL, and nothing is pending.
\<close>

definition headers_are :: "LSAPI_Request \<Rightarrow> byte list list \<Rightarrow> bool" where
  "headers_are r hs \<longleftrightarrow> resp_wf r \<and> m_fd r \<noteq> -1 \<and>
    m_reqState r = {LSAPI_ST_REQ_BODY, LSAPI_ST_RESP_HEADER} \<and>
    m_pIovecCur r = 1 \<and> m_pIovecToWrite r = 1 \<and> m_pRespBufPos r = 0 \<and> m_totalLen r = 0 \<and>
    m_cntHeaders r = int (length hs) \<and> length hs \<le> 1000 \<and>
    take (m_pRespHeaderBufPos r) (m_pRespHeaderBuf r) = concat (map (\<lambda>h. h @ [0]) hs) \<and>
    take (length hs) (m_respHeaderLen r) = map (\<lambda>h. short_of (int (length h) + 1)) hs"

definition header_payload :: "int \<Rightarrow> byte list list \<Rightarrow> byte list" where
  "header_payload status hs = int32_bytes (int (length hs)) @ int32_bytes status @
    concat (map (\<lambda>h. short_bytes (short_of (int (length h) + 1))) hs) @ concat (map (\<lambda>h. h @ [0]) hs)"

text \<open>
  Once the headers are final: \<open>out\<close> is what is on the wire or pending, \<open>buffered\<close> the body bytes
  that still lie in the response buffer.
\<close>

definition sending :: "LSAPI_Request \<Rightarrow> lsapi_world \<Rightarrow> byte list \<Rightarrow> byte list \<Rightarrow> bool" where
  "sending r w out buffered \<longleftrightarrow> resp_wf r \<and> tx_live w \<and> m_fd r \<noteq> -1 \<and>
    LSAPI_ST_REQ_BODY \<in> m_reqState r \<and> LSAPI_ST_RESP_HEADER \<notin> m_reqState r \<and> LSAPI_ST_BACKGROUND \<notin> m_reqState r \<and>
    m_pIovecToWrite r = 0 \<and> m_pIovecCur r \<le> 2 \<and>
    (\<exists>bs. pending r header_objs bs \<and> wire w @ bs = out \<and> (bs = [] \<longrightarrow> m_pIovecCur r = 0)) \<and>
    take (m_pRespBufPos r) (m_pRespBuf r) = buffered"

lemma packet_header_bytes_ne [simp]: "packet_header_bytes h \<noteq> []"
  by (simp add: packet_header_bytes_def)

lemma packet_bytes_ne [simp]: "packet_bytes p \<noteq> []"
  by (cases p) (simp add: packet_bytes_def)

lemma length_short_bytes [simp]: "length (short_bytes n) = 2"
  by (simp add: short_bytes_def)

lemma length_concat_short [simp]: "length (concat (map short_bytes ns)) = 2 * length ns"
  by (induction ns) auto

lemma length_concat_short_of [simp]: "length (concat (map (\<lambda>h. short_bytes (f h)) hs)) = 2 * length hs"
  by (induction hs) auto

lemma deref_resp_header_split:
  assumes "length (m_respHeader_pkt r) = 8" "n \<le> length (m_respHeaderLen r)" "m_cntHeaders r = int n"
  shows "deref r RespHeader = (m_respHeader_pkt r @ int32_bytes (int n) @ int32_bytes (m_status r) @
    concat (map short_bytes (take n (m_respHeaderLen r)))) @ concat (map short_bytes (drop n (m_respHeaderLen r)))"
  by (simp add: deref_def resp_header_bytes_def assms(3) flip: concat_append map_append)

lemma gather_1: "gather drf slots 0 (Suc 0) = (if slots \<noteq> [] then slots ! 0 \<bind> iov_data drf else None)"
  by (cases slots) (auto split: bind_split)

lemma gather_2: "gather drf slots 0 2 =
    (if 2 \<le> length slots then do { v0 \<leftarrow> slots ! 0; d0 \<leftarrow> iov_data drf v0; v1 \<leftarrow> slots ! 1; d1 \<leftarrow> iov_data drf v1; Some (d0 @ d1) } else None)"
  by (auto simp: numeral_2_eq_2 split: bind_split)

lemma iov_data_prefix: "drf obj = d @ rest \<Longrightarrow> n = length d \<Longrightarrow> iov_data drf \<lparr>iov_base = obj, iov_off = 0, iov_len = n\<rparr> = Some d"
  by (simp add: iov_data_def load_def mem_read_def)

lemma finalize_headers:
  assumes "headers_are r hs" "tx_live w"
  shows "\<exists>r'. LSAPI_FinalizeRespHeaders_r r = Some (0, r') \<and> m_pRespBufPos r' = 0 \<and>
    sending r' w (wire w @ packet_bytes (LSAPI_RESP_HEADER, header_payload (m_status r) hs)) []"
proof -
  let ?n = "length hs" and ?body = "concat (map (\<lambda>h. h @ [0]) hs)" and ?pos = "m_pRespHeaderBufPos r"
  note h = assms(1) [unfolded headers_are_def resp_wf_def]
  have hb: "take ?pos (m_pRespHeaderBuf r) = ?body" "?pos \<le> length (m_pRespHeaderBuf r)" using h by blast+
  from arg_cong [OF hb(1), of length] hb(2) have pos: "?pos = length ?body" by simp
  let ?lens = "concat (map short_bytes (map (\<lambda>h. short_of (int (length h) + 1)) hs))"
  let ?tot = "int ?pos + (16 + 2 * int ?n)"
  let ?pkt = "packet_header_bytes (lsapi_buildPacketHeader LSAPI_RESP_HEADER ?tot)"
  let ?A = "?pkt @ int32_bytes (int ?n) @ int32_bytes (m_status r) @ ?lens"
  let ?s1 = "if ?pos > 0 then (m_pIovec r)[1 := Some \<lparr>iov_base = RespHeaderBuf, iov_off = 0, iov_len = ?pos\<rparr>] else m_pIovec r"
  let ?slots = "?s1[0 := Some \<lparr>iov_base = RespHeader, iov_off = 0, iov_len = 16 + 2 * ?n\<rparr>]"
  let ?r = "r\<lparr>m_reqState := {LSAPI_ST_REQ_BODY}, m_pIovecCur := if ?pos > 0 then Suc (Suc 0) else Suc 0,
    m_totalLen := ?tot, m_respHeader_pkt := ?pkt, m_pIovec := ?slots, m_pIovecToWrite := 0\<rparr>"
  have "length (m_pIovec r) = 16" using h by blast
  then have ne: "m_pIovec r \<noteq> []" by auto
  have n16: "nat (16 + 2 * int ?n) = 16 + 2 * ?n" by simp
  have st: "{LSAPI_ST_REQ_BODY, LSAPI_ST_RESP_HEADER} - {LSAPI_ST_RESP_HEADER} = {LSAPI_ST_REQ_BODY}" by auto
  have fin: "LSAPI_FinalizeRespHeaders_r r = Some (0, ?r)"
    unfolding LSAPI_FinalizeRespHeaders_r_def push_iov_def Let_def
    using h ne by (cases "?pos > 0") (simp_all add: n16 st)
  have A: "deref ?r RespHeader = ?A @ concat (map short_bytes (drop ?n (m_respHeaderLen r)))"
    using deref_resp_header_split [of ?r ?n] h by simp
  have B: "deref ?r RespHeaderBuf = ?body @ drop ?pos (m_pRespHeaderBuf r)"
    by (simp add: deref_def flip: hb(1))
  have dA: "iov_data (deref ?r) \<lparr>iov_base = RespHeader, iov_off = 0, iov_len = 16 + 2 * ?n\<rparr> = Some ?A"
    by (rule iov_data_prefix [of "deref ?r" RespHeader, OF A]) (simp del: map_map)
  have dB: "iov_data (deref ?r) \<lparr>iov_base = RespHeaderBuf, iov_off = 0, iov_len = ?pos\<rparr> = Some ?body"
    by (rule iov_data_prefix [of "deref ?r" RespHeaderBuf, OF B]) (rule pos)
  have "gather (deref ?r) ?slots 0 (if ?pos > 0 then Suc (Suc 0) else Suc 0) = Some (?A @ ?body)"
  proof (cases "?pos > 0")
    case True
    then show ?thesis
      using \<open>length (m_pIovec r) = 16\<close> dA dB by (simp only: if_True gather_2 [unfolded numeral_2_eq_2]) simp
  next
    case False
    then have "?body = []" using pos by simp
    with False show ?thesis
      using ne dA by (simp only: if_False gather_1) simp
  qed
  moreover have "length (?A @ ?body) = 16 + 2 * ?n + ?pos" using pos by (simp del: map_map)
  ultimately have "pending ?r header_objs (?A @ ?body)"
    using \<open>length (m_pIovec r) = 16\<close> by (auto simp: pending_def queued_def less_Suc_eq simp del: map_map append_assoc)
  moreover have "?A @ ?body = packet_bytes (LSAPI_RESP_HEADER, header_payload (m_status r) hs)"
    using pos by (simp add: packet_bytes_def header_payload_def comp_def algebra_simps)
  moreover have "resp_wf ?r" using assms(1) by (simp add: headers_are_def resp_wf_def)
  moreover have "m_fd r \<noteq> -1" "m_pRespBufPos r = 0" using h by blast+
  ultimately have "sending ?r w (wire w @ packet_bytes (LSAPI_RESP_HEADER, header_payload (m_status r) hs)) []"
    using assms(2) by (simp add: sending_def)
  with fin \<open>m_pRespBufPos r = 0\<close> show ?thesis by auto
qed

subsection \<open>Appending headers\<close>

lemma rounded_up: "n + 1 \<le> (n + 4096) - (n + 4096) mod (4096 :: nat)"
proof -
  have "(n + 4096) mod 4096 < 4096" by simp
  then show ?thesis by linarith
qed

lemma length_realloc [simp]: "length (realloc_bytes w old n) = n"
  by (simp add: realloc_bytes_def)

lemma take_realloc: "pos \<le> length old \<Longrightarrow> pos \<le> n \<Longrightarrow> take pos (realloc_bytes w old n) = take pos old"
  by (simp add: realloc_bytes_def min_def)

lemma ensure_header_room_spec:
  assumes "\<And>n. alloc_ok w n" "m_pRespHeaderBufPos r \<le> length (m_pRespHeaderBuf r)"
  shows "\<exists>buf. ensure_header_room r len w = (0, r\<lparr>m_pRespHeaderBuf := buf\<rparr>) \<and>
    m_pRespHeaderBufPos r + len + 1 \<le> length buf \<and>
    take (m_pRespHeaderBufPos r) buf = take (m_pRespHeaderBufPos r) (m_pRespHeaderBuf r)"
proof (cases "m_pRespHeaderBufPos r + len + 1 > length (m_pRespHeaderBuf r)")
  case True
  let ?n = "m_pRespHeaderBufPos r + len + 4096 - (m_pRespHeaderBufPos r + len + 4096) mod 4096"
  have n: "m_pRespHeaderBufPos r + len + 1 \<le> ?n" by (rule rounded_up)
  then have "take (m_pRespHeaderBufPos r) (realloc_bytes w (m_pRespHeaderBuf r) ?n) =
      take (m_pRespHeaderBufPos r) (m_pRespHeaderBuf r)"
    using assms(2) by (intro take_realloc) simp_all
  with True n show ?thesis
    by (intro exI [of _ "realloc_bytes w (m_pRespHeaderBuf r) ?n"])
      (simp add: ensure_header_room_def allocateRespHeaderBuf_def assms(1) Let_def)
next
  case False
  then show ?thesis
    by (intro exI [of _ "m_pRespHeaderBuf r"]) (simp add: ensure_header_room_def)
qed

lemma append_header_bytes_spec:
  assumes "headers_are r hs" "length hs < 1000"
    and buf: "m_pRespHeaderBufPos r + length bs + 1 \<le> length buf"
      "take (m_pRespHeaderBufPos r) buf = take (m_pRespHeaderBufPos r) (m_pRespHeaderBuf r)"
  shows "\<exists>r'. append_header_bytes (r\<lparr>m_pRespHeaderBuf := buf\<rparr>) bs = Some (0, r') \<and>
    headers_are r' (hs @ [bs]) \<and> m_status r' = m_status r"
proof -
  note h = assms(1) [unfolded headers_are_def resp_wf_def]
  let ?pos = "m_pRespHeaderBufPos r" and ?n = "length hs"
  let ?buf = "mem_write ?pos (bs @ [0]) buf"
  let ?r = "r\<lparr>m_pRespHeaderBuf := ?buf, m_pRespHeaderBufPos := ?pos + length bs + 1,
    m_respHeaderLen := (m_respHeaderLen r)[?n := short_of (int (length bs) + 1)], m_cntHeaders := int ?n + 1\<rparr>"
  have cnt: "m_cntHeaders r = int ?n" and lens: "length (m_respHeaderLen r) = 1000" using h by blast+
  have st: "store (int ?pos) (bs @ [0]) buf = Some ?buf" using buf(1) by (simp add: store_def)
  have "append_header_bytes (r\<lparr>m_pRespHeaderBuf := buf\<rparr>) bs = Some (0, ?r)"
    using st cnt lens assms(2) by (simp add: append_header_bytes_def)
  moreover have "take (?pos + length bs + 1) ?buf = concat (map (\<lambda>h. h @ [0]) (hs @ [bs]))"
  proof -
    have "take (?pos + length (bs @ [0])) ?buf = take ?pos buf @ (bs @ [0])"
      using buf(1) by (intro take_mem_write) simp
    moreover have "take ?pos (m_pRespHeaderBuf r) = concat (map (\<lambda>h. h @ [0]) hs)" using h by blast
    ultimately show ?thesis using buf(2) by simp
  qed
  moreover have "take (?n + 1) ((m_respHeaderLen r)[?n := short_of (int (length bs) + 1)]) =
      map (\<lambda>h. short_of (int (length h) + 1)) (hs @ [bs])"
  proof -
    have "take ?n (m_respHeaderLen r) = map (\<lambda>h. short_of (int (length h) + 1)) hs" using h by blast
    with lens assms(2) show ?thesis by (simp add: take_Suc_conv_app_nth)
  qed
  moreover have "length ?buf = length buf" using buf(1) by simp
  moreover have "m_pIovecCur r = 1 \<and> m_pIovecToWrite r = 1 \<and> m_pRespBufPos r = 0 \<and> m_totalLen r = 0 \<and> m_fd r \<noteq> -1 \<and>
      m_reqState r = {LSAPI_ST_REQ_BODY, LSAPI_ST_RESP_HEADER} \<and> length (m_pIovec r) = 16 \<and>
      length (m_pRespBuf r) = 8192 \<and> length (m_respPktHeader r) = 5" using h by blast
  ultimately have "headers_are ?r (hs @ [bs])"
    using buf(1) assms(2) lens unfolding headers_are_def resp_wf_def by simp
  with \<open>append_header_bytes _ _ = _\<close> show ?thesis by auto
qed

lemma AppendRespHeader_spec:
  assumes "headers_are r hs" "length hs < 1000" "\<And>n. alloc_ok w n" "strip_crlf h \<noteq> []" "length h \<le> 32768"
  shows "\<exists>r'. LSAPI_AppendRespHeader_r r h w = Some (0, r') \<and> headers_are r' (hs @ [strip_crlf h]) \<and> m_status r' = m_status r"
proof -
  have p: "m_pRespHeaderBufPos r \<le> length (m_pRespHeaderBuf r)" "LSAPI_ST_RESP_BODY \<notin> m_reqState r" "m_cntHeaders r < 1000"
    using assms(1,2) by (simp_all add: headers_are_def resp_wf_def)
  obtain buf where b: "ensure_header_room r (length (strip_crlf h)) w = (0, r\<lparr>m_pRespHeaderBuf := buf\<rparr>)"
    "m_pRespHeaderBufPos r + length (strip_crlf h) + 1 \<le> length buf"
    "take (m_pRespHeaderBufPos r) buf = take (m_pRespHeaderBufPos r) (m_pRespHeaderBuf r)"
    using ensure_header_room_spec [OF assms(3) p(1)] by blast
  have "h \<noteq> []" using assms(4) by (auto simp: strip_crlf_def)
  then have "LSAPI_AppendRespHeader_r r h w = append_header_bytes (r\<lparr>m_pRespHeaderBuf := buf\<rparr>) (strip_crlf h)"
    using p assms(4,5) b(1) by (simp add: LSAPI_AppendRespHeader_r_def Let_def)
  with append_header_bytes_spec [OF assms(1,2) b(2,3)] show ?thesis by simp
qed

subsection \<open>Flushing\<close>

lemma Flush_pending:
  assumes "pending r B bs" "bs \<noteq> []" "m_pRespBufPos r = 0" "LSAPI_ST_RESP_HEADER \<notin> m_reqState r" "m_fd r \<noteq> -1" "tx_live w"
  shows "LSAPI_Flush_r r w = Some (int (length bs), r\<lparr>m_totalLen := 0, m_pIovecCur := 0, m_pIovecToWrite := 0\<rparr>,
    w\<lparr>w_tx := [], wire := wire w @ bs\<rparr>)"
proof -
  have q: "queued r B bs" and tot: "m_totalLen r = int (length bs)" using assms(1) by (simp_all add: pending_def)
  note g = queuedD [OF q]
  have "m_pIovecCur r \<noteq> m_pIovecToWrite r" using g(3) assms(2) by auto
  then have c: "m_pIovecToWrite r < m_pIovecCur r" using g(1) by simp
  have "lsapi_writev (deref r) (m_pIovec r) (m_pIovecToWrite r) (m_pIovecCur r - m_pIovecToWrite r) (m_totalLen r) w =
      Some (m_totalLen r, m_pIovec r, m_pIovecToWrite r, w\<lparr>w_tx := [], wire := wire w @ bs\<rparr>)"
    using assms(2,6) g(3) tot by (intro lsapi_writev_clean) simp_all
  moreover have "r\<lparr>m_pIovec := m_pIovec r, m_totalLen := 0, m_pIovecCur := 0, m_pIovecToWrite := 0\<rparr> =
      r\<lparr>m_totalLen := 0, m_pIovecCur := 0, m_pIovecToWrite := 0\<rparr>" by simp
  ultimately show ?thesis
    using c assms(3-5) tot by (simp add: LSAPI_Flush_r_def)
qed

text \<open>A stream packet, and the packets of a list of payloads.\<close>

definition stream_packets :: "byte list list \<Rightarrow> byte list" where
  "stream_packets ds = concat (map (\<lambda>d. packet_bytes (LSAPI_RESP_STREAM, d)) ds)"

lemma stream_packets_simps [simp]:
  "stream_packets [] = []"
  "stream_packets (d # ds) = packet_bytes (LSAPI_RESP_STREAM, d) @ stream_packets ds"
  "stream_packets (ds @ es) = stream_packets ds @ stream_packets es"
  by (simp_all add: stream_packets_def)

definition payloads_ok :: "byte list list \<Rightarrow> bool" where
  "payloads_ok ds \<longleftrightarrow> list_all (\<lambda>d. 0 < length d \<and> length d \<le> LSAPI_MAX_DATA_PACKET_LEN) ds"

text \<open>The state inside the loop of \<open>LSAPI_Write_r\<close>, with packet header \<open>h\<close> to be used next.\<close>

definition writing :: "LSAPI_Request \<Rightarrow> lsapi_world \<Rightarrow> nat \<Rightarrow> byte list \<Rightarrow> bool" where
  "writing r w h out \<longleftrightarrow> resp_wf r \<and> tx_live w \<and> m_fd r \<noteq> -1 \<and>
    LSAPI_ST_REQ_BODY \<in> m_reqState r \<and> LSAPI_ST_RESP_HEADER \<notin> m_reqState r \<and> LSAPI_ST_BACKGROUND \<notin> m_reqState r \<and>
    h < 4 \<and> m_pIovecToWrite r = 0 \<and> m_pIovecCur r \<le> 2 + 2 * h + (if m_pRespBufPos r = 0 then 1 else 0) \<and>
    (\<exists>B bs. pending r B bs \<and> (\<forall>j \<ge> h. RespPktHeader j \<notin> B) \<and> wire w @ bs = out \<and>
      (if h = 0 then B = header_objs \<and> m_pIovecCur r \<le> 2 \<and> (bs = [] \<longrightarrow> m_pIovecCur r = 0) else bs \<noteq> []))"

lemma Write_loop_round:
  assumes "p \<noteq> []" "bufLen < LSAPI_MAX_DATA_PACKET_LEN" "k = min (length p) (LSAPI_MAX_DATA_PACKET_LEN - bufLen)"
    and "write_round h bufLen (k + bufLen) (take k p) r = Some r1"
    and "next_pkt_header h r1 w = Some (ret, h', r', w')" "ret \<noteq> -1"
  shows "Write_loop r h bufLen p w = Write_loop r' h' 0 (drop k p) w'"
proof -
  have k: "min (length p + bufLen) 16384 = k + bufLen" "k \<noteq> 0" using assms(1-3) by (auto simp: min_def)
  show ?thesis
    by (subst Write_loop.simps)
      (use assms(1) k assms(4-6) in \<open>simp only: Let_def k(1) add_diff_cancel_right' if_False option.case prod.case\<close>)
qed

lemma deref_simps [simp]:
  "deref (r\<lparr>m_pIovec := s\<rparr>) = deref r" "deref (r\<lparr>m_pIovecCur := n\<rparr>) = deref r" "deref (r\<lparr>m_totalLen := m\<rparr>) = deref r"
  "deref (r\<lparr>m_pRespBufPos := n\<rparr>) = deref r" "deref (r\<lparr>m_reqState := st\<rparr>) = deref r" "deref (r\<lparr>m_pIovecToWrite := n\<rparr>) = deref r"
  by (auto simp: deref_def resp_header_bytes_def fun_eq_iff split: iov_obj.split)

lemma queued_mono: "queued r B bs \<Longrightarrow> B \<subseteq> B' \<Longrightarrow> queued r B' bs"
  unfolding queued_def by blast

lemma queued_pkt_header:
  assumes "queued r B bs" "RespPktHeader h \<notin> B" "h < length (m_respPktHeader r)"
  shows "queued (r\<lparr>m_respPktHeader := (m_respPktHeader r)[h := hdr], m_totalLen := n\<rparr>) B bs"
proof (rule queued_cong [of r])
  show "deref (r\<lparr>m_respPktHeader := (m_respPktHeader r)[h := hdr], m_totalLen := n\<rparr>) obj = deref r obj" if "obj \<in> B" for obj
  proof (cases obj)
    case (RespPktHeader i)
    with that assms(2) have "i \<noteq> h" by auto
    with RespPktHeader show ?thesis by (simp add: deref_def)
  qed (simp_all add: deref_def resp_header_bytes_def)
qed (use assms in simp_all)

text \<open>Queueing a part of the response buffer empties it.\<close>

lemma push_resp_buf:
  assumes "queued r B bs" "bufLen \<le> length (m_pRespBuf r)" "m_pIovecCur r < length (m_pIovec r)"
    and "bufLen = 0 \<Longrightarrow> m_pRespBufPos r = 0"
  shows "\<exists>slots. (if bufLen > 0
         then do { r \<leftarrow> push_iov RespBuf bufLen r; Some (r\<lparr>m_pRespBufPos := 0\<rparr>) }
         else Some r) = Some (r\<lparr>m_pIovec := slots, m_pIovecCur := m_pIovecCur r + (if bufLen > 0 then 1 else 0), m_pRespBufPos := 0\<rparr>) \<and>
    length slots = length (m_pIovec r) \<and>
    queued (r\<lparr>m_pIovec := slots, m_pIovecCur := m_pIovecCur r + (if bufLen > 0 then 1 else 0), m_pRespBufPos := 0\<rparr>)
      (insert RespBuf B) (bs @ take bufLen (m_pRespBuf r))"
proof (cases "bufLen > 0")
  case True
  have "deref r RespBuf = take bufLen (m_pRespBuf r) @ drop bufLen (m_pRespBuf r)" by (simp add: deref_def)
  from queued_push [OF assms(1) this assms(3)] assms(2) obtain slots where
    s: "push_iov RespBuf bufLen r = Some (r\<lparr>m_pIovec := slots, m_pIovecCur := m_pIovecCur r + 1\<rparr>)"
      "length slots = length (m_pIovec r)"
      "queued (r\<lparr>m_pIovec := slots, m_pIovecCur := m_pIovecCur r + 1\<rparr>) (insert RespBuf B) (bs @ take bufLen (m_pRespBuf r))"
    by auto
  have "queued (r\<lparr>m_pIovec := slots, m_pIovecCur := m_pIovecCur r + 1, m_pRespBufPos := 0\<rparr>) (insert RespBuf B) (bs @ take bufLen (m_pRespBuf r))"
    by (rule queued_cong [OF s(3)]) simp_all
  with True s(1,2) show ?thesis by (intro exI [of _ slots]) simp
next
  case False
  moreover have "r\<lparr>m_pIovec := m_pIovec r, m_pIovecCur := m_pIovecCur r, m_pRespBufPos := 0\<rparr> = r"
    using False assms(4) by simp
  moreover have "queued r (insert RespBuf B) bs" using assms(1) by (rule queued_mono) blast
  ultimately show ?thesis by (intro exI [of _ "m_pIovec r"]) simp
qed

lemma packet_bytes_split:
  "packet_bytes (type, x @ d) =
    packet_header_bytes (lsapi_buildPacketHeader type (int (length d + length x + 8))) @ x @ d"
  by (simp add: packet_bytes_def add.commute add.left_commute)

lemma write_round_spec:
  assumes "writing r w h out" "bufLen = m_pRespBufPos r"
  shows "\<exists>slots hdrs cur n r'. write_round h bufLen (length d + bufLen) d r = Some r' \<and>
    r' = r\<lparr>m_respPktHeader := hdrs, m_totalLen := n, m_pIovec := slots, m_pIovecCur := cur, m_pRespBufPos := 0\<rparr> \<and>
    length slots = 16 \<and> length hdrs = 5 \<and> cur = m_pIovecCur r + 2 + (if bufLen > 0 then 1 else 0) \<and>
    (\<exists>B bs. pending r' B bs \<and> (\<forall>j \<ge> h + 1. RespPktHeader j \<notin> B) \<and> bs \<noteq> [] \<and>
      wire w @ bs = out @ packet_bytes (LSAPI_RESP_STREAM, take bufLen (m_pRespBuf r) @ d))"
proof -
  from assms(1) obtain B bs where w: "resp_wf r" "h < 4" "m_pIovecToWrite r = 0"
    "m_pIovecCur r \<le> 2 + 2 * h + (if m_pRespBufPos r = 0 then 1 else 0)"
    and B: "queued r B bs" "m_totalLen r = int (length bs)" "\<forall>j \<ge> h. RespPktHeader j \<notin> B" "wire w @ bs = out"
    unfolding writing_def pending_def by blast
  have len: "length (m_pIovec r) = 16" "length (m_respPktHeader r) = 5" "length (m_pRespBuf r) = 8192" "bufLen < 8192"
    using w(1) assms(2) by (simp_all add: resp_wf_def)
  have cur: "m_pIovecCur r + 3 < 16" using w(2,4) by (auto split: if_splits)
  let ?hdr = "packet_header_bytes (lsapi_buildPacketHeader LSAPI_RESP_STREAM (int (length d + bufLen + 8)))"
  let ?hdrs = "(m_respPktHeader r)[h := ?hdr]" and ?tot = "m_totalLen r + int (length d + bufLen + 8)"
  let ?buf = "take bufLen (m_pRespBuf r)"
  let ?r0 = "r\<lparr>m_respPktHeader := ?hdrs, m_totalLen := ?tot\<rparr>"
  have "queued ?r0 B bs" using B w(2) len by (intro queued_pkt_header) simp_all
  moreover have "deref ?r0 (RespPktHeader h) = ?hdr @ []" using w(2) len by (simp add: deref_def)
  ultimately obtain s1 where 1: "push_iov (RespPktHeader h) 8 ?r0 = Some (?r0\<lparr>m_pIovec := s1, m_pIovecCur := m_pIovecCur r + 1\<rparr>)"
    "length s1 = 16" "queued (?r0\<lparr>m_pIovec := s1, m_pIovecCur := m_pIovecCur r + 1\<rparr>) (insert (RespPktHeader h) B) (bs @ ?hdr)"
    using queued_push [of ?r0 B bs "RespPktHeader h" ?hdr "[]"] cur len by auto
  let ?r1 = "?r0\<lparr>m_pIovec := s1, m_pIovecCur := m_pIovecCur r + 1\<rparr>"
  let ?c2 = "m_pIovecCur r + 1 + (if bufLen > 0 then 1 else 0)"
  obtain s2 where 2: "(if bufLen > 0
         then do { r \<leftarrow> push_iov RespBuf bufLen ?r1; Some (r\<lparr>m_pRespBufPos := 0\<rparr>) }
         else Some ?r1) = Some (?r0\<lparr>m_pIovec := s2, m_pIovecCur := ?c2, m_pRespBufPos := 0\<rparr>)"
    "length s2 = 16"
    "queued (?r0\<lparr>m_pIovec := s2, m_pIovecCur := ?c2, m_pRespBufPos := 0\<rparr>)
      (insert RespBuf (insert (RespPktHeader h) B)) ((bs @ ?hdr) @ ?buf)"
    using push_resp_buf [OF 1(3), of bufLen] len 1(2) cur assms(2) by (auto split del: if_split)
  let ?r2 = "?r0\<lparr>m_pIovec := s2, m_pIovecCur := ?c2, m_pRespBufPos := 0\<rparr>"
  have d: "deref ?r2 (UserData d) = d @ []" by (simp add: deref_def)
  have "m_pIovecCur ?r2 < length (m_pIovec ?r2)" using 2(2) cur by simp
  from queued_push [OF 2(3) d this] obtain s3 where
    3: "push_iov (UserData d) (length d) ?r2 = Some (?r2\<lparr>m_pIovec := s3, m_pIovecCur := ?c2 + 1\<rparr>)" "length s3 = 16"
    "queued (?r2\<lparr>m_pIovec := s3, m_pIovecCur := ?c2 + 1\<rparr>)
      (insert (UserData d) (insert RespBuf (insert (RespPktHeader h) B))) (((bs @ ?hdr) @ ?buf) @ d)"
    using 2(2) by (auto split del: if_split)
  let ?r3 = "r\<lparr>m_respPktHeader := ?hdrs, m_totalLen := ?tot, m_pIovec := s3, m_pIovecCur := ?c2 + 1, m_pRespBufPos := 0\<rparr>"
  have r3: "?r2\<lparr>m_pIovec := s3, m_pIovecCur := ?c2 + 1\<rparr> = ?r3" by simp
  have "write_round h bufLen (length d + bufLen) d r = Some ?r3"
    using w(2) len(2) 1(1) 2(1) 3(1) unfolding r3 write_round_def Let_def
    by (simp only: Option.bind_lunit if_True) simp
  moreover have "pending ?r3 (insert (UserData d) (insert RespBuf (insert (RespPktHeader h) B))) (bs @ ?hdr @ ?buf @ d)"
    using 3(3) B(2) len unfolding pending_def r3 by simp
  moreover have "\<forall>j \<ge> h + 1. RespPktHeader j \<notin> insert (UserData d) (insert RespBuf (insert (RespPktHeader h) B))"
    using B(3) by simp
  moreover have "wire w @ bs @ ?hdr @ ?buf @ d = out @ packet_bytes (LSAPI_RESP_STREAM, ?buf @ d)"
    unfolding packet_bytes_split using B(4) len by simp
  ultimately show ?thesis
    using 3(2) len(2) length_packet_header_bytes by (intro exI conjI) (assumption | simp)+
qed

lemma next_pkt_header_spec:
  assumes "resp_wf r" "tx_live w" "m_fd r \<noteq> -1" "LSAPI_ST_REQ_BODY \<in> m_reqState r" "LSAPI_ST_RESP_HEADER \<notin> m_reqState r"
    and "LSAPI_ST_BACKGROUND \<notin> m_reqState r" "h < 4" "m_pIovecToWrite r = 0" "m_pIovecCur r \<le> 2 * h + 5" "m_pRespBufPos r = 0"
    and "pending r B bs" "\<forall>j \<ge> h + 1. RespPktHeader j \<notin> B" "bs \<noteq> []" "wire w @ bs = out"
  shows "\<exists>ret h' r' w'. next_pkt_header h r w = Some (ret, h', r', w') \<and> ret \<noteq> -1 \<and> writing r' w' h' out \<and> m_pRespBufPos r' = 0"
proof (cases "h + 1 \<ge> 4")
  case True
  let ?r = "r\<lparr>m_totalLen := 0, m_pIovecCur := 0, m_pIovecToWrite := 0\<rparr>"
  let ?w = "w\<lparr>w_tx := [], wire := wire w @ bs\<rparr>"
  have "next_pkt_header h r w = Some (int (length bs), 0, ?r, ?w)"
    using True Flush_pending [OF assms(11,13,10,5,3,2)] by (simp add: next_pkt_header_def)
  moreover have "pending ?r header_objs []" by (simp add: pending_def queued_empty)
  then have "writing ?r ?w 0 out"
    using assms by (simp add: writing_def resp_wf_def)
  ultimately show ?thesis using assms(10) by (intro exI conjI) (assumption | simp)+
next
  case False
  then have "next_pkt_header h r w = Some (0, h + 1, r, w)" by (simp add: next_pkt_header_def)
  moreover have "writing r w (h + 1) out"
    unfolding writing_def using False assms by auto
  ultimately show ?thesis using assms(10) by (intro exI conjI) (assumption | simp)+
qed

lemma write_packet:
  assumes "writing r w h out" "bufLen = m_pRespBufPos r"
  shows "\<exists>r1 ret h' r' w'. write_round h bufLen (length d + bufLen) d r = Some r1 \<and>
    next_pkt_header h r1 w = Some (ret, h', r', w') \<and> ret \<noteq> -1 \<and> m_pRespBufPos r' = 0 \<and>
    writing r' w' h' (out @ packet_bytes (LSAPI_RESP_STREAM, take bufLen (m_pRespBuf r) @ d))"
proof -
  from write_round_spec [OF assms, of d] obtain slots hdrs cur n r1 B bs where
    r1: "write_round h bufLen (length d + bufLen) d r = Some r1"
      "r1 = r\<lparr>m_respPktHeader := hdrs, m_totalLen := n, m_pIovec := slots, m_pIovecCur := cur, m_pRespBufPos := 0\<rparr>"
      "length slots = 16" "length hdrs = 5" "cur = m_pIovecCur r + 2 + (if bufLen > 0 then 1 else 0)"
    and B: "pending r1 B bs" "\<forall>j \<ge> h + 1. RespPktHeader j \<notin> B" "bs \<noteq> []"
      "wire w @ bs = out @ packet_bytes (LSAPI_RESP_STREAM, take bufLen (m_pRespBuf r) @ d)" by blast
  have w: "resp_wf r" "tx_live w" "m_fd r \<noteq> -1" "LSAPI_ST_REQ_BODY \<in> m_reqState r" "LSAPI_ST_RESP_HEADER \<notin> m_reqState r"
    "LSAPI_ST_BACKGROUND \<notin> m_reqState r" "h < 4" "m_pIovecToWrite r = 0" "m_pIovecCur r \<le> 2 + 2 * h + (if m_pRespBufPos r = 0 then 1 else 0)"
    using assms(1) unfolding writing_def by blast+
  have "resp_wf r1" using w(1) r1(2-4) by (simp add: resp_wf_def)
  moreover have "m_pIovecCur r1 \<le> 2 * h + 5" using w(9) r1(2,5) assms(2) by (auto split: if_splits)
  ultimately have "\<exists>ret h' r' w'. next_pkt_header h r1 w = Some (ret, h', r', w') \<and> ret \<noteq> -1 \<and>
      writing r' w' h' (out @ packet_bytes (LSAPI_RESP_STREAM, take bufLen (m_pRespBuf r) @ d)) \<and> m_pRespBufPos r' = 0"
    using w(2-8) r1(2) by (intro next_pkt_header_spec [OF _ _ _ _ _ _ _ _ _ _ B]) simp_all
  with r1(1) show ?thesis by blast
qed

lemma Write_loop_spec:
  assumes "writing r w h out" "bufLen = m_pRespBufPos r" "p \<noteq> []"
  shows "\<exists>ds h' r' w'. Write_loop r h bufLen p w = Some (0, h', r', w') \<and> m_pRespBufPos r' = 0 \<and>
    writing r' w' h' (out @ stream_packets ds) \<and> payloads_ok ds \<and> concat ds = take bufLen (m_pRespBuf r) @ p"
  using assms
proof (induction "length p" arbitrary: r w h out bufLen p rule: less_induct)
  case less
  have wf: "resp_wf r" using less.prems(1) by (simp add: writing_def)
  then have bl: "bufLen < 8192" "length (m_pRespBuf r) = 8192" using less.prems(2) by (simp_all add: resp_wf_def)
  define k where "k = min (length p) (LSAPI_MAX_DATA_PACKET_LEN - bufLen)"
  let ?d = "take bufLen (m_pRespBuf r) @ take k p"
  have k: "length (take k p) = k" "0 < k" "k + bufLen \<le> 16384"
    using less.prems(3) bl by (auto simp: k_def)
  obtain r1 ret h' r' w' where s: "write_round h bufLen (k + bufLen) (take k p) r = Some r1"
    "next_pkt_header h r1 w = Some (ret, h', r', w')" "ret \<noteq> -1" "m_pRespBufPos r' = 0"
    "writing r' w' h' (out @ packet_bytes (LSAPI_RESP_STREAM, ?d))"
    using write_packet [OF less.prems(1,2), of "take k p"] unfolding k(1) by blast
  have "bufLen < LSAPI_MAX_DATA_PACKET_LEN" using bl by simp
  from Write_loop_round [OF less.prems(3) this k_def s(1-3)]
  have eq: "Write_loop r h bufLen p w = Write_loop r' h' 0 (drop k p) w'" .
  have ok: "payloads_ok (?d # ds) = payloads_ok ds" for ds
    using k bl less.prems(3) by (simp add: payloads_ok_def)
  show ?case
  proof (cases "drop k p = []")
    case True
    then have "Write_loop r h bufLen p w = Some (0, h', r', w')" unfolding eq by (subst Write_loop.simps) simp
    moreover have "concat [?d] = take bufLen (m_pRespBuf r) @ p" using True by simp
    moreover have "payloads_ok [?d]" using ok [of "[]"] by (simp add: payloads_ok_def)
    ultimately show ?thesis using s(4,5) by (intro exI [of _ "[?d]"] exI [of _ h'] exI [of _ r'] exI [of _ w']) simp
  next
    case False
    have "length (drop k p) < length p" using k(2) less.prems(3) by simp
    from less.hyps [OF this s(5) s(4) [symmetric] False] obtain ds h'' r'' w'' where
      i: "Write_loop r' h' 0 (drop k p) w' = Some (0, h'', r'', w'')" "m_pRespBufPos r'' = 0"
        "writing r'' w'' h'' ((out @ packet_bytes (LSAPI_RESP_STREAM, ?d)) @ stream_packets ds)" "payloads_ok ds"
        "concat ds = take 0 (m_pRespBuf r') @ drop k p"
      unfolding s(4) by blast
    from i(5) have "concat (?d # ds) = take bufLen (m_pRespBuf r) @ p" by simp
    with i ok [of ds] eq show ?thesis
      by (intro exI [of _ "?d # ds"] exI [of _ h''] exI [of _ r''] exI [of _ w'']) simp
  qed
qed

subsection \<open>Writing the body\<close>

lemma sending_writing: "sending r w out buffered \<Longrightarrow> writing r w 0 out"
  unfolding sending_def writing_def by auto

lemma sendingD:
  assumes "sending r w out buffered"
  shows "resp_wf r" "tx_live w" "m_fd r \<noteq> -1" "LSAPI_ST_REQ_BODY \<in> m_reqState r" "LSAPI_ST_RESP_HEADER \<notin> m_reqState r"
    "LSAPI_ST_BACKGROUND \<notin> m_reqState r" "take (m_pRespBufPos r) (m_pRespBuf r) = buffered" "m_pIovecToWrite r = 0" "m_pIovecCur r \<le> 2"
  using assms unfolding sending_def by blast+

lemma sending_cong:
  assumes "sending r w out buffered" "m_reqState r' = insert LSAPI_ST_RESP_BODY (m_reqState r)" "resp_wf r'"
    and "m_fd r' = m_fd r" "m_pIovecToWrite r' = m_pIovecToWrite r" "m_pIovecCur r' = m_pIovecCur r" "m_pIovec r' = m_pIovec r"
    and "m_totalLen r' = m_totalLen r" "\<And>obj. obj \<in> header_objs \<Longrightarrow> deref r' obj = deref r obj"
  shows "sending r' w out (take (m_pRespBufPos r') (m_pRespBuf r'))"
proof -
  from assms(1) obtain bs where b: "queued r header_objs bs" "m_totalLen r = int (length bs)" "wire w @ bs = out" "bs = [] \<longrightarrow> m_pIovecCur r = 0"
    unfolding sending_def pending_def by blast
  have "queued r' header_objs bs" by (rule queued_cong [OF b(1)]) (use assms in simp_all)
  with b assms sendingD [OF assms(1)] show ?thesis unfolding sending_def pending_def by auto
qed

text \<open>What is left in the queue after the loop is flushed.\<close>

lemma writing_flush:
  assumes "writing r w h out" "m_pRespBufPos r = 0"
  shows "if h = 0 then sending r w out []
    else \<exists>ret r' w'. LSAPI_Flush_r r w = Some (ret, r', w') \<and> ret \<noteq> -1 \<and> sending r' w' out []"
proof (cases "h = 0")
  case True
  with assms show ?thesis unfolding sending_def writing_def by auto
next
  case False
  from assms False obtain B bs where b: "pending r B bs" "bs \<noteq> []" "wire w @ bs = out"
    and w: "resp_wf r" "tx_live w" "m_fd r \<noteq> -1" "LSAPI_ST_REQ_BODY \<in> m_reqState r" "LSAPI_ST_RESP_HEADER \<notin> m_reqState r"
      "LSAPI_ST_BACKGROUND \<notin> m_reqState r" unfolding writing_def by auto
  let ?r = "r\<lparr>m_totalLen := 0, m_pIovecCur := 0, m_pIovecToWrite := 0\<rparr>"
  let ?w = "w\<lparr>w_tx := [], wire := wire w @ bs\<rparr>"
  have f: "LSAPI_Flush_r r w = Some (int (length bs), ?r, ?w)"
    by (rule Flush_pending [OF b(1,2) assms(2) w(5,3,2)])
  have "pending ?r header_objs []" by (simp add: pending_def queued_empty)
  then have "sending ?r ?w out []"
    using assms(2) w b(3) by (simp add: sending_def resp_wf_def)
  moreover have "int (length bs) \<noteq> -1" by simp
  ultimately show ?thesis using f False by auto
qed

lemma Write_sending:
  assumes "sending r w out buffered"
  shows "\<exists>ds buffered' r' w'. LSAPI_Write_r r p w = Some (int (length p), r', w') \<and>
    sending r' w' (out @ stream_packets ds) buffered' \<and> payloads_ok ds \<and> concat ds @ buffered' = buffered @ p"
proof -
  note d = sendingD [OF assms]
  let ?r = "r\<lparr>m_reqState := insert LSAPI_ST_RESP_BODY (m_reqState r)\<rparr>"
  let ?pos = "m_pRespBufPos r" and ?buf = "m_pRespBuf r"
  have len: "length ?buf = 8192" "?pos < 8192" using d(1) by (simp_all add: resp_wf_def)
  have wf: "resp_wf ?r" using d(1) by (simp add: resp_wf_def)
  show ?thesis
  proof (cases "length p < length ?buf - ?pos")
    case True
    let ?b = "mem_write ?pos p ?buf"
    let ?r' = "?r\<lparr>m_pRespBuf := ?b, m_pRespBufPos := ?pos + length p\<rparr>"
    have st: "store (int ?pos) p ?buf = Some ?b" using True by (simp add: store_def)
    have "LSAPI_Write_r r p w = Some (int (length p), ?r', w)"
      using d True st by (simp add: LSAPI_Write_r_def)
    moreover have "take (?pos + length p) ?b = take ?pos ?buf @ p"
      using True by (intro take_mem_write) simp
    moreover have "sending ?r' w out (take (m_pRespBufPos ?r') (m_pRespBuf ?r'))"
      by (rule sending_cong [OF assms]) (use wf True len in \<open>auto simp: resp_wf_def deref_def resp_header_bytes_def\<close>)
    ultimately show ?thesis using d(7)
      by (intro exI [of _ "[]"] exI [of _ "buffered @ p"] exI [of _ ?r'] exI [of _ w]) (simp add: payloads_ok_def)
  next
    case False
    then have "p \<noteq> []" using len by auto
    have "sending ?r w out (take (m_pRespBufPos ?r) (m_pRespBuf ?r))"
      by (rule sending_cong [OF assms]) (use wf in simp_all)
    then have "writing ?r w 0 out" by (rule sending_writing)
    from Write_loop_spec [OF this _ \<open>p \<noteq> []\<close>, of ?pos] obtain ds h' r' w' where
      l: "Write_loop ?r 0 ?pos p w = Some (0, h', r', w')" "m_pRespBufPos r' = 0"
        "writing r' w' h' (out @ stream_packets ds)" "payloads_ok ds" "concat ds = buffered @ p"
      using d(7) by auto
    show ?thesis
    proof (cases "h' = 0")
      case True
      then have "LSAPI_Write_r r p w = Some (int (length p), r', w')"
        using d False l(1) by (simp add: LSAPI_Write_r_def)
      moreover have "sending r' w' (out @ stream_packets ds) []" using writing_flush [OF l(3,2)] True by simp
      ultimately show ?thesis using l(4,5)
        by (intro exI [of _ ds] exI [of _ "[]"] exI [of _ r'] exI [of _ w']) simp
    next
      case nz: False
      with writing_flush [OF l(3,2)] obtain ret r'' w'' where
        f: "LSAPI_Flush_r r' w' = Some (ret, r'', w'')" "ret \<noteq> -1" "sending r'' w'' (out @ stream_packets ds) []" by auto
      then have "LSAPI_Write_r r p w = Some (int (length p), r'', w'')"
        using d False l(1) nz by (simp add: LSAPI_Write_r_def)
      then show ?thesis using l(4,5) f(3)
        by (intro exI [of _ ds] exI [of _ "[]"] exI [of _ r''] exI [of _ w'']) simp
    qed
  qed
qed

subsection \<open>Finishing\<close>

text \<open>Whatever is still in the response buffer becomes the last stream packet.\<close>

abbreviation last_payload :: "byte list \<Rightarrow> byte list list" where
  "last_payload buffered \<equiv> (if buffered = [] then [] else [buffered])"

lemma Flush_RespBuf_spec:
  assumes "sending r w out buffered" "m_pRespBufPos r \<noteq> 0"
  shows "\<exists>r' B bs. Flush_RespBuf_r r = Some r' \<and> pending r' B bs \<and>
    wire w @ bs = out @ packet_bytes (LSAPI_RESP_STREAM, buffered) \<and> m_pRespBufPos r' = 0 \<and>
    LSAPI_ST_RESP_HEADER \<notin> m_reqState r' \<and> m_fd r' = m_fd r \<and> m_pIovecCur r' < length (m_pIovec r') \<and>
    resp_wf r' \<and> m_reqState r' = insert LSAPI_ST_RESP_BODY (m_reqState r)"
proof -
  note d = sendingD [OF assms(1)]
  from assms(1) obtain bs where B: "queued r header_objs bs" "m_totalLen r = int (length bs)" "wire w @ bs = out"
    unfolding sending_def pending_def by blast
  have len: "length (m_pIovec r) = 16" "length (m_respPktHeader r) = 5" "length (m_pRespBuf r) = 8192" "m_pRespBufPos r < 8192"
    using d(1) by (simp_all add: resp_wf_def)
  let ?n = "m_pRespBufPos r"
  let ?hdr = "packet_header_bytes (lsapi_buildPacketHeader LSAPI_RESP_STREAM (int (?n + 8)))"
  let ?r0 = "r\<lparr>m_reqState := insert LSAPI_ST_RESP_BODY (m_reqState r), m_respPktHeader := (m_respPktHeader r)[0 := ?hdr],
    m_totalLen := m_totalLen r + int (?n + 8)\<rparr>"
  have "queued (r\<lparr>m_reqState := insert LSAPI_ST_RESP_BODY (m_reqState r)\<rparr>) header_objs bs"
    by (rule queued_cong [OF B(1)]) simp_all
  from queued_pkt_header [OF this, where h = 0 and hdr = ?hdr and n = "m_totalLen r + int (?n + 8)"] len
  have q0: "queued ?r0 header_objs bs" by simp
  have "deref ?r0 (RespPktHeader 0) = ?hdr @ []" using len by (simp add: deref_def)
  from queued_push [OF q0 this] len d(9) obtain s1 where
    1: "push_iov (RespPktHeader 0) 8 ?r0 = Some (?r0\<lparr>m_pIovec := s1, m_pIovecCur := m_pIovecCur r + 1\<rparr>)" "length s1 = 16"
      "queued (?r0\<lparr>m_pIovec := s1, m_pIovecCur := m_pIovecCur r + 1\<rparr>) (insert (RespPktHeader 0) header_objs) (bs @ ?hdr)"
    by auto
  let ?r1 = "?r0\<lparr>m_pIovec := s1, m_pIovecCur := m_pIovecCur r + 1\<rparr>"
  obtain s2 where 2: "(if ?n > 0 then do { r \<leftarrow> push_iov RespBuf ?n ?r1; Some (r\<lparr>m_pRespBufPos := 0\<rparr>) } else Some ?r1) =
      Some (?r1\<lparr>m_pIovec := s2, m_pIovecCur := m_pIovecCur r + 1 + 1, m_pRespBufPos := 0\<rparr>)" "length s2 = 16"
    "queued (?r1\<lparr>m_pIovec := s2, m_pIovecCur := m_pIovecCur r + 1 + 1, m_pRespBufPos := 0\<rparr>)
      (insert RespBuf (insert (RespPktHeader 0) header_objs)) ((bs @ ?hdr) @ take ?n (m_pRespBuf r))"
    using push_resp_buf [OF 1(3), of ?n] len 1(2) d(9) assms(2) by auto
  let ?r2 = "?r1\<lparr>m_pIovec := s2, m_pIovecCur := m_pIovecCur r + 1 + 1, m_pRespBufPos := 0\<rparr>"
  have "Flush_RespBuf_r r = Some ?r2"
    unfolding Flush_RespBuf_r_def Let_def using 1(1) 2(1) assms(2) by (simp only: Option.bind_lunit if_True)
  moreover have b: "take ?n (m_pRespBuf r) = buffered" by (rule d(7))
  moreover have "length buffered = ?n" using len by (simp flip: b)
  moreover have "pending ?r2 (insert RespBuf (insert (RespPktHeader 0) header_objs)) ((bs @ ?hdr) @ take ?n (m_pRespBuf r))"
    using 2(3) B(2) len unfolding pending_def by simp
  moreover have "wire w @ (bs @ ?hdr) @ buffered = out @ packet_bytes (LSAPI_RESP_STREAM, buffered)"
    using B(3) \<open>length buffered = ?n\<close> by (simp add: packet_bytes_def add.commute)
  moreover have "resp_wf ?r2" using d(1) len 2(2) by (simp add: resp_wf_def)
  ultimately show ?thesis
    using d(5,9) 2(2)
    by (intro exI [of _ ?r2] exI [of _ "insert RespBuf (insert (RespPktHeader 0) header_objs)"] exI [of _ "(bs @ ?hdr) @ buffered"]) simp
qed

lemma push_pending:
  assumes "pending r B bs" "deref r obj = d @ rest" "m_pIovecCur r < length (m_pIovec r)" "n = length d"
  shows "\<exists>r'. push_iov obj n r = Some r' \<and> pending (r'\<lparr>m_totalLen := m_totalLen r' + int n\<rparr>) (insert obj B) (bs @ d) \<and>
    m_pRespBufPos r' = m_pRespBufPos r \<and> m_reqState r' = m_reqState r \<and> m_fd r' = m_fd r"
proof -
  have "queued r B bs" using assms(1) by (simp add: pending_def)
  from queued_push [OF this assms(2,3)] obtain s where
    s: "push_iov obj (length d) r = Some (r\<lparr>m_pIovec := s, m_pIovecCur := m_pIovecCur r + 1\<rparr>)"
      "queued (r\<lparr>m_pIovec := s, m_pIovecCur := m_pIovecCur r + 1\<rparr>) (insert obj B) (bs @ d)" by blast
  have "queued (r\<lparr>m_pIovec := s, m_pIovecCur := m_pIovecCur r + 1, m_totalLen := m_totalLen r + int n\<rparr>) (insert obj B) (bs @ d)"
    by (rule queued_cong [OF s(2)]) simp_all
  then have "pending (r\<lparr>m_pIovec := s, m_pIovecCur := m_pIovecCur r + 1, m_totalLen := m_totalLen r + int n\<rparr>) (insert obj B) (bs @ d)"
    using assms(1,4) by (simp add: pending_def)
  with s(1) assms(4) show ?thesis by simp
qed

text \<open>The last packets: the rest of the buffer and the first \<open>n\<close> bytes of \<open>finish_close\<close>, in one flush.\<close>

lemma finish_tail:
  assumes "sending r w out buffered" "finish_close = d @ rest" "n = length d" "d \<noteq> []"
  shows "\<exists>r1 r2 r3 ret w'. (if m_pRespBufPos r \<noteq> 0 then Flush_RespBuf_r r else Some r) = Some r1 \<and>
    push_iov FinishClose n r1 = Some r2 \<and>
    LSAPI_Flush_r (r2\<lparr>m_totalLen := m_totalLen r2 + int n\<rparr>) w = Some (ret, r3, w') \<and> tx_live w' \<and> m_fd r3 = m_fd r \<and>
    wire w' = out @ stream_packets (last_payload buffered) @ d"
proof -
  note s = sendingD [OF assms(1)]
  have len: "length (m_pIovec r) = 16" "length (m_pRespBuf r) = 8192" "m_pRespBufPos r < 8192"
    using s(1) by (simp_all add: resp_wf_def)
  have e: "buffered = [] \<longleftrightarrow> m_pRespBufPos r = 0" using s(7) len by auto
  obtain r1 B bs where 1: "(if m_pRespBufPos r \<noteq> 0 then Flush_RespBuf_r r else Some r) = Some r1" "pending r1 B bs"
    "wire w @ bs = out @ stream_packets (last_payload buffered)" "m_pRespBufPos r1 = 0"
    "LSAPI_ST_RESP_HEADER \<notin> m_reqState r1" "m_fd r1 = m_fd r" "m_pIovecCur r1 < length (m_pIovec r1)"
  proof (cases "m_pRespBufPos r \<noteq> 0")
    case True
    with Flush_RespBuf_spec [OF assms(1) True] e that show ?thesis by auto
  next
    case False
    from assms(1) obtain bs where "pending r header_objs bs" "wire w @ bs = out" unfolding sending_def by blast
    with False that [of r header_objs bs] e s(5,9) len show ?thesis by simp
  qed
  have "deref r1 FinishClose = d @ rest" using assms(2) by (simp add: deref_def)
  from push_pending [OF 1(2) this 1(7) assms(3)] obtain r2 where
    2: "push_iov FinishClose n r1 = Some r2" "pending (r2\<lparr>m_totalLen := m_totalLen r2 + int n\<rparr>) (insert FinishClose B) (bs @ d)"
      "m_pRespBufPos r2 = m_pRespBufPos r1" "m_reqState r2 = m_reqState r1" "m_fd r2 = m_fd r1" by blast
  let ?r = "r2\<lparr>m_totalLen := m_totalLen r2 + int n\<rparr>"
  have "LSAPI_Flush_r ?r w = Some (int (length (bs @ d)), ?r\<lparr>m_totalLen := 0, m_pIovecCur := 0, m_pIovecToWrite := 0\<rparr>,
      w\<lparr>w_tx := [], wire := wire w @ bs @ d\<rparr>)"
    using assms(4) 1(4-6) 2(3-5) s(2,3) by (intro Flush_pending [OF 2(2)]) simp_all
  then show ?thesis using 1(1,6) 2(1,5) s(2) arg_cong [OF 1(3), of "\<lambda>x. x @ d"]
    by (intro exI conjI) (assumption | simp)+
qed

lemma finish_close_split:
  "finish_close = packet_bytes (LSAPI_RESP_END, []) @ packet_bytes (LSAPI_CONN_CLOSE, [])"
  by (simp add: finish_close_def packet_bytes_def)

lemma Finish_sending:
  assumes "sending r w out buffered"
  shows "\<exists>r' w'. LSAPI_Finish_r r w = Some (0, r', w') \<and> tx_live w' \<and> m_fd r' = m_fd r \<and> m_reqState r' = {} \<and>
    wire w' = out @ stream_packets (last_payload buffered) @ packet_bytes (LSAPI_RESP_END, [])"
proof -
  from finish_tail [OF assms finish_close_split, of 8] obtain r1 r2 r3 ret w' where
    f: "(if m_pRespBufPos r \<noteq> 0 then Flush_RespBuf_r r else Some r) = Some r1" "push_iov FinishClose 8 r1 = Some r2"
      "LSAPI_Flush_r (r2\<lparr>m_totalLen := m_totalLen r2 + 8\<rparr>) w = Some (ret, r3, w')" "tx_live w'" "m_fd r3 = m_fd r"
      "wire w' = out @ stream_packets (last_payload buffered) @ packet_bytes (LSAPI_RESP_END, [])" by auto
  have "m_reqState r \<noteq> {}" using sendingD(4) [OF assms] by auto
  then have "LSAPI_Finish_r r w = Some (0, LSAPI_Reset_r r3, w')"
    unfolding LSAPI_Finish_r_def using sendingD(3,5) [OF assms] f(1-3) by (simp del: if_split add: f(1) cong: if_cong)
  with f(4-6) show ?thesis by (auto simp: LSAPI_Reset_r_def)
qed

lemma Flush_sending:
  assumes "sending r w out buffered"
  shows "\<exists>ret r' w'. LSAPI_Flush_r r w = Some (ret, r', w') \<and> ret \<ge> 0 \<and>
    sending r' w' (out @ stream_packets (last_payload buffered)) [] \<and> wire w' = out @ stream_packets (last_payload buffered)"
proof -
  note s = sendingD [OF assms]
  have len: "length (m_pRespBuf r) = 8192" "m_pRespBufPos r < 8192" using s(1) by (simp_all add: resp_wf_def)
  have e: "buffered = [] \<longleftrightarrow> m_pRespBufPos r = 0" using s(7) len by auto
  have flushed: "\<exists>ret r' w'. LSAPI_Flush_r r1 w = Some (ret, r', w') \<and> ret \<ge> 0 \<and> sending r' w' x [] \<and> wire w' = x"
    if r1: "pending r1 B bs" "bs \<noteq> []" "wire w @ bs = x" "m_pRespBufPos r1 = 0" "resp_wf r1" "m_fd r1 = m_fd r"
      "m_reqState r1 = m_reqState r \<or> m_reqState r1 = insert LSAPI_ST_RESP_BODY (m_reqState r)" for r1 B bs x
  proof -
    have st: "LSAPI_ST_RESP_HEADER \<notin> m_reqState r1" "LSAPI_ST_REQ_BODY \<in> m_reqState r1" "LSAPI_ST_BACKGROUND \<notin> m_reqState r1"
      using r1(7) s(4-6) by auto
    let ?r = "r1\<lparr>m_totalLen := 0, m_pIovecCur := 0, m_pIovecToWrite := 0\<rparr>" and ?w = "w\<lparr>w_tx := [], wire := wire w @ bs\<rparr>"
    have f: "LSAPI_Flush_r r1 w = Some (int (length bs), ?r, ?w)"
      using s(2,3) st r1 by (intro Flush_pending) simp_all
    have "pending ?r header_objs []" by (simp add: pending_def queued_empty)
    then have "sending ?r ?w x []" using st r1 s(2,3) by (simp add: sending_def resp_wf_def)
    with f r1(3) show ?thesis by (intro exI [of _ "int (length bs)"] exI [of _ ?r] exI [of _ ?w]) simp
  qed
  from assms obtain bs where bs: "pending r header_objs bs" "wire w @ bs = out" "bs = [] \<longrightarrow> m_pIovecCur r = 0"
    unfolding sending_def by blast
  show ?thesis
  proof (cases "buffered = []")
    case True
    show ?thesis
    proof (cases "bs = []")
      case emp: True
      then have "LSAPI_Flush_r r w = Some (0, r, w)"
        using bs(3) s(8) e True by (simp add: LSAPI_Flush_r_def)
      with assms bs(2) emp True show ?thesis by simp
    next
      case False
      have "\<exists>ret r' w'. LSAPI_Flush_r r w = Some (ret, r', w') \<and> ret \<ge> 0 \<and> sending r' w' out [] \<and> wire w' = out"
        by (rule flushed [OF bs(1) False bs(2)]) (use e True s(1) in simp_all)
      with True show ?thesis by simp
    qed
  next
    case False
    then have pos: "m_pRespBufPos r \<noteq> 0" using e by simp
    from Flush_RespBuf_spec [OF assms pos] obtain r1 B b1 where
      1: "Flush_RespBuf_r r = Some r1" "pending r1 B b1" "wire w @ b1 = out @ packet_bytes (LSAPI_RESP_STREAM, buffered)"
        "m_pRespBufPos r1 = 0" "LSAPI_ST_RESP_HEADER \<notin> m_reqState r1" "m_fd r1 = m_fd r" "resp_wf r1"
        "m_reqState r1 = insert LSAPI_ST_RESP_BODY (m_reqState r)" by blast
    have "b1 \<noteq> []"
    proof
      assume "b1 = []"
      with 1(3) bs(2) have "length (wire w) = length (wire w) + length bs + (8 + length buffered)"
        by (metis append_Nil2 length_append length_packet_bytes)
      then show False by simp
    qed
    then have "m_pIovecToWrite r1 < m_pIovecCur r1"
      using 1(2) unfolding pending_def queued_def by (cases "m_pIovecCur r1 = m_pIovecToWrite r1") auto
    then have "LSAPI_Flush_r r w = LSAPI_Flush_r r1 w"
      unfolding LSAPI_Flush_r_def using pos s(3,5) 1(1,4-6) by simp
    with flushed [OF 1(2) \<open>b1 \<noteq> []\<close> 1(3,4,7,6)] 1(8) False show ?thesis by simp
  qed
qed

subsection \<open>A whole response\<close>

lemma headers_areD:
  assumes "headers_are r hs"
  shows "m_fd r \<noteq> -1" "LSAPI_ST_RESP_HEADER \<in> m_reqState r" "LSAPI_ST_BACKGROUND \<notin> m_reqState r" "m_reqState r \<noteq> {}"
  using assms unfolding headers_are_def by simp_all

text \<open>The first write, or the end of the response, makes the header packet final.\<close>

lemma Write_finalizes:
  assumes "headers_are r hs" "LSAPI_FinalizeRespHeaders_r r = Some (0, r')" "sending r' w out buffered"
  shows "LSAPI_Write_r r p w = LSAPI_Write_r r' p w"
  using headers_areD [OF assms(1)] sendingD(3,5,6) [OF assms(3)] assms(2) by (simp add: LSAPI_Write_r_def)

lemma Finish_finalizes:
  assumes "headers_are r hs" "LSAPI_FinalizeRespHeaders_r r = Some (0, r')" "sending r' w out buffered"
  shows "LSAPI_Finish_r r w = LSAPI_Finish_r r' w"
proof -
  have "m_reqState r' \<noteq> {}" using sendingD(4) [OF assms(3)] by auto
  then show ?thesis
    using headers_areD [OF assms(1)] sendingD(3,5) [OF assms(3)] assms(2) by (simp add: LSAPI_Finish_r_def)
qed

lemma append_headers_spec:
  assumes "headers_are r hs" "length hs + length new \<le> 1000" "\<And>n. alloc_ok w n"
    and "list_all (\<lambda>h. strip_crlf h \<noteq> [] \<and> length h \<le> 32768) new"
  shows "\<exists>r'. append_headers r new w = Some r' \<and> headers_are r' (hs @ map strip_crlf new) \<and> m_status r' = m_status r"
  using assms
proof (induction new arbitrary: r hs)
  case Nil
  then show ?case by simp
next
  case (Cons h new)
  from AppendRespHeader_spec [of r hs w h] Cons.prems obtain r1 where
    1: "LSAPI_AppendRespHeader_r r h w = Some (0, r1)" "headers_are r1 (hs @ [strip_crlf h])" "m_status r1 = m_status r" by auto
  with Cons.IH [OF 1(2)] Cons.prems show ?case by simp
qed

text \<open>A sequence of writes, each of which must report that it took all its data.\<close>

fun write_all :: "LSAPI_Request \<Rightarrow> byte list list \<Rightarrow> lsapi_world \<Rightarrow> (LSAPI_Request \<times> lsapi_world) option" where
  "write_all r [] w = Some (r, w)"
| "write_all r (p # ps) w = do {
    (n, r, w) \<leftarrow> LSAPI_Write_r r p w;
    (if n = int (length p) then write_all r ps w else None) }"

definition send_response ::
  "int \<Rightarrow> byte list list \<Rightarrow> byte list list \<Rightarrow> LSAPI_Request \<Rightarrow> lsapi_world \<Rightarrow> (int \<times> LSAPI_Request \<times> lsapi_world) option"
where
  "send_response status headers body r w = do {
    r \<leftarrow> append_headers (snd (LSAPI_SetRespStatus_r status r)) headers w;
    (r, w) \<leftarrow> write_all r body w;
    LSAPI_Finish_r r w }"

lemma write_all_sending:
  assumes "sending r w out buffered"
  shows "\<exists>ds buffered' r' w'. write_all r ps w = Some (r', w') \<and> sending r' w' (out @ stream_packets ds) buffered' \<and>
    payloads_ok ds \<and> concat ds @ buffered' = buffered @ concat ps"
  using assms
proof (induction ps arbitrary: r w out buffered)
  case Nil
  then show ?case by (intro exI [of _ "[]"] exI [of _ buffered]) (simp add: payloads_ok_def)
next
  case (Cons p ps)
  from Write_sending [OF Cons.prems, of p] obtain ds b1 r1 w1 where
    1: "LSAPI_Write_r r p w = Some (int (length p), r1, w1)" "sending r1 w1 (out @ stream_packets ds) b1"
      "payloads_ok ds" "concat ds @ b1 = buffered @ p" by blast
  from Cons.IH [OF 1(2)] obtain es b2 r2 w2 where
    2: "write_all r1 ps w1 = Some (r2, w2)" "sending r2 w2 ((out @ stream_packets ds) @ stream_packets es) b2"
      "payloads_ok es" "concat es @ b2 = b1 @ concat ps" by blast
  have "concat (ds @ es) @ b2 = buffered @ concat (p # ps)"
    using 1(4) 2(4) by (metis append_assoc concat.simps(2) concat_append)
  with 1 2 show ?case
    by (intro exI [of _ "ds @ es"] exI [of _ b2] exI [of _ r2] exI [of _ w2]) (simp add: payloads_ok_def)
qed

lemma write_all_finish:
  assumes "headers_are r hs" "tx_live w"
  shows "\<exists>ds r' w'. do { (r, w) \<leftarrow> write_all r ps w; LSAPI_Finish_r r w } = Some (0, r', w') \<and>
    tx_live w' \<and> m_reqState r' = {} \<and> payloads_ok ds \<and> concat ds = concat ps \<and>
    wire w' = wire w @ packet_bytes (LSAPI_RESP_HEADER, header_payload (m_status r) hs) @ stream_packets ds @
      packet_bytes (LSAPI_RESP_END, [])"
proof -
  let ?hdr = "packet_bytes (LSAPI_RESP_HEADER, header_payload (m_status r) hs)"
  from finalize_headers [OF assms] obtain r0 where
    f: "LSAPI_FinalizeRespHeaders_r r = Some (0, r0)" "sending r0 w (wire w @ ?hdr) []" by blast
  have eq: "do { (r, w) \<leftarrow> write_all r ps w; LSAPI_Finish_r r w } = do { (r, w) \<leftarrow> write_all r0 ps w; LSAPI_Finish_r r w }"
    using Write_finalizes [OF assms(1) f] Finish_finalizes [OF assms(1) f] by (cases ps) simp_all
  from write_all_sending [OF f(2)] obtain ds b r1 w1 where
    1: "write_all r0 ps w = Some (r1, w1)" "sending r1 w1 ((wire w @ ?hdr) @ stream_packets ds) b" "payloads_ok ds"
      "concat ds @ b = [] @ concat ps" by blast
  from Finish_sending [OF 1(2)] obtain r2 w2 where
    2: "LSAPI_Finish_r r1 w1 = Some (0, r2, w2)" "tx_live w2" "m_reqState r2 = {}"
      "wire w2 = ((wire w @ ?hdr) @ stream_packets ds) @ stream_packets (last_payload b) @ packet_bytes (LSAPI_RESP_END, [])" by blast
  have "length b \<le> 16384" using sendingD(1,7) [OF 1(2)] by (auto simp: resp_wf_def)
  then have "payloads_ok (ds @ last_payload b)" using 1(3) by (simp add: payloads_ok_def)
  moreover have "concat (ds @ last_payload b) = concat ps" using 1(4) by auto
  ultimately show ?thesis using 1(1) 2 unfolding eq
    by (intro exI [of _ "ds @ last_payload b"] exI [of _ r2] exI [of _ w2]) simp
qed

text \<open>The packets of a response, and that the peer's parser recovers them.\<close>

definition response_packets :: "int \<Rightarrow> byte list list \<Rightarrow> byte list list \<Rightarrow> packet list" where
  "response_packets status hs ds =
    (LSAPI_RESP_HEADER, header_payload status hs) # map (Pair LSAPI_RESP_STREAM) ds @ [(LSAPI_RESP_END, [])]"

lemma concat_response_packets:
  "concat (map packet_bytes (response_packets status hs ds)) =
    packet_bytes (LSAPI_RESP_HEADER, header_payload status hs) @ stream_packets ds @ packet_bytes (LSAPI_RESP_END, [])"
  by (simp add: response_packets_def stream_packets_def comp_def)

lemma strip_crlf_le: "length (strip_crlf h) \<le> length h"
  unfolding strip_crlf_def by (metis length_dropWhile_le length_rev)

lemma header_payload_bound:
  assumes "length hs \<le> 1000" "list_all (\<lambda>h. length h \<le> 32768) hs"
  shows "length (header_payload status hs) \<le> 8 + 1000 * 32771"
proof -
  have "length (concat (map (\<lambda>h. h @ [0 :: byte]) hs)) \<le> length hs * 32769"
    using assms(2) by (induction hs) auto
  with assms(1) show ?thesis by (simp add: header_payload_def)
qed

lemma response_packets_ok:
  assumes "length hs \<le> 1000" "list_all (\<lambda>h. length h \<le> 32768) hs" "payloads_ok ds"
  shows "list_all packet_ok (response_packets status hs ds)"
proof -
  have "list_all packet_ok (map (Pair LSAPI_RESP_STREAM) ds)"
    using assms(3) by (auto simp: payloads_ok_def packet_ok_def list_all_iff)
  with header_payload_bound [OF assms(1,2), of status] show ?thesis
    by (simp add: response_packets_def packet_ok_def)
qed

text \<open>
  C19. From a request whose response has not begun, with a peer that takes what is offered
  (interrupted writes included), setting a status, appending at most 1000 headers of at most
  32768 bytes, writing the body in any number of pieces of any sizes and finishing succeeds,
  every write reports all its bytes, the request is idle again, and a peer that parses the
  bytes it received finds exactly one header packet with the status and the headers without
  their line ends, stream packets with between 1 and 16384 bytes whose payloads are the
  concatenated pieces, and one end packet, and nothing else.
\<close>
theorem response_roundtrip:
  assumes "headers_are r []" "tx_live w" "\<And>n. alloc_ok w n" "length headers \<le> 1000"
    and "list_all (\<lambda>h. strip_crlf h \<noteq> [] \<and> length h \<le> 32768) headers"
  shows "\<exists>ds r' w'. send_response status headers body r w = Some (0, r', w') \<and> m_reqState r' = {} \<and>
    take (length (wire w)) (wire w') = wire w \<and>
    unframe parse_packet (length ds + 2) (drop (length (wire w)) (wire w')) =
      Some (response_packets status (map strip_crlf headers) ds, []) \<and>
    list_all (\<lambda>d. 0 < length d \<and> length d \<le> LSAPI_MAX_DATA_PACKET_LEN) ds \<and> concat ds = concat body"
proof -
  let ?hs = "map strip_crlf headers"
  have "headers_are (snd (LSAPI_SetRespStatus_r status r)) []"
    using assms(1) by (simp add: headers_are_def resp_wf_def LSAPI_SetRespStatus_r_def)
  from append_headers_spec [OF this _ assms(3,5)] assms(4) obtain r1 where
    1: "append_headers (snd (LSAPI_SetRespStatus_r status r)) headers w = Some r1" "headers_are r1 ?hs" "m_status r1 = status"
    by (auto simp: LSAPI_SetRespStatus_r_def)
  from write_all_finish [OF 1(2) assms(2), of body] obtain ds r' w' where
    2: "do { (r, w) \<leftarrow> write_all r1 body w; LSAPI_Finish_r r w } = Some (0, r', w')" "m_reqState r' = {}" "payloads_ok ds"
      "concat ds = concat body" "wire w' = wire w @ concat (map packet_bytes (response_packets status ?hs ds))"
    unfolding concat_response_packets 1(3) by blast
  have "list_all (\<lambda>h. length h \<le> 32768) ?hs"
    using assms(5) strip_crlf_le order_trans by (fastforce simp: list_all_iff)
  then have "list_all packet_ok (response_packets status ?hs ds)"
    using assms(4) 2(3) by (intro response_packets_ok) simp_all
  from pkt.unframe_enc [OF this, of "[]"]
  have "unframe parse_packet (length ds + 2) (drop (length (wire w)) (wire w')) = Some (response_packets status ?hs ds, [])"
    unfolding 2(5) by (simp add: response_packets_def)
  moreover have "send_response status headers body r w = Some (0, r', w')"
    using 1(1) 2(1) by (simp add: send_response_def)
  ultimately show ?thesis using 2(2-5) unfolding payloads_ok_def
    by (intro exI [of _ ds] exI [of _ r'] exI [of _ w']) simp
qed

text \<open>A request as \<open>LSAPI_InitRequest\<close> makes it, on descriptor 5, once its header is read.\<close>

abbreviation ready_request :: LSAPI_Request where
  "ready_request \<equiv> (snd (LSAPI_InitRequest 5 7 True (start_world [])))\<lparr>m_reqState := {LSAPI_ST_REQ_BODY, LSAPI_ST_RESP_HEADER}\<rparr>"

lemma ready_headers: "headers_are ready_request []"
  by (simp add: headers_are_def resp_wf_def LSAPI_InitRequest_def allocateIovec_def allocateRespHeaderBuf_def
      start_world_def zero_request_def Let_def)

theorem response_roundtrip_witness:
  "\<exists>ds r' w'. send_response 200 [[0x41, 0x3a, 0x42, 0x0d, 0x0a]] [[1, 2], [], [3]] ready_request (start_world []) = Some (0, r', w') \<and>
    unframe parse_packet (length ds + 2) (wire w') = Some (response_packets 200 [[0x41, 0x3a, 0x42]] ds, []) \<and>
    concat ds = [1, 2, 3]"
proof -
  have s: "strip_crlf [0x41, 0x3a, 0x42, 0x0d, 0x0a] = [0x41, 0x3a, 0x42]" by (simp add: strip_crlf_def)
  have w: "tx_live (start_world [])" "alloc_ok (start_world []) n" "wire (start_world []) = []" for n
    by (simp_all add: start_world_def)
  show ?thesis
    using response_roundtrip [OF ready_headers w(1,2), of "[[0x41, 0x3a, 0x42, 0x0d, 0x0a]]" 200 "[[1, 2], [], [3]]"]
    unfolding w(3) s list.map by (simp add: s) blast
qed

subsection \<open>Ending a response while the request goes on\<close>

lemma End_Response_sending:
  assumes "sending r w out buffered"
  shows "\<exists>r' w'. LSAPI_End_Response_r r w = Some (0, r', w') \<and> m_fd r' = -1 \<and> LSAPI_ST_BACKGROUND \<in> m_reqState r' \<and>
    wire w' = out @ stream_packets (last_payload buffered) @ packet_bytes (LSAPI_RESP_END, []) @ packet_bytes (LSAPI_CONN_CLOSE, [])"
proof -
  from finish_tail [OF assms, of finish_close "[]" 16] obtain r1 r2 r3 ret w' where
    f: "(if m_pRespBufPos r \<noteq> 0 then Flush_RespBuf_r r else Some r) = Some r1" "push_iov FinishClose 16 r1 = Some r2"
      "LSAPI_Flush_r (r2\<lparr>m_totalLen := m_totalLen r2 + 16\<rparr>) w = Some (ret, r3, w')" "m_fd r3 = m_fd r"
      "wire w' = out @ stream_packets (last_payload buffered) @ finish_close" by (auto simp: finish_close_split)
  have "m_reqState r \<noteq> {}" using sendingD(4) [OF assms] by auto
  then have "LSAPI_End_Response_r r w = (let (r, w) = lsapi_close_connection r3 w' in
      Some (0, r\<lparr>m_reqState := insert LSAPI_ST_BACKGROUND (m_reqState r)\<rparr>, w))"
    unfolding LSAPI_End_Response_r_def using sendingD(3,5,6) [OF assms] f(1-3) by (simp del: if_split add: f(1) cong: if_cong)
  with f(4,5) sendingD(3) [OF assms] show ?thesis
    by (auto simp: lsapi_close_connection_def release_worker_def finish_close_split)
qed

text \<open>
  C29. \<open>LSAPI_End_Response_r\<close> on a response under way sends what is buffered, the end packet and
  the notice that the connection closes, and closes it; after that the request is in the
  background: every write reports success, whatever its length, and sends nothing.
\<close>
theorem End_Response_background:
  assumes "sending r w out buffered"
  shows "\<exists>r' w'. LSAPI_End_Response_r r w = Some (0, r', w') \<and> m_fd r' = -1 \<and>
    wire w' = out @ stream_packets (last_payload buffered) @ packet_bytes (LSAPI_RESP_END, []) @ packet_bytes (LSAPI_CONN_CLOSE, []) \<and>
    write_all r' ps w' = Some (r', w')"
proof -
  have "write_all r' ps w' = Some (r', w')" if "LSAPI_ST_BACKGROUND \<in> m_reqState r'" for r' w'
    using that by (induction ps) (simp_all add: LSAPI_Write_r_def)
  with End_Response_sending [OF assms] show ?thesis by blast
qed

theorem End_Response_background_witness:
  "\<exists>r' w'. LSAPI_End_Response_r (snd (the (LSAPI_FinalizeRespHeaders_r ready_request))) (start_world []) = Some (0, r', w') \<and> m_fd r' = -1 \<and>
    wire w' = packet_bytes (LSAPI_RESP_HEADER, header_payload 0 []) @ packet_bytes (LSAPI_RESP_END, []) @ packet_bytes (LSAPI_CONN_CLOSE, []) \<and>
    write_all r' [[1, 2, 3]] w' = Some (r', w')"
proof -
  have w: "tx_live (start_world [])" "wire (start_world []) = []" by (simp_all add: start_world_def)
  have st: "m_status ready_request = 0"
    by (simp add: LSAPI_InitRequest_def allocateIovec_def allocateRespHeaderBuf_def start_world_def zero_request_def Let_def)
  from finalize_headers [OF ready_headers w(1)] obtain r' where
    r: "LSAPI_FinalizeRespHeaders_r ready_request = Some (0, r')"
      "sending r' (start_world []) (packet_bytes (LSAPI_RESP_HEADER, header_payload 0 [])) []"
    unfolding w(2) st append_Nil by blast
  from End_Response_background [OF r(2), of "[[1, 2, 3]]"] show ?thesis unfolding r(1) by simp
qed

subsection \<open>Short writes\<close>

text \<open>
  C30. When the peer takes only a part of a stderr packet that includes its whole header,
  \<open>LSAPI_Write_Stderr_r\<close> lets the kernel read beyond its array of two \<open>iovec\<close>s:
  \<open>lsapi_writev\<close> has stepped to the second one and still offers two.
\<close>
theorem Write_Stderr_short_write_overruns:
  assumes "m_fd r \<noteq> -1" "m_fd r \<noteq> m_fdListen r" "s_stderr_log_path w = None" "m_pRespBufPos r = 0"
    and "g_running w" "\<not> s_skip_write w" "w_tx w = [TxAccept k]"
    and "length p \<le> LSAPI_MAX_DATA_PACKET_LEN" "8 \<le> k" "k < length p + 8"
  shows "LSAPI_Write_Stderr_r r p w = None"
proof -
  let ?hdr = "packet_header_bytes (lsapi_buildPacketHeader LSAPI_STDERR_STREAM (int (length p + 8)))"
  let ?v0 = "\<lparr>iov_base = StderrHeader ?hdr, iov_off = 0, iov_len = 8\<rparr>"
  let ?v1 = "\<lparr>iov_base = UserData p, iov_off = 0, iov_len = length p\<rparr>"
  let ?bs = "?hdr @ p" and ?tot = "int (length p + 8)"
  let ?w = "w\<lparr>w_tx := [], wire := wire w @ take k ?bs\<rparr>"
  have d: "iov_data (deref r) ?v0 = Some ?hdr" "iov_data (deref r) ?v1 = Some p"
    by (rule iov_data_prefix [of _ _ _ "[]"]; simp add: deref_def)+
  then have g: "gather (deref r) [Some ?v0, Some ?v1] 0 2 = Some ?bs" by (simp add: gather_2)
  have sw: "sys_write ?bs w = (Inr k, ?w)"
    using assms(7,10) by (simp add: sys_write_def)
  let ?v1' = "if k = 8 then ?v1 else ?v1\<lparr>iov_off := k - 8, iov_len := length p - (k - 8)\<rparr>"
  have "\<not> length p \<le> k - 8" using assms(9,10) by simp
  then have adv: "iov_advance [Some ?v0, Some ?v1] 0 k = Some ([Some ?v0, Some ?v1'], 1)"
    using assms(9,10) by (simp add: iov_advance.simps [of _ 0] iov_advance.simps [of _ "Suc 0"])
  have g2: "gather (deref r) [Some ?v0, Some ?v1'] 1 2 = None"
    using gather_take [of "deref r" "[Some ?v0, Some ?v1']" 1 2] by (cases "gather (deref r) [Some ?v0, Some ?v1'] 1 2") auto
  have left: "?tot - int k > 0" using assms(10) by simp
  have "writev_loop (deref r) 2 ?tot (Suc (Suc n)) [Some ?v0, Some ?v1] 0 ?tot w = None" for n
    using assms(5,9) left g sw adv g2 by (simp add: writev_loop.simps(2) [of _ _ _ "Suc n"] writev_loop.simps(2) [of _ _ _ n] del: gather.simps)
  from this [of 3] have "lsapi_writev (deref r) [Some ?v0, Some ?v1] 0 2 ?tot w = None"
    using assms(6,7) by (simp add: lsapi_writev_def eval_nat_numeral)
  then have "fd_writev r [Some ?v0, Some ?v1] 2 ?tot w = None"
    using assms(1,6) by (simp add: fd_writev_def)
  moreover have "p \<noteq> []" "min (length p) 16384 = length p" using assms(8-10) by auto
  ultimately have "Stderr_loop r p w = None"
    by (simp add: Stderr_loop.simps [of r p w] Let_def)
  then show ?thesis using assms(1-4) by (simp add: LSAPI_Write_Stderr_r_def)
qed

theorem Write_Stderr_short_write_overruns_witness:
  "LSAPI_Write_Stderr_r ready_request [0x6f, 0x6b] ((start_world [])\<lparr>w_tx := [TxAccept 9]\<rparr>) = None"
  by (rule Write_Stderr_short_write_overruns [of _ _ 9])
    (simp_all add: LSAPI_InitRequest_def allocateIovec_def allocateRespHeaderBuf_def start_world_def zero_request_def Let_def)

end
