(* ===== verification/Lsapi_Suexec.thy ===== *)
theory Lsapi_Suexec
  imports Lsapi_MD5 Lsapi_Response
begin

text \<open>
  How a worker that was started as root takes the identity of a request: the shared secret
  (\<open>readSecret\<close>), the authentication of the requested user (\<open>lsapi_suexec_auth\<close>), CloudLinux
  LVE containers, the sequence of system calls that drops the privileges (\<open>setUID_LVE\<close>), and
  \<open>lsapi_changeUGid\<close>, which puts them together; and the reading of a request packet from the
  connection (\<open>readReq\<close>), which calls it.
\<close>

subsection \<open>The operating system\<close>

text \<open>
  The privileged system calls, and the part of the operating system they work on: the log of
  the calls that succeeded, oldest first, and what decides the outcome of a call. The
  functions of liblve are reached through pointers that \<open>init_lve_ex\<close> loads.
\<close>

datatype priv_call =
    SetGid int | InitGroups "byte list" int | SetGroups int | Chroot "byte list" | SetUid int | SetDumpable

record passwd =
  pw_name :: "byte list"
  pw_gid :: int

datatype realpath_error = ENOENT | EACCES | EPATH

record suexec_os =
  priv_log :: "priv_call list"
  priv_ok :: "priv_call \<Rightarrow> bool"
  getpwuid :: "int \<Rightarrow> passwd option"
  s_lve :: bool
  fp_lve_enter :: "int \<Rightarrow> int"
  fp_lve_jail :: "(passwd \<Rightarrow> int) option"
  s_enable_lve :: int
  s_enable_core_dump :: bool
  os_getuid :: nat
  os_getpid :: nat
  os_strerror :: "byte list"
  getcwd :: "byte list option"
  realpath :: "byte list \<Rightarrow> realpath_error option \<times> byte list"
  open_log :: "byte list \<Rightarrow> bool"

abbreviation (input) LSAPI_CAGEFS_NO_SUEXEC :: int where "LSAPI_CAGEFS_NO_SUEXEC \<equiv> 3"
abbreviation (input) PATH_MAX :: nat where "PATH_MAX \<equiv> 4096"

definition priv :: "priv_call \<Rightarrow> suexec_os \<Rightarrow> bool \<times> suexec_os" where
  "priv c os = (if priv_ok os c then (True, os\<lparr>priv_log := priv_log os @ [c]\<rparr>) else (False, os))"

text \<open>An \<open>int\<close> passed where a \<open>uid_t\<close> or \<open>gid_t\<close> is expected.\<close>

definition as_id :: "int \<Rightarrow> int" where
  "as_id n = n mod 4294967296"

subsection \<open>The secret\<close>

text \<open>A file that can be opened: the mode that \<open>fstat\<close> reports, or its failure, and the content.\<close>

record secret_file =
  st_mode :: "nat option"
  file_data :: "byte list"

definition readSecret :: "secret_file option \<Rightarrow> lsapi_world \<Rightarrow> int \<times> lsapi_world" where
  "readSecret file w =
    (case file of None \<Rightarrow> (-1, w)
     | Some f \<Rightarrow>
        (case st_mode f of None \<Rightarrow> (-1, w)
         | Some mode \<Rightarrow>
            if mode mod 64 \<noteq> 0 then (-1, w)
            else let w' = w\<lparr>s_secret := mem_write 0 (take 16 (file_data f)) (s_secret w)\<rparr>
              in (if length (file_data f) < 16 then -1 else 0, w')))"

definition LSAPI_is_suEXEC_Daemon :: "lsapi_world \<Rightarrow> bool" where
  "LSAPI_is_suEXEC_Daemon w \<longleftrightarrow> s_uid w = 0 \<and> hd (s_secret w) \<noteq> 0"

text \<open>
  \<open>lsapi_suexec_auth\<close> works on the request buffer: the nonce and the digest the peer sent are
  at \<open>pAuth\<close>; the secret is put in the place of the digest and then overwritten by the digest
  that is computed. The context on the stack is not initialised.
\<close>

definition suexec_digest :: "byte list \<Rightarrow> byte list \<Rightarrow> lsapi_world \<Rightarrow> byte list" where
  "suexec_digest a u w =
    (let md5ctx = lsapi_MD5Init (md5_zero_ctx\<lparr>md5_in := map (junk w) [0..<64]\<rparr>);
         md5ctx = lsapi_MD5Update md5ctx a;
         md5ctx = lsapi_MD5Update md5ctx u
     in fst (lsapi_MD5Final md5ctx))"

definition lsapi_suexec_auth :: "LSAPI_Request \<Rightarrow> int \<Rightarrow> int \<Rightarrow> int \<Rightarrow> lsapi_world \<Rightarrow> (int \<times> LSAPI_Request) option" where
  "lsapi_suexec_auth r pAuth len pUgid w =
    (if len < 32 then Some (-1, r)
     else do {
       achMD5 \<leftarrow> load (pAuth + 16) 16 (m_pReqBuf r);
       buf \<leftarrow> store (pAuth + 16) (take 16 (s_secret w)) (m_pReqBuf r);
       a \<leftarrow> load pAuth 32 buf;
       u \<leftarrow> load pUgid 8 buf;
       let digest = suexec_digest a u w;
       buf \<leftarrow> store (pAuth + 16) digest buf;
       Some (if achMD5 = digest then 0 else 1, r\<lparr>m_pReqBuf := buf\<rparr>) })"

subsection \<open>Error messages\<close>

fun decimal :: "nat \<Rightarrow> byte list" where
  "decimal n = (if n < 10 then [of_nat (48 + n)] else decimal (n div 10) @ [of_nat (48 + n mod 10)])"

declare decimal.simps [simp del]

text \<open>\<open>snprintf\<close> into 4096 bytes, and the number of bytes that is then written.\<close>

definition perror_text :: "suexec_os \<Rightarrow> string \<Rightarrow> byte list option \<Rightarrow> byte list" where
  "perror_text os e1 e2 =
    (let msg = ascii ''[UID:'' @ decimal (os_getuid os) @ ascii '']['' @ decimal (os_getpid os) @ ascii ''] '' @
               ascii e1 @ ascii '':'' @ (case e2 of None \<Rightarrow> [] | Some p \<Rightarrow> p) @ ascii '': '' @ os_strerror os @ [0x0a];
         n = (if length msg > 4096 then 4096 else length msg)
     in take n (take 4095 msg @ [0]))"

definition LSAPI_perror_r ::
  "suexec_os \<Rightarrow> LSAPI_Request \<Rightarrow> string \<Rightarrow> lsapi_world \<Rightarrow> (LSAPI_Request \<times> lsapi_world) option"
where
  "LSAPI_perror_r os r e1 w =
    map_option (\<lambda>(_, r, w). (r, w)) (LSAPI_Write_Stderr_r r (perror_text os e1 None) w)"

text \<open>With \<open>pReq = NULL\<close> the message goes to the standard error of the process.\<close>

definition LSAPI_perror_null :: "suexec_os \<Rightarrow> string \<Rightarrow> byte list \<Rightarrow> lsapi_world \<Rightarrow> lsapi_world" where
  "LSAPI_perror_null os e1 e2 w = w\<lparr>stderr_out := stderr_out w @ perror_text os e1 (Some e2)\<rparr>"

subsection \<open>LVE\<close>

definition lve_error_headers :: "string list" where
  "lve_error_headers =
    [''Cache-Control: private, no-cache, no-store, must-revalidate, max-age=0'', ''Pragma: no-cache'',
     ''Retry-After: 60'', ''Content-Type: text/html'']"

definition lve_error_body :: "byte list" where
  "lve_error_body =
    ascii ''<!DOCTYPE HTML PUBLIC \"-//IETF//DTD HTML 2.0//EN\">'' @ [0x0a] @
    ascii ''<HTML><HEAD>'' @ [0x0a] @ ascii ''<TITLE>508 Resource Limit Is Reached</TITLE>'' @ [0x0a] @
    ascii ''</HEAD><BODY>'' @ [0x0a] @ ascii ''<H1>Resource Limit Is Reached</H1>'' @ [0x0a] @
    ascii ''The website is temporarily unable to service your request as it exceeded resource limit.'' @ [0x0a] @
    ascii ''Please try again later.'' @ [0x0a] @ ascii ''<HR>'' @ [0x0a] @ ascii ''</BODY></HTML>'' @ [0x0a]"

definition lsapi_lve_error :: "LSAPI_Request \<Rightarrow> lsapi_world \<Rightarrow> (LSAPI_Request \<times> lsapi_world) option" where
  "lsapi_lve_error r w =
    map_option (\<lambda>(_, r, w). (r, w)) (LSAPI_ErrResponse_r r 508 (map ascii lve_error_headers) lve_error_body w)"

definition lsapi_enterLVE ::
  "suexec_os \<Rightarrow> LSAPI_Request \<Rightarrow> int \<Rightarrow> lsapi_world \<Rightarrow> (int \<times> LSAPI_Request \<times> lsapi_world) option"
where
  "lsapi_enterLVE os r uid w =
    (if s_lve os \<and> uid \<noteq> 0 \<and> fp_lve_enter os uid < 0
     then do {
       (r, w) \<leftarrow> LSAPI_perror_r os r ''LSAPI: lve_enter() failure, reached resource limit.'' w;
       (r, w) \<leftarrow> lsapi_lve_error r w;
       Some (-1, r, w) }
     else Some (0, r, w))"

definition lsapi_jailLVE ::
  "suexec_os \<Rightarrow> LSAPI_Request \<Rightarrow> (passwd \<Rightarrow> int) \<Rightarrow> passwd \<Rightarrow> lsapi_world \<Rightarrow> (int \<times> LSAPI_Request \<times> lsapi_world) option"
where
  "lsapi_jailLVE os r jail pw w =
    (if jail pw < 0
     then do { (r, w) \<leftarrow> LSAPI_perror_r os r ''LSAPI: jail() failure.'' w; Some (-1, r, w) }
     else Some (jail pw, r, w))"

subsection \<open>Dropping the privileges\<close>

text \<open>A system call of \<open>setUID_LVE\<close> that must succeed: a failure is reported and ends the function.\<close>

type_synonym suexec_result = "int \<times> LSAPI_Request \<times> lsapi_world \<times> suexec_os"

definition must ::
  "priv_call \<Rightarrow> string \<Rightarrow> LSAPI_Request \<Rightarrow> lsapi_world \<Rightarrow> suexec_os \<Rightarrow>
    (suexec_os \<Rightarrow> suexec_result option) \<Rightarrow> suexec_result option"
where
  "must c msg r w os cont =
    (case priv c os of (ok, os') \<Rightarrow>
      if ok then cont os'
      else do { (r, w) \<leftarrow> LSAPI_perror_r os r msg w; Some (-1, r, w, os') })"

text \<open>The LVE part of \<open>setUID_LVE\<close>: it yields the identity to use, or fails.\<close>

definition lve_identity ::
  "suexec_os \<Rightarrow> LSAPI_Request \<Rightarrow> int \<Rightarrow> int \<Rightarrow> lsapi_world
    \<Rightarrow> (int \<times> int \<times> int \<times> passwd option \<times> LSAPI_Request \<times> lsapi_world) option"
where
  "lve_identity os r uid gid w =
    (let pw = getpwuid os uid in
     if s_lve os
     then do {
       (rc, r, w) \<leftarrow> lsapi_enterLVE os r uid w;
       (if rc = -1 then Some (-1, uid, gid, pw, r, w)
        else case (pw, fp_lve_jail os) of
          (Some p, Some jail) \<Rightarrow> do {
            (rv, r, w) \<leftarrow> lsapi_jailLVE os r jail p w;
            Some (if rv = -1 then (-1, uid, gid, pw, r, w)
                  else if rv = 1 \<and> s_enable_lve os = LSAPI_CAGEFS_NO_SUEXEC
                  then (0, s_defaultUid w, s_defaultGid w, getpwuid os (s_defaultUid w), r, w)
                  else (0, uid, gid, pw, r, w)) }
        | _ \<Rightarrow> Some (0, uid, gid, pw, r, w)) }
     else Some (0, uid, gid, pw, r, w))"

text \<open>From \<open>chroot\<close> on; \<open>lsapi_enable_core_dump\<close> reports a failure of \<open>prctl\<close> only.\<close>

definition setuid_part ::
  "LSAPI_Request \<Rightarrow> int \<Rightarrow> byte list option \<Rightarrow> lsapi_world \<Rightarrow> suexec_os \<Rightarrow> suexec_result option"
where
  "setuid_part r uid pChroot w os =
    (let change = (\<lambda>os. must (SetUid uid) ''LSAPI: setuid()'' r w os
       (\<lambda>os. Some (0, r, w, if s_enable_core_dump os then snd (priv SetDumpable os) else os)))
     in case pChroot of None \<Rightarrow> change os
        | Some dir \<Rightarrow> must (Chroot dir) ''LSAPI: chroot()'' r w os change)"

text \<open>\<open>setgroups\<close> alone may fail without ending the function.\<close>

definition setgroups_part ::
  "LSAPI_Request \<Rightarrow> int \<Rightarrow> int \<Rightarrow> passwd option \<Rightarrow> byte list option \<Rightarrow> lsapi_world \<Rightarrow> suexec_os \<Rightarrow> suexec_result option"
where
  "setgroups_part r uid gid pw pChroot w os =
    (if pw \<noteq> None \<and> pw_gid (the pw) = gid
     then must (InitGroups (pw_name (the pw)) gid) ''LSAPI: initgroups()'' r w os (setuid_part r uid pChroot w)
     else case priv (SetGroups gid) os of (ok, os') \<Rightarrow> do {
       (r, w) \<leftarrow> (if ok then Some (r, w) else LSAPI_perror_r os r ''LSAPI: setgroups()'' w);
       setuid_part r uid pChroot w os' })"

definition setUID_LVE ::
  "LSAPI_Request \<Rightarrow> int \<Rightarrow> int \<Rightarrow> byte list option \<Rightarrow> lsapi_world \<Rightarrow> suexec_os \<Rightarrow> suexec_result option"
where
  "setUID_LVE r uid gid pChroot w os = do {
    (rc, uid, gid, pw, r, w) \<leftarrow> lve_identity os r uid gid w;
    (if rc = -1 then Some (-1, r, w, os)
     else must (SetGid gid) ''LSAPI: setgid()'' r w os (setgroups_part r uid gid pw pChroot w)) }"

subsection \<open>The standard error of the worker\<close>

text \<open>
  \<open>lsapi_check_path\<close> completes the path in a buffer of \<open>PATH_MAX\<close> bytes; \<open>memccpy\<close> must find
  the NUL within the rest of it. \<open>realpath\<close> leaves a resolved path behind also when it fails.
\<close>

definition lsapi_check_path :: "byte list \<Rightarrow> suexec_os \<Rightarrow> byte list option" where
  "lsapi_check_path p os = do {
    pre \<leftarrow> (if take 1 p \<noteq> [0x2f] then map_option (\<lambda>cwd. cwd @ [0x2f]) (getcwd os) else Some []);
    let final = pre @ p;
    (if length p + 1 > PATH_MAX - length pre then None
     else case realpath os final of (err, resolved) \<Rightarrow>
       if err = Some EPATH then None
       else if take 5 resolved = ascii ''/etc/'' then None
       else Some final) }"

definition lsapi_reopen_stderr2 :: "byte list \<Rightarrow> suexec_os \<Rightarrow> lsapi_world \<Rightarrow> int \<times> lsapi_world" where
  "lsapi_reopen_stderr2 full_path os w =
    (if open_log os full_path then (0, w\<lparr>s_stderr_log_path := Some full_path\<rparr>)
     else (-1, LSAPI_perror_null os ''Failed to open custom stderr log'' full_path w))"

definition lsapi_reopen_stderr :: "byte list \<Rightarrow> suexec_os \<Rightarrow> lsapi_world \<Rightarrow> int \<times> lsapi_world" where
  "lsapi_reopen_stderr p os w =
    (if s_uid w = 0 then (-1, w)
     else case lsapi_check_path p os of
       None \<Rightarrow> (-1, LSAPI_perror_null os ''Invalid custom stderr log path'' p w)
     | Some full_path \<Rightarrow> lsapi_reopen_stderr2 full_path os w)"

subsection \<open>The identity of a request\<close>

definition special_env :: "LSAPI_Request \<Rightarrow> int \<Rightarrow> LSAPI_key_value_pair option" where
  "special_env r i = (if 0 \<le> i \<and> nat i < length (m_pSpecialEnvList r) then m_pSpecialEnvList r ! nat i else None)"

text \<open>\<open>strcmp (p, s) == 0\<close>, which reads no further than the first difference.\<close>

fun c_str_eq :: "byte list \<Rightarrow> int \<Rightarrow> byte list \<Rightarrow> bool option" where
  "c_str_eq buf p [] = Some True"
| "c_str_eq buf p (c # s) = do { b \<leftarrow> load p 1 buf; (if b ! 0 = c then c_str_eq buf (p + 1) s else Some False) }"

definition special_key_is :: "LSAPI_Request \<Rightarrow> LSAPI_key_value_pair \<Rightarrow> string \<Rightarrow> bool option" where
  "special_key_is r kv name = c_str_eq (m_pReqBuf r) (pKey kv) (0 # ascii name @ [0])"

text \<open>\<open>--pReq->m_pHeader->m_cntSpecialEnv\<close>.\<close>

definition drop_special :: "LSAPI_Request \<Rightarrow> LSAPI_Request option" where
  "drop_special r = do {
    cnt \<leftarrow> hdr_cntSpecialEnv (m_pReqBuf r);
    buf \<leftarrow> store 40 (int32_bytes (cnt - 1)) (m_pReqBuf r);
    Some (r\<lparr>m_pReqBuf := buf\<rparr>) }"

text \<open>
  The part of \<open>lsapi_changeUGid\<close> that finds the user, with the entry \<open>i\<close> as the last of the
  special environment: the numbers of an authenticated request, 0 when the authentication
  fails, the default when none is asked for. The entry before is taken without a check that
  there is one.
\<close>

definition suexec_user :: "LSAPI_Request \<Rightarrow> int \<Rightarrow> lsapi_world \<Rightarrow> (int \<times> int \<times> LSAPI_Request) option" where
  "suexec_user r i w = do {
    pAuth \<leftarrow> special_env r i;
    isAuth \<leftarrow> special_key_is r pAuth ''SUEXEC_AUTH'';
    (if isAuth
     then do {
       r \<leftarrow> drop_special r;
       pEnv \<leftarrow> special_env r (i - 1);
       isUgid \<leftarrow> special_key_is r pEnv ''SUEXEC_UGID'';
       (if isUgid
        then do {
          r \<leftarrow> drop_special r;
          uid \<leftarrow> load_int32 (pValue pEnv) (m_pReqBuf r);
          gid \<leftarrow> load_int32 (pValue pEnv + 4) (m_pReqBuf r);
          (rc, r) \<leftarrow> lsapi_suexec_auth r (pValue pAuth) (valLen pAuth) (pValue pEnv) w;
          Some (if rc = 0 then uid else 0, gid, r) }
        else Some (0, s_defaultGid w, r)) }
     else Some (s_defaultUid w, s_defaultGid w, r)) }"

text \<open>What follows a successful \<open>setUID_LVE\<close>: the listener is closed, the log of the request is opened.\<close>

definition identity_changed :: "int \<Rightarrow> LSAPI_Request \<Rightarrow> lsapi_world \<Rightarrow> suexec_os \<Rightarrow> suexec_result option" where
  "identity_changed uid r w os = do {
    let w = w\<lparr>s_uid := as_id uid\<rparr>;
    let r = (if m_fdListen r \<noteq> -1 then r\<lparr>m_fdListen := -1\<rparr> else r);
    (p, r) \<leftarrow> LSAPI_GetEnv_r r (ascii ''LSAPI_STDERR_LOG'');
    (case p of None \<Rightarrow> Some (0, r, w, os)
     | Some p \<Rightarrow> do {
         path \<leftarrow> c_string_at p (m_pReqBuf r);
         Some (0, r, snd (lsapi_reopen_stderr path os w), os) }) }"

definition lsapi_changeUGid :: "LSAPI_Request \<Rightarrow> lsapi_world \<Rightarrow> suexec_os \<Rightarrow> suexec_result option" where
  "lsapi_changeUGid r w os =
    (if s_uid w \<noteq> 0 then Some (0, r, w, os)
     else do {
       cnt \<leftarrow> hdr_cntSpecialEnv (m_pReqBuf r);
       (uid, gid, r) \<leftarrow> (if cnt - 1 \<ge> 0 then suexec_user r (cnt - 1) w else Some (s_defaultUid w, s_defaultGid w, r));
       let (uid, gid) = (if uid = 0 then (s_defaultUid w, s_defaultGid w) else (uid, gid));
       (rc, r, w, os) \<leftarrow> setUID_LVE r (as_id uid) (as_id gid) None w os;
       (if rc = -1 then Some (-1, r, w, os) else identity_changed uid r w os) })"

subsection \<open>Reading a request\<close>

text \<open>
  The first loop of \<open>readReq\<close> reads to the start of the buffer in every round. A result of 0
  or less ends the function with -1.
\<close>

function readReq_head :: "LSAPI_Request \<Rightarrow> lsapi_world \<Rightarrow> int \<times> LSAPI_Request \<times> lsapi_world" where
  "readReq_head r w =
    (if m_bufRead r < int LSAPI_PACKET_HEADER_LEN
     then case lsapi_read (length (m_pReqBuf r)) w of
       (Inl _, w) \<Rightarrow> (-1, r, w)
     | (Inr bs, w) \<Rightarrow>
         if bs = [] then (-1, r, w)
         else readReq_head (r\<lparr>m_pReqBuf := mem_write 0 bs (m_pReqBuf r), m_bufRead := m_bufRead r + int (length bs)\<rparr>) w
     else (0, r, w))"
  by pat_completeness auto
termination
  by (relation "measure (\<lambda>(r, w). nat (8 - m_bufRead r))") auto

declare readReq_head.simps [simp del]

function readReq_rest :: "int \<Rightarrow> LSAPI_Request \<Rightarrow> lsapi_world \<Rightarrow> (int \<times> LSAPI_Request \<times> lsapi_world) option" where
  "readReq_rest packetLen r w =
    (if packetLen > m_bufRead r
     then case lsapi_read (nat (packetLen - m_bufRead r)) w of
       (Inl _, w) \<Rightarrow> Some (-1, r, w)
     | (Inr bs, w) \<Rightarrow>
         if bs = [] then Some (-1, r, w)
         else case store (m_bufRead r) bs (m_pReqBuf r) of None \<Rightarrow> None
           | Some buf \<Rightarrow> readReq_rest packetLen (r\<lparr>m_pReqBuf := buf, m_bufRead := m_bufRead r + int (length bs)\<rparr>) w
     else Some (0, r, w))"
  by pat_completeness auto
termination
  by (relation "measure (\<lambda>(packetLen, r, w). nat (packetLen - m_bufRead r))") auto

declare readReq_rest.simps [simp del]

text \<open>After the packet is parsed: the identity, and the notification that a request was received.\<close>

definition readReq_accept :: "int \<Rightarrow> LSAPI_Request \<Rightarrow> lsapi_world \<Rightarrow> suexec_os \<Rightarrow> suexec_result option" where
  "readReq_accept packetLen r w os = do {
    let r = r\<lparr>m_reqState := {LSAPI_ST_REQ_BODY, LSAPI_ST_RESP_HEADER}\<rparr>;
    (rc, r, w, os) \<leftarrow>
      (if s_uid w = 0
       then do {
         (rc, r, w, os) \<leftarrow> lsapi_changeUGid r w os;
         Some (if rc \<noteq> 0 then (-1 :: int, r, w, os) else (0, r, w\<lparr>s_secret := replicate 24 0\<rparr>, os)) }
       else Some (0, r, w, os));
    (if rc \<noteq> 0 then Some (-1, r, w, os)
     else do {
       let r = r\<lparr>m_bufProcessed := packetLen\<rparr>;
       (if \<not> s_accept_notify w \<and> \<not> s_notified_pid w
        then case notify_req_received w of (rc, w) \<Rightarrow> Some (rc, r, w, os)
        else Some (0, r, w\<lparr>s_notified_pid := False\<rparr>, os)) }) }"

definition readReq :: "LSAPI_Request \<Rightarrow> lsapi_world \<Rightarrow> suexec_os \<Rightarrow> suexec_result option" where
  "readReq r w os =
    (case (if length (m_pReqBuf r) < 8192 then allocateBuf r 8192 w else (0, r)) of (rc, r) \<Rightarrow>
     if rc = -1 then Some (-1, r, w, os)
     else case readReq_head r w of (rc, r, w) \<Rightarrow>
     if rc = -1 then Some (-1, r, w, os)
     else let r = r\<lparr>m_reqState := {LSAPI_ST_REQ_HEADER}\<rparr>;
              (packetLen, h) = verifyHeader (packet_header_at (m_pReqBuf r)) LSAPI_BEGIN_REQUEST;
              r = r\<lparr>m_pReqBuf := mem_write 0 (packet_header_bytes h) (m_pReqBuf r)\<rparr>
       in if packetLen < 0 then Some (-1, r, w, os)
       else if packetLen > LSAPI_MAX_HEADER_LEN then Some (-1, r, w, os)
       else case (if packetLen + 1024 > int (length (m_pReqBuf r)) then allocateBuf r (nat packetLen + 1024) w else (0, r)) of
         (rc, r) \<Rightarrow>
         if rc = -1 then Some (-1, r, w, os)
         else do {
           (rc, r, w) \<leftarrow> readReq_rest packetLen r w;
           (if rc = -1 then Some (-1, r, w, os)
            else do {
              (rc, r) \<leftarrow> parseRequest r packetLen w;
              (if rc < 0 then Some (-1, r, w, os) else readReq_accept packetLen r w os) }) })"

end
