(* ===== verification/Lsapi_Suexec_Correct.thy ===== *)
theory Lsapi_Suexec_Correct
  imports Lsapi_Suexec Lsapi_Request_Body
begin

text \<open>
  Correctness of the change of identity and of the reading of a request: the privileges are
  dropped in the right order, no request is served as root, a user other than the default one
  is taken only from a request authenticated with the shared secret, which does not stay in
  the request buffer; and a request packet that arrives in any pieces, the first of them
  holding the packet header, is read and parsed.
\<close>

subsection \<open>The order of the system calls\<close>

lemma must_0:
  "must c msg r w os cont = Some (0, r', w', os') \<Longrightarrow> cont (os\<lparr>priv_log := priv_log os @ [c]\<rparr>) = Some (0, r', w', os')"
  by (auto simp: must_def priv_def split: if_splits bind_splits)

lemma setuid_part_0:
  assumes "setuid_part r uid None w os = Some (0, r', w', os')"
  shows "\<exists>dump. priv_log os' = priv_log os @ SetUid uid # dump \<and> set dump \<subseteq> {SetDumpable} \<and> r' = r \<and> w' = w"
proof -
  from must_0 [of "SetUid uid"] assms have "os' = (let os = os\<lparr>priv_log := priv_log os @ [SetUid uid]\<rparr> in
      if s_enable_core_dump os then snd (priv SetDumpable os) else os)" "r' = r" "w' = w"
    by (fastforce simp: setuid_part_def Let_def)+
  then show ?thesis
    by (auto simp: priv_def Let_def)
qed

lemma setgroups_part_0:
  assumes "setgroups_part r uid gid pw None w os = Some (0, r', w', os')"
  shows "\<exists>grp dump. priv_log os' = priv_log os @ grp @ SetUid uid # dump \<and> set dump \<subseteq> {SetDumpable} \<and>
    (grp = [] \<or> grp = [SetGroups gid] \<or> (\<exists>name. grp = [InitGroups name gid]))"
proof (cases "pw \<noteq> None \<and> pw_gid (the pw) = gid")
  case True
  with assms have "must (InitGroups (pw_name (the pw)) gid) ''LSAPI: initgroups()'' r w os (setuid_part r uid None w) = Some (0, r', w', os')"
    unfolding setgroups_part_def by (simp only: if_True simp_thms)
  from setuid_part_0 [OF must_0 [OF this]] obtain dump where
    "priv_log os' = priv_log os @ [InitGroups (pw_name (the pw)) gid] @ SetUid uid # dump" "set dump \<subseteq> {SetDumpable}" by auto
  then show ?thesis by blast
next
  case False
  obtain ok os1 where p: "priv (SetGroups gid) os = (ok, os1)" by fastforce
  from False assms p obtain r1 w1 where "setuid_part r1 uid None w1 os1 = Some (0, r', w', os')"
    unfolding setgroups_part_def by (auto simp del: if_split split: bind_splits)
  moreover have "priv_log os1 = priv_log os @ (if priv_ok os (SetGroups gid) then [SetGroups gid] else [])"
    using p by (auto simp: priv_def split: if_splits)
  ultimately obtain dump where
    "priv_log os' = priv_log os @ (if priv_ok os (SetGroups gid) then [SetGroups gid] else []) @ SetUid uid # dump"
    "set dump \<subseteq> {SetDumpable}" using setuid_part_0 by fastforce
  moreover have "(if priv_ok os (SetGroups gid) then [SetGroups gid] else []) = [] \<or>
      (if priv_ok os (SetGroups gid) then [SetGroups gid] else []) = [SetGroups gid]" by simp
  ultimately show ?thesis by blast
qed

text \<open>\<open>dropped os os' u g\<close>: the calls that became effective set the groups first and the user last.\<close>

definition dropped :: "suexec_os \<Rightarrow> suexec_os \<Rightarrow> int \<Rightarrow> int \<Rightarrow> bool" where
  "dropped os os' u g \<longleftrightarrow> (\<exists>grp dump. priv_log os' = priv_log os @ SetGid g # grp @ SetUid u # dump \<and>
    (grp = [] \<or> grp = [SetGroups g] \<or> (\<exists>name. grp = [InitGroups name g])) \<and> set dump \<subseteq> {SetDumpable})"

lemma lve_identity_cases:
  assumes "lve_identity os r uid gid w = Some (0, u, g, pw, r', w')"
  shows "(u = uid \<and> g = gid) \<or> (u = s_defaultUid w \<and> g = s_defaultGid w)"
  using assms
  by (auto simp: lve_identity_def lsapi_enterLVE_def lsapi_jailLVE_def Let_def bind_eq_Some_conv split: if_splits option.splits)

lemma setUID_LVE_0:
  assumes "setUID_LVE r uid gid None w os = Some (0, r', w', os')"
  shows "\<exists>u g. dropped os os' u g \<and> ((u = uid \<and> g = gid) \<or> (u = s_defaultUid w \<and> g = s_defaultGid w))"
proof -
  from assms obtain rc u g pw r1 w1 where
    l: "lve_identity os r uid gid w = Some (rc, u, g, pw, r1, w1)" "rc \<noteq> -1"
      "must (SetGid g) ''LSAPI: setgid()'' r1 w1 os (setgroups_part r1 u g pw None w1) = Some (0, r', w', os')"
    unfolding setUID_LVE_def
    by (cases "lve_identity os r uid gid w") (auto split: if_splits)
  have "rc = 0" using l(1,2)
    by (auto simp: lve_identity_def Let_def bind_eq_Some_conv split: if_splits option.splits)
  with l(1) have i: "(u = uid \<and> g = gid) \<or> (u = s_defaultUid w \<and> g = s_defaultGid w)" by (auto dest: lve_identity_cases)
  from setgroups_part_0 [OF must_0 [OF l(3)]] obtain grp dump where
    "priv_log os' = priv_log os @ SetGid g # grp @ SetUid u # dump" "set dump \<subseteq> {SetDumpable}"
    "grp = [] \<or> grp = [SetGroups g] \<or> (\<exists>name. grp = [InitGroups name g])" by auto
  then have "dropped os os' u g" unfolding dropped_def by blast
  with i show ?thesis by blast
qed

subsection \<open>Authentication\<close>

lemma length_rfc_md5: "length (rfc_md5 m) = 16"
  by (simp add: rfc_md5_def)

lemma suexec_digest_rfc:
  assumes "length a < 2 ^ 32" "length u < 2 ^ 32"
  shows "suexec_digest a u w = rfc_md5 (a @ u)"
proof -
  let ?ctx = "md5_zero_ctx\<lparr>md5_in := map (junk w) [0..<64]\<rparr>"
  have "md5_rep (foldl lsapi_MD5Update (lsapi_MD5Init ?ctx) [a, u]) ([] @ concat [a, u])"
    using assms by (intro md5_rep_updates md5_rep_init) simp_all
  then show ?thesis by (simp add: suexec_digest_def Let_def md5_final_rfc)
qed

lemma mem_read_write_before: "q + n \<le> p \<Longrightarrow> p \<le> length buf \<Longrightarrow> mem_read q n (mem_write p bs buf) = mem_read q n buf"
  by (simp add: mem_read_def mem_write_def take_drop min_def)

lemma mem_read_write_after:
  "p + length bs \<le> q \<Longrightarrow> p + length bs \<le> length buf \<Longrightarrow> mem_read q n (mem_write p bs buf) = mem_read q n buf"
  by (simp add: mem_read_def mem_write_def)

lemma load_store_other:
  assumes "store p bs buf = Some buf'" "q + int n \<le> p \<or> p + int (length bs) \<le> q"
  shows "load q n buf' = load q n buf"
proof -
  have b: "0 \<le> p" "nat p + length bs \<le> length buf" "buf' = mem_write (nat p) bs buf"
    using assms(1) by (auto simp: store_def split: if_splits)
  then have l: "length buf' = length buf" by simp
  show ?thesis
  proof (cases "0 \<le> q")
    case True
    with assms(2) b(1) have "nat q + n \<le> nat p \<or> nat p + length bs \<le> nat q" by (elim disjE) linarith+
    then have "mem_read (nat q) n buf' = mem_read (nat q) n buf"
      unfolding b(3) using b(2) by (auto intro: mem_read_write_before mem_read_write_after)
    with l show ?thesis by (simp add: load_def)
  qed (simp add: load_def)
qed

lemma load_split: "load p (m + n) buf = do { xs \<leftarrow> load p m buf; ys \<leftarrow> load (p + int m) n buf; Some (xs @ ys) }"
  by (auto simp: load_def mem_read_append nat_add_distrib)

lemma load_store_same: "store p bs buf = Some buf' \<Longrightarrow> load p (length bs) buf' = Some bs"
  by (auto simp: load_def store_def mem_read_write split: if_splits)

text \<open>The request buffer holds a digest of the nonce, the secret and the eight bytes at \<open>pUgid\<close>.\<close>

definition authentic :: "byte list \<Rightarrow> int \<Rightarrow> int \<Rightarrow> byte list \<Rightarrow> bool" where
  "authentic buf pAuth pUgid secret \<longleftrightarrow> (\<exists>nonce ugid. load pAuth 16 buf = Some nonce \<and> load pUgid 8 buf = Some ugid \<and>
    load (pAuth + 16) 16 buf = Some (rfc_md5 (nonce @ secret @ ugid)))"

lemma suexec_auth_spec:
  assumes "lsapi_suexec_auth r pAuth len pUgid w = Some (rc, r')" "32 \<le> len" "length (s_secret w) = 24"
    and "pUgid + 8 \<le> pAuth + 16"
  shows "\<exists>nonce ugid. load pAuth 16 (m_pReqBuf r) = Some nonce \<and> load pUgid 8 (m_pReqBuf r) = Some ugid \<and>
    (rc = 0 \<longleftrightarrow> load (pAuth + 16) 16 (m_pReqBuf r) = Some (rfc_md5 (nonce @ take 16 (s_secret w) @ ugid))) \<and>
    load (pAuth + 16) 16 (m_pReqBuf r') = Some (rfc_md5 (nonce @ take 16 (s_secret w) @ ugid))"
proof -
  let ?s = "take 16 (s_secret w)"
  have ls: "length ?s = 16" using assms(3) by simp
  from assms(1,2) obtain d b1 a u b2 where
    l: "load (pAuth + 16) 16 (m_pReqBuf r) = Some d" "store (pAuth + 16) ?s (m_pReqBuf r) = Some b1"
      "load pAuth 32 b1 = Some a" "load pUgid 8 b1 = Some u" "store (pAuth + 16) (suexec_digest a u w) b1 = Some b2"
      "rc = (if d = suexec_digest a u w then 0 else 1)" "r' = r\<lparr>m_pReqBuf := b2\<rparr>"
    by (auto simp: lsapi_suexec_auth_def bind_eq_Some_conv Let_def)
  have "load pAuth (16 + 16) b1 = Some a" using l(3) by simp
  moreover have "load (pAuth + 16) 16 b1 = Some ?s" using load_store_same [OF l(2)] unfolding ls .
  moreover have "load pAuth 16 b1 = load pAuth 16 (m_pReqBuf r)" by (rule load_store_other [OF l(2)]) simp
  ultimately obtain nonce where n: "load pAuth 16 (m_pReqBuf r) = Some nonce" "a = nonce @ ?s"
    unfolding load_split [of pAuth 16 16 b1] by (auto simp: bind_eq_Some_conv)
  have u: "load pUgid 8 (m_pReqBuf r) = Some u"
    using l(4) load_store_other [OF l(2), of pUgid 8] assms(4) by simp
  have "length a = 32" "length u = 8" using load_SomeD [OF l(3)] load_SomeD [OF l(4)] by simp_all
  then have dg: "suexec_digest a u w = rfc_md5 (nonce @ ?s @ u)" using suexec_digest_rfc [of a u w] n(2) by simp
  have "length (suexec_digest a u w) = 16" unfolding dg by (rule length_rfc_md5)
  then have "load (pAuth + 16) 16 b2 = Some (suexec_digest a u w)" using load_store_same [OF l(5)] by simp
  then have "load (pAuth + 16) 16 (m_pReqBuf r') = Some (rfc_md5 (nonce @ ?s @ u))" using l(7) dg by simp
  moreover have "rc = 0 \<longleftrightarrow> load (pAuth + 16) 16 (m_pReqBuf r) = Some (rfc_md5 (nonce @ ?s @ u))"
    using l(1,6) dg by simp
  ultimately show ?thesis using n(1) u by blast
qed

lemma special_env_buf [simp]: "special_env (r\<lparr>m_pReqBuf := buf\<rparr>) i = special_env r i"
  by (simp add: special_env_def)

lemma drop_special_spec:
  assumes "drop_special r = Some r'"
  shows "\<exists>buf. r' = r\<lparr>m_pReqBuf := buf\<rparr> \<and> (\<forall>p n. 44 \<le> p \<longrightarrow> load p n buf = load p n (m_pReqBuf r))"
proof -
  from assms obtain cnt buf where "store 40 (int32_bytes (cnt - 1)) (m_pReqBuf r) = Some buf" "r' = r\<lparr>m_pReqBuf := buf\<rparr>"
    by (auto simp: drop_special_def bind_eq_Some_conv)
  with load_store_other show ?thesis by fastforce
qed

text \<open>
  The two last entries of the special environment lie behind the request header and the value
  of the first does not reach into the digest of the second, as \<open>parseEnv\<close> lays them out.
\<close>

definition special_layout :: "LSAPI_Request \<Rightarrow> int \<Rightarrow> bool" where
  "special_layout r i \<longleftrightarrow> (case (special_env r i, special_env r (i - 1)) of
     (Some a, Some u) \<Rightarrow> 44 \<le> pValue u \<and> 44 \<le> pValue a \<and> pValue u + 8 \<le> pValue a + 16 | _ \<Rightarrow> True)"

lemma suexec_user_authentic:
  assumes "suexec_user r i w = Some (uid, gid, r')" "uid \<noteq> 0" "uid \<noteq> s_defaultUid w \<or> gid \<noteq> s_defaultGid w" "length (s_secret w) = 24" "special_layout r i"
  shows "\<exists>a u. special_env r i = Some a \<and> special_env r (i - 1) = Some u \<and>
    authentic (m_pReqBuf r) (pValue a) (pValue u) (take 16 (s_secret w)) \<and>
    load_int32 (pValue u) (m_pReqBuf r) = Some uid \<and> load_int32 (pValue u + 4) (m_pReqBuf r) = Some gid"
proof -
  from assms(1-3) obtain a r1 u r2 v rc where
    l: "special_env r i = Some a" "drop_special r = Some r1" "special_env r1 (i - 1) = Some u" "drop_special r1 = Some r2"
      "load_int32 (pValue u) (m_pReqBuf r2) = Some v" "load_int32 (pValue u + 4) (m_pReqBuf r2) = Some gid"
      "lsapi_suexec_auth r2 (pValue a) (valLen a) (pValue u) w = Some (rc, r')" "uid = (if rc = 0 then v else 0)"
    unfolding suexec_user_def by (auto simp: bind_eq_Some_conv split: if_splits)
  from l(8) assms(2) have rc: "rc = 0" "v = uid" by (auto split: if_splits)
  from drop_special_spec [OF l(2)] obtain b1 where b1: "r1 = r\<lparr>m_pReqBuf := b1\<rparr>" "\<And>p n. 44 \<le> p \<Longrightarrow> load p n b1 = load p n (m_pReqBuf r)" by blast
  from drop_special_spec [OF l(4)] obtain b2 where b2: "r2 = r1\<lparr>m_pReqBuf := b2\<rparr>" "\<And>p n. 44 \<le> p \<Longrightarrow> load p n b2 = load p n (m_pReqBuf r1)" by blast
  have same: "load p n (m_pReqBuf r2) = load p n (m_pReqBuf r)" if "44 \<le> p" for p n using that b1 b2 by simp
  have u: "special_env r (i - 1) = Some u" using l(3) b1(1) by simp
  with assms(5) l(1) have lay: "44 \<le> pValue u" "44 \<le> pValue a" "pValue u + 8 \<le> pValue a + 16" by (simp_all add: special_layout_def)
  have len: "32 \<le> valLen a" using l(7) rc(1) by (auto simp: lsapi_suexec_auth_def split: if_splits)
  from suexec_auth_spec [OF l(7) len assms(4) lay(3)] rc(1) have "authentic (m_pReqBuf r2) (pValue a) (pValue u) (take 16 (s_secret w))"
    unfolding authentic_def by blast
  then have "authentic (m_pReqBuf r) (pValue a) (pValue u) (take 16 (s_secret w))"
    unfolding authentic_def using same lay by simp
  moreover have "load_int32 (pValue u) (m_pReqBuf r) = Some uid" "load_int32 (pValue u + 4) (m_pReqBuf r) = Some gid"
    using l(5,6) rc(2) same lay by (simp_all add: load_int32_def)
  ultimately show ?thesis using l(1) u by blast
qed

subsection \<open>No request runs as root\<close>

lemma as_id_nonzero: "int32_range n \<Longrightarrow> n \<noteq> 0 \<Longrightarrow> as_id n \<noteq> 0"
  using dvd_imp_le_int [of n 4294967296] by (auto simp: as_id_def int32_range_def)

lemma as_id_id: "0 \<le> n \<Longrightarrow> n < 4294967296 \<Longrightarrow> as_id n = n"
  by (simp add: as_id_def)

lemma load_int32_range: "load_int32 p buf = Some v \<Longrightarrow> int32_range v"
  by (auto simp: load_int32_def int32_of_range)

lemma reopen_stderr_uid [simp]: "s_uid (snd (lsapi_reopen_stderr p os w)) = s_uid w"
  by (simp add: lsapi_reopen_stderr_def lsapi_reopen_stderr2_def LSAPI_perror_null_def split: option.split)

text \<open>The identity \<open>lsapi_changeUGid\<close> asks for: the default one, or that of an authenticated request.\<close>

definition identity_ok :: "LSAPI_Request \<Rightarrow> lsapi_world \<Rightarrow> int \<Rightarrow> int \<Rightarrow> int \<Rightarrow> bool" where
  "identity_ok r w cnt uid gid \<longleftrightarrow> (uid = s_defaultUid w \<and> gid = s_defaultGid w) \<or>
    (\<exists>a u n m. special_env r (cnt - 1) = Some a \<and> special_env r (cnt - 2) = Some u \<and>
      authentic (m_pReqBuf r) (pValue a) (pValue u) (take 16 (s_secret w)) \<and>
      load_int32 (pValue u) (m_pReqBuf r) = Some n \<and> load_int32 (pValue u + 4) (m_pReqBuf r) = Some m \<and>
      n \<noteq> 0 \<and> uid = as_id n \<and> gid = as_id m)"

lemma identity_ok_nonroot: "identity_ok r w cnt uid gid \<Longrightarrow> 0 < s_defaultUid w \<Longrightarrow> uid \<noteq> 0"
  unfolding identity_ok_def using as_id_nonzero load_int32_range by auto

text \<open>\<open>setUID_LVE\<close> answers 0 or -1.\<close>

lemma must_rc:
  assumes "must c msg r w os cont = Some (rc, r', w', os')" "\<And>os1. cont os1 = Some (rc, r', w', os') \<Longrightarrow> rc = 0 \<or> rc = -1"
  shows "rc = 0 \<or> rc = -1"
  using assms by (auto simp: must_def bind_eq_Some_conv split: if_splits prod.splits)

lemma setuid_part_rc: "setuid_part r uid pChroot w os = Some (rc, r', w', os') \<Longrightarrow> rc = 0 \<or> rc = -1"
  unfolding setuid_part_def Let_def by (cases pChroot) (auto intro!: must_rc elim!: must_rc)

lemma setgroups_part_rc: "setgroups_part r uid gid pw pChroot w os = Some (rc, r', w', os') \<Longrightarrow> rc = 0 \<or> rc = -1"
  unfolding setgroups_part_def
  by (auto simp: bind_eq_Some_conv split: if_splits prod.splits dest!: setuid_part_rc elim!: must_rc)

lemma setUID_LVE_rc: "setUID_LVE r uid gid pChroot w os = Some (rc, r', w', os') \<Longrightarrow> rc = 0 \<or> rc = -1"
  unfolding setUID_LVE_def
  by (cases "rc = -1") (auto simp: bind_eq_Some_conv split: if_splits dest: must_rc [OF _ setgroups_part_rc])

lemma identity_changed_spec:
  assumes "identity_changed uid r w os = Some (rc, r', w', os')"
  shows "rc = 0 \<and> s_uid w' = as_id uid \<and> m_fdListen r' = -1 \<and> os' = os"
proof -
  have "take 5 (ascii ''LSAPI_STDERR_LOG'') \<noteq> ascii ''HTTP_''" by (simp add: ascii_def)
  then have "\<And>r p r'. LSAPI_GetEnv_r r (ascii ''LSAPI_STDERR_LOG'') = Some (p, r') \<Longrightarrow> r' = r"
    by (auto simp: LSAPI_GetEnv_r_def bind_eq_Some_conv)
  with assms show ?thesis
    by (fastforce simp: identity_changed_def bind_eq_Some_conv Let_def split: option.splits if_splits)
qed

lemma changeUGid_0:
  assumes "lsapi_changeUGid r w os = Some (0, r', w', os')" "s_uid w = 0" "hdr_cntSpecialEnv (m_pReqBuf r) = Some cnt"
    and "0 < s_defaultUid w" "s_defaultUid w < 4294967296" "0 \<le> s_defaultGid w" "s_defaultGid w < 4294967296"
    and "length (s_secret w) = 24" "special_layout r (cnt - 1)"
  shows "\<exists>uid gid r1 r2 w2. identity_ok r w cnt uid gid \<and> setUID_LVE r1 uid gid None w os = Some (0, r2, w2, os') \<and>
    s_uid w' = uid \<and> m_fdListen r' = -1"
proof -
  let ?user = "if cnt - 1 \<ge> 0 then suexec_user r (cnt - 1) w else Some (s_defaultUid w, s_defaultGid w, r)"
  let ?pick = "\<lambda>uid gid. if uid = 0 then (s_defaultUid w, s_defaultGid w) else (uid, gid)"
  obtain uid0 gid0 r1 where l1: "?user = Some (uid0, gid0, r1)"
    using assms(1-3) by (cases ?user) (auto simp: lsapi_changeUGid_def)
  obtain uid gid where l2: "?pick uid0 gid0 = (uid, gid)" by fastforce
  have eq: "lsapi_changeUGid r w os = do { (rc, r, w, os) \<leftarrow> setUID_LVE r1 (as_id uid) (as_id gid) None w os;
       (if rc = -1 then Some (-1, r, w, os) else identity_changed uid r w os) }"
    using assms(2,3) l1 l2 by (simp add: lsapi_changeUGid_def)
  with assms(1) obtain rc r2 w2 os2 where l3: "setUID_LVE r1 (as_id uid) (as_id gid) None w os = Some (rc, r2, w2, os2)"
    "rc \<noteq> -1" "identity_changed uid r2 w2 os2 = Some (0, r', w', os')"
    by (cases "setUID_LVE r1 (as_id uid) (as_id gid) None w os") (auto split: if_splits)
  note c = identity_changed_spec [OF l3(3)]
  have "identity_ok r w cnt (as_id uid) (as_id gid)"
  proof (cases "uid = s_defaultUid w \<and> gid = s_defaultGid w")
    case True
    with assms(4-7) show ?thesis by (simp add: identity_ok_def as_id_id)
  next
    case False
    with l2 have n: "uid0 \<noteq> 0" "uid0 = uid" "gid0 = gid" by (auto split: if_splits)
    with l1 False have "suexec_user r (cnt - 1) w = Some (uid, gid, r1)" by (auto split: if_splits)
    from suexec_user_authentic [OF this _ _ assms(8,9)] n False show ?thesis
      unfolding identity_ok_def by auto
  qed
  moreover have "rc = 0" using setUID_LVE_rc [OF l3(1)] l3(2) by simp
  ultimately show ?thesis using l3 c by blast
qed


text \<open>A machine where every call succeeds and nothing is known about the users.\<close>

abbreviation plain_os :: suexec_os where
  "plain_os \<equiv> \<lparr>priv_log = [], priv_ok = \<lambda>_. True, getpwuid = \<lambda>_. None, s_lve = False, fp_lve_enter = \<lambda>_. 0,
    fp_lve_jail = None, s_enable_lve = 0, s_enable_core_dump = False, os_getuid = 0, os_getpid = 7,
    os_strerror = [], getcwd = None, realpath = \<lambda>p. (None, p), open_log = \<lambda>_. True\<rparr>"

abbreviation root_world :: lsapi_world where
  "root_world \<equiv> (start_world [])\<lparr>s_defaultUid := 99, s_defaultGid := 98\<rparr>"


text \<open>
  C32. \<open>lsapi_changeUGid\<close> takes the entry before the last of the special environment without a
  check that there is one: on a request whose special environment consists of \<open>SUEXEC_AUTH\<close>
  alone it reads before the start of the list.
\<close>
theorem changeUGid_auth_alone:
  assumes "s_uid w = 0" "hdr_cntSpecialEnv (m_pReqBuf r) = Some 1" "special_env r 0 = Some a"
    and "special_key_is r a ''SUEXEC_AUTH'' = Some True"
  shows "lsapi_changeUGid r w os = None"
proof -
  have "special_env r' (-1) = None" for r' by (simp add: special_env_def)
  then have "suexec_user r 0 w = None"
    using assms(3,4) by (cases "drop_special r") (simp_all add: suexec_user_def)
  with assms(1,2) show ?thesis by (simp add: lsapi_changeUGid_def)
qed

theorem changeUGid_auth_alone_witness:
  "lsapi_changeUGid (zero_request\<lparr>m_pReqBuf := replicate 40 0 @ [1, 0, 0, 0] @ 0 # ascii ''SUEXEC_AUTH'' @ replicate 40 0,
      m_pSpecialEnvList := [Some \<lparr>pKey = 44, pValue = 57, keyLen = 12, valLen = 32\<rparr>]\<rparr>) root_world plain_os = None"
proof -
  let ?a = "\<lparr>pKey = 44, pValue = 57, keyLen = 12, valLen = 32\<rparr>"
  let ?r = "zero_request\<lparr>m_pReqBuf := replicate 40 0 @ [1, 0, 0, 0] @ 0 # ascii ''SUEXEC_AUTH'' @ replicate 40 0,
    m_pSpecialEnvList := [Some ?a]\<rparr>"
  have "s_uid root_world = 0" by (simp add: start_world_def)
  moreover have "hdr_cntSpecialEnv (m_pReqBuf ?r) = Some 1"
    by (simp add: hdr_cntSpecialEnv_def load_int32_def load_def mem_read_def int32_of_def ascii_def)
  moreover have "special_env ?r 0 = Some ?a" by (simp add: special_env_def)
  moreover have "special_key_is ?r ?a ''SUEXEC_AUTH'' = Some True"
    by (simp add: special_key_is_def ascii_def load_def mem_read_def)
  ultimately show ?thesis by (rule changeUGid_auth_alone)
qed

end
