(* ===== verification/Lsapi_Read_Request.thy ===== *)
theory Lsapi_Read_Request
  imports Lsapi_Suexec_Correct
begin

text \<open>
  Reading a request from the connection: a packet that arrives in any pieces, the first of
  which holds at least the packet header, is read and parsed, and what the peer sent behind
  it is the request body.
\<close>

text \<open>The buffer up to \<open>m_bufRead\<close> and what the connection still delivers make up \<open>stream\<close>.\<close>

definition filled :: "byte list \<Rightarrow> int \<Rightarrow> lsapi_world \<Rightarrow> byte list \<Rightarrow> bool" where
  "filled buf n w stream \<longleftrightarrow> 0 \<le> n \<and> n \<le> int (length buf) \<and> take (nat n) buf @ rx_avail w = stream"

lemma filled_store:
  assumes "filled buf n w stream" "rx_avail w = bs @ rx_avail w'" "nat n + length bs \<le> length buf"
  shows "filled (mem_write (nat n) bs buf) (n + int (length bs)) w' stream"
proof -
  have n: "0 \<le> n" using assms(1) by (simp add: filled_def)
  then have "nat (n + int (length bs)) = nat n + length bs" by simp
  moreover have "take (nat n + length bs) (mem_write (nat n) bs buf) = take (nat n) buf @ bs"
    using assms(3) by (rule take_mem_write)
  ultimately show ?thesis using assms n by (simp add: filled_def)
qed

lemma lsapi_read_live:
  assumes "lsapi_read len w = (x, w')" "g_running w" "g_running w'"
  shows "\<exists>es. w' = w\<lparr>w_rx := es\<rparr>"
proof
  have "w\<lparr>w_rx := w_rx w', g_running := True\<rparr> = w\<lparr>w_rx := w_rx w'\<rparr>" using assms(2) by simp
  with lsapi_read_frame [OF assms(1)] assms(3) show "w' = w\<lparr>w_rx := w_rx w'\<rparr>" by simp
qed

lemma readReq_rest_spec:
  assumes "filled (m_pReqBuf r) (m_bufRead r) w stream" "rx_live w" "packetLen \<le> int (length stream)"
    and "packetLen \<le> int (length (m_pReqBuf r))"
  shows "\<exists>buf n w'. readReq_rest packetLen r w = Some (0, r\<lparr>m_pReqBuf := buf, m_bufRead := n\<rparr>, w') \<and>
    filled buf n w' stream \<and> rx_live w' \<and> packetLen \<le> n \<and> (\<exists>es. w' = w\<lparr>w_rx := es\<rparr>) \<and> length buf = length (m_pReqBuf r)"
  using assms
proof (induction packetLen r w rule: readReq_rest.induct)
  case (1 packetLen r w)
  note f = "1.prems"(1) [unfolded filled_def]
  show ?case
  proof (cases "packetLen > m_bufRead r")
    case False
    then have "readReq_rest packetLen r w = Some (0, r\<lparr>m_pReqBuf := m_pReqBuf r, m_bufRead := m_bufRead r\<rparr>, w)"
      by (subst readReq_rest.simps) simp
    moreover have "\<exists>es. w = w\<lparr>w_rx := es\<rparr>" by (rule exI [of _ "w_rx w"]) simp
    ultimately show ?thesis
      using False "1.prems" by (intro exI [of _ "m_pReqBuf r"] exI [of _ "m_bufRead r"] exI [of _ w]) auto
  next
    case True
    let ?k = "nat (packetLen - m_bufRead r)"
    have "length stream = nat (m_bufRead r) + length (rx_avail w)" using f by auto
    then have "rx_avail w \<noteq> []" using True "1.prems"(3) f by auto
    with sock.rd_live [of w ?k] "1.prems"(2) True obtain bs w1 where
      rd: "lsapi_read ?k w = (Inr bs, w1)" "bs \<noteq> []" "rx_live w1" by auto
    have bs: "length bs \<le> ?k" "rx_avail w = bs @ rx_avail w1" by (rule sock.rd_le [OF rd(1)], rule sock.rd_avail [OF rd(1)])
    obtain es where fr: "w1 = w\<lparr>w_rx := es\<rparr>" using lsapi_read_live [OF rd(1)] rd(3) "1.prems"(2) by blast
    have fits: "nat (m_bufRead r) + length bs \<le> length (m_pReqBuf r)" using bs(1) f True "1.prems"(4) by linarith
    let ?buf = "mem_write (nat (m_bufRead r)) bs (m_pReqBuf r)"
    have st: "store (m_bufRead r) bs (m_pReqBuf r) = Some ?buf" using fits f by (simp add: store_def)
    let ?r = "r\<lparr>m_pReqBuf := ?buf, m_bufRead := m_bufRead r + int (length bs)\<rparr>"
    have eq: "readReq_rest packetLen r w = readReq_rest packetLen ?r w1"
      using True rd(1,2) st by (subst readReq_rest.simps) simp
    have "filled (m_pReqBuf ?r) (m_bufRead ?r) w1 stream"
      using filled_store [OF "1.prems"(1) bs(2) fits] by simp
    moreover have "packetLen \<le> int (length (m_pReqBuf ?r))" using fits "1.prems"(4) by simp
    ultimately obtain buf n w' where i: "readReq_rest packetLen ?r w1 = Some (0, ?r\<lparr>m_pReqBuf := buf, m_bufRead := n\<rparr>, w')"
      "filled buf n w' stream" "rx_live w'" "packetLen \<le> n" "\<exists>es. w' = w1\<lparr>w_rx := es\<rparr>" "length buf = length ?buf"
      using "1.IH" [OF True rd(1) [symmetric] refl rd(2) st] rd(3) "1.prems"(3) by auto
    have "\<exists>es. w' = w\<lparr>w_rx := es\<rparr>" using i(5) fr by auto
    with eq i fits show ?thesis by (intro exI [of _ buf] exI [of _ n] exI [of _ w']) simp
  qed
qed

text \<open>The first read delivers the packet header and possibly more.\<close>

lemma readReq_head_spec:
  assumes "m_bufRead r = 0" "w_rx w = RxData bs # es" "8 \<le> length bs" "8 \<le> length (m_pReqBuf r)" "rx_live w"
  shows "\<exists>buf n es'. readReq_head r w = (0, r\<lparr>m_pReqBuf := buf, m_bufRead := n\<rparr>, w\<lparr>w_rx := es'\<rparr>) \<and>
    filled buf n (w\<lparr>w_rx := es'\<rparr>) (rx_avail w) \<and> rx_live (w\<lparr>w_rx := es'\<rparr>) \<and> 8 \<le> n \<and> length buf = length (m_pReqBuf r)"
proof -
  let ?L = "length (m_pReqBuf r)" and ?d = "take (length (m_pReqBuf r)) bs"
  let ?es = "if length bs \<le> ?L then es else RxData (drop ?L bs) # es"
  let ?r = "r\<lparr>m_pReqBuf := mem_write 0 ?d (m_pReqBuf r), m_bufRead := int (length ?d)\<rparr>"
  have rd: "lsapi_read ?L w = (Inr ?d, w\<lparr>w_rx := ?es\<rparr>)"
    using assms(2) by (simp add: lsapi_read_cases)
  have d: "?d \<noteq> []" "8 \<le> length ?d" using assms(3,4) by auto
  have "readReq_head r w = readReq_head ?r (w\<lparr>w_rx := ?es\<rparr>)"
    using assms(1) rd d(1) by (subst readReq_head.simps) simp
  also have "\<dots> = (0, ?r, w\<lparr>w_rx := ?es\<rparr>)"
    using d(2) by (subst readReq_head.simps) simp
  finally have "readReq_head r w = (0, ?r, w\<lparr>w_rx := ?es\<rparr>)" .
  moreover have "filled (mem_write 0 ?d (m_pReqBuf r)) (int (length ?d)) (w\<lparr>w_rx := ?es\<rparr>) (rx_avail w)"
    using filled_store [of "m_pReqBuf r" 0 w "rx_avail w" ?d "w\<lparr>w_rx := ?es\<rparr>"] sock.rd_avail [OF rd]
    by (simp add: filled_def)
  moreover have "rx_live (w\<lparr>w_rx := ?es\<rparr>)" using assms(2,5) by auto
  ultimately show ?thesis
    using d(2) by (intro exI [of _ "mem_write 0 ?d (m_pReqBuf r)"] exI [of _ "int (length ?d)"] exI [of _ ?es]) simp
qed

lemma filled_realloc:
  assumes "filled buf n w stream" "length buf \<le> k"
  shows "filled (realloc_bytes w' buf k) n w stream" "length (realloc_bytes w' buf k) = k"
  using assms by (auto simp: filled_def realloc_bytes_def)

lemma filled_prefix:
  assumes "filled buf n w (xs @ rest)" "int (length xs) \<le> n"
  shows "\<exists>tail. buf = xs @ tail"
proof -
  have l: "length xs \<le> nat n" "nat n \<le> length buf" using assms by (auto simp: filled_def)
  then have "take (length xs) (take (nat n) buf @ rx_avail w) = take (length xs) buf" by (simp add: min_absorb1 min_absorb2)
  moreover have "take (length xs) (take (nat n) buf @ rx_avail w) = xs" using assms(1) by (simp add: filled_def)
  ultimately show ?thesis by (metis append_take_drop_id)
qed

lemma filled_body:
  assumes "filled buf n w (xs @ rest)" "int (length xs) \<le> n"
  shows "mem_read (length xs) (nat (n - int (length xs))) buf @ rx_avail w = rest"
proof -
  have "drop (length xs) (take (nat n) buf @ rx_avail w) = rest" using assms by (simp add: filled_def)
  then have "drop (length xs) (take (nat n) buf) @ rx_avail w = rest" using assms by (simp add: filled_def)
  moreover have "nat n - length xs = nat (n - int (length xs))" using assms(2) by simp
  ultimately show ?thesis by (simp add: mem_read_def drop_take)
qed

lemma verify_request_header:
  assumes "request_ok p" "buf = take 8 (request_bytes p) @ tail"
  shows "verifyHeader (packet_header_at buf) LSAPI_BEGIN_REQUEST =
      (int (rq_total p), lsapi_buildPacketHeader LSAPI_BEGIN_REQUEST (int (rq_total p)))"
    and "mem_write 0 (packet_header_bytes (lsapi_buildPacketHeader LSAPI_BEGIN_REQUEST (int (rq_total p)))) buf = buf"
proof -
  let ?h = "lsapi_buildPacketHeader LSAPI_BEGIN_REQUEST (int (rq_total p))"
  have b: "buf = packet_header_bytes ?h @ tail" using assms(2) by (simp add: request_bytes_def)
  have "int32_range (int (rq_total p))" using assms(1) by (simp add: request_ok_def int32_range_def)
  then show "verifyHeader (packet_header_at buf) LSAPI_BEGIN_REQUEST = (int (rq_total p), ?h)"
    unfolding b by (simp add: verify_build)
  show "mem_write 0 (packet_header_bytes ?h) buf = buf" unfolding b by (simp add: mem_write_def)
qed

text \<open>\<open>readReq\<close> up to the parsed packet, as one step.\<close>

lemma readReq_packet:
  assumes "request_ok p" "rq_bodyLen p \<noteq> -2" "\<And>n. alloc_ok w n" "m_bufRead r = 0" "rx_live w"
    and "w_rx w = RxData bs # es" "8 \<le> length bs" "rx_avail w = request_bytes p @ rest"
  shows "\<exists>buf n es' tail. readReq r w os = readReq_accept (int (rq_total p))
      (parsed p (r\<lparr>m_reqState := {LSAPI_ST_REQ_HEADER}, m_pReqBuf := buf, m_bufRead := n\<rparr>)) (w\<lparr>w_rx := es'\<rparr>) os \<and>
    buf = request_bytes p @ tail \<and> filled buf n (w\<lparr>w_rx := es'\<rparr>) (request_bytes p @ rest) \<and> int (rq_total p) \<le> n \<and> rx_live (w\<lparr>w_rx := es'\<rparr>)"
proof -
  let ?tot = "int (rq_total p)" and ?H = "lsapi_buildPacketHeader LSAPI_BEGIN_REQUEST (int (rq_total p))"
  have tot: "rq_total p \<le> 65535" using assms(1) by (simp add: request_ok_def)
  have len: "length (request_bytes p) = rq_total p" by (rule length_request_bytes [OF assms(1)])
  \<comment> \<open>the buffer has at least 8192 bytes\<close>
  define b0 where "b0 = (if length (m_pReqBuf r) < 8192 then realloc_bytes w (m_pReqBuf r) 8192 else m_pReqBuf r)"
  have b0: "8192 \<le> length b0" by (simp add: b0_def realloc_bytes_def)
  have a0: "(if length (m_pReqBuf r) < 8192 then allocateBuf r 8192 w else (0, r)) = (0, r\<lparr>m_pReqBuf := b0\<rparr>)"
    by (simp add: b0_def allocateBuf_def assms(3))
  obtain b1 n1 es1 where h: "readReq_head (r\<lparr>m_pReqBuf := b0\<rparr>) w = (0, r\<lparr>m_pReqBuf := b1, m_bufRead := n1\<rparr>, w\<lparr>w_rx := es1\<rparr>)"
    "filled b1 n1 (w\<lparr>w_rx := es1\<rparr>) (rx_avail w)" "rx_live (w\<lparr>w_rx := es1\<rparr>)" "8 \<le> n1" "length b1 = length b0"
    using readReq_head_spec [of "r\<lparr>m_pReqBuf := b0\<rparr>" w bs es] assms(4-7) b0 by auto
  have len8: "length (take 8 (request_bytes p)) = 8" by (simp add: request_bytes_def)
  have "rx_avail w = take 8 (request_bytes p) @ (drop 8 (request_bytes p) @ rest)" unfolding assms(8) by simp
  with h(2) obtain tail1 where t1: "b1 = take 8 (request_bytes p) @ tail1"
    using filled_prefix [of b1 n1 "w\<lparr>w_rx := es1\<rparr>" "take 8 (request_bytes p)"] h(4) len8 by (metis of_nat_numeral)
  note v = verify_request_header [OF assms(1) t1]
  \<comment> \<open>room for the packet\<close>
  define b2 where "b2 = (if ?tot + 1024 > int (length b1) then realloc_bytes w b1 (rq_total p + 1024) else b1)"
  let ?r1 = "r\<lparr>m_bufRead := n1, m_reqState := {LSAPI_ST_REQ_HEADER}, m_pReqBuf := b1\<rparr>"
  let ?r2 = "r\<lparr>m_bufRead := n1, m_reqState := {LSAPI_ST_REQ_HEADER}, m_pReqBuf := b2\<rparr>"
  have a2: "(if ?tot + 1024 > int (length b1) then allocateBuf ?r1 (nat ?tot + 1024) (w\<lparr>w_rx := es1\<rparr>) else (0, ?r1)) = (0, ?r2)"
    by (simp add: b2_def allocateBuf_def assms(3) realloc_bytes_def)
  have f2: "filled b2 n1 (w\<lparr>w_rx := es1\<rparr>) (request_bytes p @ rest)" "?tot \<le> int (length b2)"
    using h(2) filled_realloc [of b1 n1 "w\<lparr>w_rx := es1\<rparr>" "rx_avail w" "rq_total p + 1024"] assms(8) by (auto simp: b2_def)
  obtain buf n w' where r: "readReq_rest ?tot ?r2 (w\<lparr>w_rx := es1\<rparr>) = Some (0, ?r2\<lparr>m_pReqBuf := buf, m_bufRead := n\<rparr>, w')"
    "filled buf n w' (request_bytes p @ rest)" "rx_live w'" "?tot \<le> n" "\<exists>es. w' = w\<lparr>w_rx := es1\<rparr>\<lparr>w_rx := es\<rparr>"
    using readReq_rest_spec [of ?r2 "w\<lparr>w_rx := es1\<rparr>" "request_bytes p @ rest" ?tot] f2 h(3) len by auto
  from r(5) obtain es2 where w': "w' = w\<lparr>w_rx := es2\<rparr>" by auto
  obtain tail where t: "buf = request_bytes p @ tail" using filled_prefix [OF r(2)] r(4) len by auto
  let ?r3 = "r\<lparr>m_reqState := {LSAPI_ST_REQ_HEADER}, m_pReqBuf := buf, m_bufRead := n\<rparr>"
  have r3: "?r2\<lparr>m_pReqBuf := buf, m_bufRead := n\<rparr> = ?r3" by simp
  have pr: "parseRequest ?r3 ?tot w' = Some (0, parsed p ?r3)"
    by (rule parseRequest_bytes [OF assms(1)]) (use t w' assms(2,3) in simp_all)
  have "readReq r w os = readReq_accept ?tot (parsed p ?r3) w' os"
    unfolding readReq_def a0 using h(1) v tot a2 r(1) pr r3
    by (simp add: Let_def split del: if_split cong: if_cong)
  with t r(2-4) w' show ?thesis by blast
qed

lemma readReq_accept_plain:
  assumes "w_tx w = []" "s_uid w \<noteq> 0" "g_running w"
  shows "\<exists>w'. readReq_accept n r w os =
      Some (0, r\<lparr>m_reqState := {LSAPI_ST_REQ_BODY, LSAPI_ST_RESP_HEADER}, m_bufProcessed := n\<rparr>, w', os) \<and> w_rx w' = w_rx w \<and> g_running w' \<and>
      wire w' = wire w @ (if s_accept_notify w \<or> s_notified_pid w \<or> s_schedule_notify w then [] else s_ack)"
  using assms
  by (auto simp: readReq_accept_def notify_req_received_def lsapi_schedule_notify_def send_req_received_notification_def
      send_notification_pkt_def sys_write_def Let_def)


lemma sample_bytes_long: "8 \<le> length (request_bytes sample_packet)"
  by (simp add: request_bytes_def)


text \<open>
  C31. The first loop of \<open>readReq\<close> reads every piece to the start of the buffer: a well-formed
  request whose first piece has only one, two or three bytes is rejected.
\<close>
theorem readReq_short_first_piece:
  assumes "request_ok p" "\<And>n. alloc_ok w n" "m_bufRead r = 0" "rx_live w"
    and "w_rx w = [RxData a, RxData b]" "0 < length a" "length a \<le> 3" "a @ b = request_bytes p @ rest"
  shows "\<exists>r' w'. readReq r w os = Some (-1, r', w', os)"
proof -
  define b0 where "b0 = (if length (m_pReqBuf r) < 8192 then realloc_bytes w (m_pReqBuf r) 8192 else m_pReqBuf r)"
  have b0: "8192 \<le> length b0" by (simp add: b0_def realloc_bytes_def)
  have a0: "(if length (m_pReqBuf r) < 8192 then allocateBuf r 8192 w else (0, r)) = (0, r\<lparr>m_pReqBuf := b0\<rparr>)"
    by (simp add: b0_def allocateBuf_def assms(2))
  let ?L = "length b0" and ?d = "take (length b0) b"
  let ?es = "if length b \<le> ?L then [] else [RxData (drop ?L b)]"
  have hd: "take 8 (a @ b) = packet_header_bytes (lsapi_buildPacketHeader LSAPI_BEGIN_REQUEST (int (rq_total p)))"
    unfolding assms(8) by (simp add: request_bytes_def)
  have "8 \<le> length (a @ b)" unfolding assms(8) by (simp add: request_bytes_def)
  then have lb: "5 \<le> length b" "8 \<le> length a + length b" using assms(7) by auto
  have rd1: "lsapi_read ?L w = (Inr a, w\<lparr>w_rx := [RxData b]\<rparr>)"
    using assms(5,7) b0 by (simp add: lsapi_read_cases)
  have rd2: "lsapi_read ?L (w\<lparr>w_rx := [RxData b]\<rparr>) = (Inr ?d, w\<lparr>w_rx := ?es\<rparr>)"
    by (simp add: lsapi_read_cases)
  let ?b1 = "mem_write 0 a b0"
  let ?b2 = "mem_write 0 ?d ?b1"
  let ?r1 = "r\<lparr>m_pReqBuf := ?b1, m_bufRead := int (length a)\<rparr>"
  let ?r2 = "r\<lparr>m_pReqBuf := ?b2, m_bufRead := int (length a) + int (length ?d)\<rparr>"
  have l1: "length ?b1 = ?L" using assms(7) b0 by simp
  have "readReq_head (r\<lparr>m_pReqBuf := b0\<rparr>) w = readReq_head ?r1 (w\<lparr>w_rx := [RxData b]\<rparr>)"
    using assms(3,6) rd1 by (subst readReq_head.simps) auto
  also have "\<dots> = readReq_head ?r2 (w\<lparr>w_rx := ?es\<rparr>)"
    using assms(7) l1 rd2 lb b0 by (subst readReq_head.simps) auto
  also have "\<dots> = (0, ?r2, w\<lparr>w_rx := ?es\<rparr>)"
    using lb b0 assms(6) by (subst readReq_head.simps) auto
  finally have hd0: "readReq_head (r\<lparr>m_pReqBuf := b0\<rparr>) w = (0, ?r2, w\<lparr>w_rx := ?es\<rparr>)" .
  have "?b2 ! 0 = b ! 0" using lb b0 by (cases b; cases b0) (simp_all add: mem_write_def)
  moreover have "b ! 0 = take 8 (a @ b) ! length a" using assms(7) lb by (simp add: nth_append)
  moreover have "take 8 (a @ b) ! length a \<noteq> LSAPI_VERSION_B0"
    using assms(6,7) unfolding hd
    by (auto simp: packet_header_bytes_def lsapi_buildPacketHeader_def le_Suc_eq numeral_3_eq_3)
  ultimately have "verifyHeader (packet_header_at ?b2) LSAPI_BEGIN_REQUEST = (-1, packet_header_at ?b2)"
    by (simp add: verifyHeader_def packet_header_at_def)
  then show ?thesis
    unfolding readReq_def a0 using hd0 by (simp add: Let_def)
qed

theorem readReq_short_first_piece_witness:
  "\<exists>r' w'. readReq zero_request (start_world [RxData (take 2 (request_bytes sample_packet)), RxData (drop 2 (request_bytes sample_packet))]) plain_os =
    Some (-1, r', w', plain_os)"
proof (rule readReq_short_first_piece [OF sample_ok])
  have l: "8 \<le> length (request_bytes sample_packet)" by (rule sample_bytes_long)
  then have "take 2 (request_bytes sample_packet) \<noteq> [] \<and> drop 2 (request_bytes sample_packet) \<noteq> []" by auto
  then show "rx_live (start_world [RxData (take 2 (request_bytes sample_packet)), RxData (drop 2 (request_bytes sample_packet))])"
    by (simp add: start_world_def)
  show "0 < length (take 2 (request_bytes sample_packet))" using l by auto
  show "take 2 (request_bytes sample_packet) @ drop 2 (request_bytes sample_packet) = request_bytes sample_packet @ []" by simp
qed (simp_all add: start_world_def zero_request_def)

end
