(* ===== verification/Http_Utils.thy ===== *)
theory Http_Utils
  imports Lsapi_Request
begin

text \<open>
  http_utils.h: comparison of header names, the status line and header block of a response,
  and the decoder of the pairs format in which WebAssembly modules pass header maps to the
  host. C++ strings are byte lists; \<open>HeaderPairs\<close> is the list of pairs.
\<close>

type_synonym str = "byte list"
type_synonym HeaderPairs = "(str \<times> str) list"

subsection \<open>Header names\<close>

definition tolower :: "byte \<Rightarrow> byte" where
  "tolower c = (if 0x41 \<le> c \<and> c \<le> 0x5a then c + 0x20 else c)"

fun names_eq :: "str \<Rightarrow> str \<Rightarrow> bool" where
  "names_eq (a # as) (b # bs) = (if tolower a \<noteq> tolower b then False else names_eq as bs)"
| "names_eq _ _ = True"

definition header_name_eq :: "str \<Rightarrow> str \<Rightarrow> bool" where
  "header_name_eq a b = (if length a \<noteq> length b then False else names_eq a b)"

lemma names_eq_map: "length a = length b \<Longrightarrow> names_eq a b \<longleftrightarrow> map tolower a = map tolower b"
  by (induction a b rule: names_eq.induct) auto

lemma header_name_eq_iff: "header_name_eq a b \<longleftrightarrow> map tolower a = map tolower b"
  by (metis header_name_eq_def length_map names_eq_map)

lemma header_name_eq_refl [simp]: "header_name_eq a a"
  by (simp add: header_name_eq_iff)

subsection \<open>Decimal and hexadecimal numbers\<close>

text \<open>Output of an unsigned number in base \<open>b\<close>, as \<open>operator<<\<close> and \<open>printf\<close> write it.\<close>

definition digit_char :: "nat \<Rightarrow> byte" where
  "digit_char d = of_nat (if d < 10 then 48 + d else 87 + d)"

function number :: "nat \<Rightarrow> nat \<Rightarrow> str" where
  "number b n = (if n < b \<or> b < 2 then [digit_char n] else number b (n div b) @ [digit_char (n mod b)])"
  by pat_completeness auto
termination
  by (relation "measure (\<lambda>(b, n). n)") auto

declare number.simps [simp del]

abbreviation (input) CRLF :: str where "CRLF \<equiv> [0x0d, 0x0a]"

definition reason_phrase :: "nat \<Rightarrow> str" where
  "reason_phrase status_code = ascii (
    if status_code = 200 then ''OK'' else if status_code = 201 then ''Created''
    else if status_code = 204 then ''No Content'' else if status_code = 301 then ''Moved Permanently''
    else if status_code = 302 then ''Found'' else if status_code = 304 then ''Not Modified''
    else if status_code = 400 then ''Bad Request'' else if status_code = 401 then ''Unauthorized''
    else if status_code = 403 then ''Forbidden'' else if status_code = 404 then ''Not Found''
    else if status_code = 405 then ''Method Not Allowed''
    else if status_code = 431 then ''Request Header Fields Too Large''
    else if status_code = 500 then ''Internal Server Error'' else if status_code = 502 then ''Bad Gateway''
    else if status_code = 503 then ''Service Unavailable'' else [])"

definition header_line :: "str \<times> str \<Rightarrow> str" where
  "header_line = (\<lambda>(key, val). key @ ascii '': '' @ val @ CRLF)"

definition serialize_headers :: "nat \<Rightarrow> HeaderPairs \<Rightarrow> str" where
  "serialize_headers status_code headers =
    ascii ''HTTP/1.1 '' @ number 10 status_code @ ascii '' '' @ reason_phrase status_code @ CRLF @
    concat (map header_line headers) @ CRLF"

subsection \<open>The pairs format\<close>

text \<open>\<open>memcpy (&n, p, 4)\<close> into a \<open>uint32_t\<close>.\<close>

definition u32_at :: "nat \<Rightarrow> str \<Rightarrow> nat" where
  "u32_at p data = le_nat (mem_read p 4 data)"

text \<open>
  The second loop of \<open>deserialize_header_pairs\<close>: a key or value whose end or NUL would lie
  beyond the data ends the function with the pairs decoded so far.
\<close>

fun read_pairs :: "(nat \<times> nat) list \<Rightarrow> nat \<Rightarrow> str \<Rightarrow> HeaderPairs" where
  "read_pairs [] p data = []"
| "read_pairs ((key_size, value_size) # sizes) p data =
    (if p + key_size + 1 > length data then []
     else let key = mem_read p key_size data; p = p + key_size + 1
       in if p + value_size + 1 > length data then []
          else let val = mem_read p value_size data; p = p + value_size + 1
            in (key, val) # read_pairs sizes p data)"

definition deserialize_header_pairs :: "str \<Rightarrow> HeaderPairs" where
  "deserialize_header_pairs data =
    (if length data < 4 then []
     else let n = u32_at 0 data
       in if 4 + n * 8 > length data then []
          else let sizes = map (\<lambda>i. (u32_at (4 + 8 * i) data, u32_at (8 + 8 * i) data)) [0..<n]
            in read_pairs sizes (4 + 8 * n) data)"

text \<open>The format as its comment specifies it: count, table of sizes, NUL-terminated strings.\<close>

definition u32_bytes :: "nat \<Rightarrow> str" where
  "u32_bytes n = le_bytes 4 n"

definition marshal_pairs :: "HeaderPairs \<Rightarrow> str" where
  "marshal_pairs ps = u32_bytes (length ps) @
    concat (map (\<lambda>(k, v). u32_bytes (length k) @ u32_bytes (length v)) ps) @
    concat (map (\<lambda>(k, v). k @ [0] @ v @ [0]) ps)"

definition pairs_ok :: "HeaderPairs \<Rightarrow> bool" where
  "pairs_ok ps \<longleftrightarrow> length ps < 4294967296 \<and> list_all (\<lambda>(k, v). length k < 4294967296 \<and> length v < 4294967296) ps"

lemma length_u32_bytes [simp]: "length (u32_bytes n) = 4"
  by (simp add: u32_bytes_def)

lemma u32_at_append:
  "length xs = p \<Longrightarrow> n < 4294967296 \<Longrightarrow> u32_at p (xs @ u32_bytes n @ ys) = n"
  by (simp add: u32_at_def mem_read_def u32_bytes_def le_nat_le_bytes)

lemma length_sizes [simp]: "length (concat (map (\<lambda>(k, v). u32_bytes (length k) @ u32_bytes (length v)) ps)) = 8 * length ps"
  by (induction ps) auto

lemma read_pairs_marshal:
  assumes "data = pre @ concat (map (\<lambda>(k, v). k @ [0] @ v @ [0]) ps) @ rest" "p = length pre"
  shows "read_pairs (map (\<lambda>(k, v). (length k, length v)) ps) p data = ps"
  using assms
proof (induction ps arbitrary: pre p)
  case Nil
  then show ?case by simp
next
  case (Cons kv ps)
  obtain k v where kv: "kv = (k, v)" by fastforce
  let ?rest = "concat (map (\<lambda>(k, v). k @ [0] @ v @ [0]) ps) @ rest"
  have d: "data = pre @ k @ [0] @ v @ [0] @ ?rest" using Cons.prems(1) kv by simp
  have "mem_read p (length k) data = k" "mem_read (p + length k + 1) (length v) data = v"
    unfolding d Cons.prems(2) by (simp_all add: mem_read_def)
  moreover have "read_pairs (map (\<lambda>(k, v). (length k, length v)) ps) (p + length k + 1 + length v + 1) data = ps"
    by (rule Cons.IH [of "pre @ k @ [0] @ v @ [0]"]) (simp_all add: d Cons.prems(2))
  ultimately show ?case using d Cons.prems(2) kv by (simp add: Let_def)
qed

lemma sizes_table:
  assumes "data = pre @ concat (map (\<lambda>(k, v). u32_bytes (length k) @ u32_bytes (length v)) ps) @ rest"
    and "length pre = p" "list_all (\<lambda>(k, v). length k < 4294967296 \<and> length v < 4294967296) ps"
  shows "map (\<lambda>i. (u32_at (p + 8 * i) data, u32_at (p + 4 + 8 * i) data)) [0..<length ps] = map (\<lambda>(k, v). (length k, length v)) ps"
  using assms
proof (induction ps arbitrary: pre p)
  case Nil
  then show ?case by simp
next
  case (Cons kv ps)
  obtain k v where kv: "kv = (k, v)" by fastforce
  let ?rest = "concat (map (\<lambda>(k, v). u32_bytes (length k) @ u32_bytes (length v)) ps) @ rest"
  have d: "data = pre @ u32_bytes (length k) @ u32_bytes (length v) @ ?rest" using Cons.prems(1) kv by simp
  have k: "length k < 4294967296" "length v < 4294967296" using Cons.prems(3) kv by simp_all
  have "u32_at p data = length k" unfolding d using Cons.prems(2) k by (intro u32_at_append)
  moreover have "u32_at (p + 4) data = length v"
    using u32_at_append [of "pre @ u32_bytes (length k)" "p + 4" "length v" ?rest] Cons.prems(2) k d by simp
  moreover have "map (\<lambda>i. (u32_at (p + 8 + 8 * i) data, u32_at (p + 8 + 4 + 8 * i) data)) [0..<length ps] = map (\<lambda>(k, v). (length k, length v)) ps"
    by (rule Cons.IH [of "pre @ u32_bytes (length k) @ u32_bytes (length v)"]) (use d Cons.prems(2,3) in simp_all)
  moreover have "[0..<length (kv # ps)] = 0 # map Suc [0..<length ps]"
    by (simp add: upt_conv_Cons map_Suc_upt del: upt_Suc)
  ultimately show ?case using kv by (simp add: comp_def algebra_simps)
qed

lemma deserialize_marshal:
  assumes "pairs_ok ps"
  shows "deserialize_header_pairs (marshal_pairs ps @ rest) = ps"
proof -
  let ?sz = "concat (map (\<lambda>(k, v). u32_bytes (length k) @ u32_bytes (length v)) ps)"
  let ?kv = "concat (map (\<lambda>(k, v). k @ [0] @ v @ [0]) ps)"
  let ?d = "marshal_pairs ps @ rest"
  have n: "length ps < 4294967296" "list_all (\<lambda>(k, v). length k < 4294967296 \<and> length v < 4294967296) ps"
    using assms by (simp_all add: pairs_ok_def)
  have d: "?d = u32_bytes (length ps) @ ?sz @ ?kv @ rest" by (simp add: marshal_pairs_def)
  have "u32_at 0 ?d = length ps" using u32_at_append [of "[]" 0 "length ps" "?sz @ ?kv @ rest"] n(1) d by simp
  moreover have "map (\<lambda>i. (u32_at (4 + 8 * i) ?d, u32_at (8 + 8 * i) ?d)) [0..<length ps] = map (\<lambda>(k, v). (length k, length v)) ps"
    using sizes_table [of ?d "u32_bytes (length ps)" ps "?kv @ rest" 4] d n(2) by simp
  moreover have "read_pairs (map (\<lambda>(k, v). (length k, length v)) ps) (4 + 8 * length ps) ?d = ps"
    using read_pairs_marshal [of ?d "u32_bytes (length ps) @ ?sz" ps rest "4 + 8 * length ps"] d by simp
  moreover have "4 + length ps * 8 \<le> length ?d" unfolding d by simp
  ultimately show ?thesis by (simp add: deserialize_header_pairs_def Let_def)
qed

text \<open>Cut anywhere, the decoder yields the leading pairs that are complete.\<close>

lemma mem_read_take: "p + n \<le> m \<Longrightarrow> mem_read p n (take m xs) = mem_read p n xs"
  by (simp add: mem_read_def drop_take min_def)

lemma read_pairs_take:
  "\<exists>m. read_pairs sizes p (take k data) = take m (read_pairs sizes p data)"
proof (induction sizes p data rule: read_pairs.induct)
  case (1 p data)
  then show ?case by simp
next
  case (2 ks vs sizes p data)
  show ?case
  proof (cases "p + ks + 1 + vs + 1 \<le> length (take k data)")
    case True
    then have l: "p + ks + 1 + vs + 1 \<le> length data" "p + ks + 1 + vs + 1 \<le> k" by simp_all
    from "2.IH" [OF _ refl refl _ refl refl, of ] l obtain m where
      "read_pairs sizes (p + ks + 1 + vs + 1) (take k data) = take m (read_pairs sizes (p + ks + 1 + vs + 1) data)"
      by auto
    then have "read_pairs ((ks, vs) # sizes) p (take k data) = take (Suc m) (read_pairs ((ks, vs) # sizes) p data)"
      using l by (simp add: mem_read_take)
    then show ?thesis ..
  next
    case False
    then have "read_pairs ((ks, vs) # sizes) p (take k data) = take 0 (read_pairs ((ks, vs) # sizes) p data)"
      by (auto simp: Let_def min_def)
    then show ?thesis ..
  qed
qed



text \<open>
  On an encoding that is cut off at any byte, \<open>deserialize_header_pairs\<close> yields some of
  the leading pairs, each as it was encoded, and never reads beyond the data.
\<close>
theorem header_pairs_truncated:
  assumes "pairs_ok ps"
  shows "\<exists>m. deserialize_header_pairs (take k (marshal_pairs ps)) = take m ps"
proof (cases "4 + 8 * length ps \<le> length (take k (marshal_pairs ps))")
  case True
  let ?d = "marshal_pairs ps" and ?t = "take k (marshal_pairs ps)"
  have k: "4 + 8 * length ps \<le> k" using True by simp
  have u: "u32_at q ?t = u32_at q ?d" if "q + 4 \<le> 4 + 8 * length ps" for q
    using that k by (simp add: u32_at_def mem_read_take)
  have n: "u32_at 0 ?d = length ps"
    using u32_at_append [of "[]" 0 "length ps"] assms by (simp add: marshal_pairs_def pairs_ok_def)
  let ?S = "\<lambda>d. map (\<lambda>i. (u32_at (4 + 8 * i) d, u32_at (8 + 8 * i) d)) [0..<length ps]"
  have S: "?S ?t = ?S ?d" using u by simp
  have "length ?t \<le> length ?d" by simp
  then have "read_pairs (?S ?d) (4 + 8 * length ps) ?d = ps"
    using deserialize_marshal [OF assms, of "[]"] True n by (simp add: deserialize_header_pairs_def Let_def mult.commute)
  moreover have "deserialize_header_pairs ?t = read_pairs (?S ?t) (4 + 8 * length ps) ?t"
    using True u [of 0] n by (simp add: deserialize_header_pairs_def Let_def mult.commute min_def)
  ultimately show ?thesis using read_pairs_take [of "?S ?d" "4 + 8 * length ps" k ?d] unfolding S by simp
next
  case False
  have n: "u32_at 0 (marshal_pairs ps) = length ps"
    using u32_at_append [of "[]" 0 "length ps"] assms by (simp add: marshal_pairs_def pairs_ok_def)
  have "deserialize_header_pairs (take k (marshal_pairs ps)) = take 0 ps"
  proof (cases "length (take k (marshal_pairs ps)) < 4")
    case True
    then show ?thesis by (simp add: deserialize_header_pairs_def)
  next
    case long: False
    then have "u32_at 0 (take k (marshal_pairs ps)) = length ps"
      using n by (simp add: u32_at_def mem_read_take)
    with False long show ?thesis by (simp add: deserialize_header_pairs_def Let_def mult.commute min_def split: if_splits)
  qed
  then show ?thesis ..
qed

theorem header_pairs_truncated_witness:
  "pairs_ok [([0x41], [0x42])] \<and> (\<exists>m. deserialize_header_pairs (take 14 (marshal_pairs [([0x41], [0x42])])) = take m [([0x41], [0x42])])"
  using header_pairs_truncated [of "[([0x41], [0x42])]" 14] by (simp add: pairs_ok_def)

end
