(* ===== verification/Conn_IO.thy ===== *)
theory Conn_IO
  imports Http_Utils
begin

text \<open>
  connection_io.h: the bridge between a worker thread and the event loop. The record holds the
  members of \<open>ConnectionIO\<close>, \<open>cio_x\<close> for \<open>x_\<close>; a method that waits on a condition variable is \<open>None\<close> while its
  condition does not hold. Every method body runs under the mutex of its side, so that an
  execution of the two threads is a sequence of method calls; \<open>conn_step\<close> gives all of them.
  \<open>size_t\<close> counters are natural numbers.
\<close>

subsection \<open>State and operations\<close>

datatype BodyReadStatus = Data | Complete | Truncated | Error

record BodyReadResult =
  brr_data :: str
  brr_status :: BodyReadStatus

text \<open>\<open>cio_event_fd\<close> is the counter of the eventfd that \<open>signal_eventfd\<close> adds to.\<close>

record ConnectionIO =
  cio_event_fd :: nat
  cio_header_data :: str
  cio_body_prefix :: str
  cio_content_length :: nat
  cio_read_chunk :: str
  cio_body_bytes_fed :: nat
  cio_read_data_ready :: bool
  cio_read_eof :: bool
  cio_read_error :: bool
  cio_write_buffer :: str
  cio_write_cursor :: nat
  cio_write_pending :: bool
  cio_finished :: bool
  cio_write_error :: bool

definition new_connection :: ConnectionIO where
  "new_connection =
    \<lparr>cio_event_fd = 0, cio_header_data = [], cio_body_prefix = [], cio_content_length = 0, cio_read_chunk = [], cio_body_bytes_fed = 0,
     cio_read_data_ready = False, cio_read_eof = False, cio_read_error = False, cio_write_buffer = [], cio_write_cursor = 0,
     cio_write_pending = False, cio_finished = False, cio_write_error = False\<rparr>"

definition signal_eventfd :: "ConnectionIO \<Rightarrow> ConnectionIO" where
  "signal_eventfd c = c\<lparr>cio_event_fd := cio_event_fd c + 1\<rparr>"

definition bodyCompleteLocked :: "ConnectionIO \<Rightarrow> bool" where
  "bodyCompleteLocked c \<longleftrightarrow> cio_body_bytes_fed c \<ge> cio_content_length c"

definition setHeaderData :: "str \<Rightarrow> str \<Rightarrow> nat \<Rightarrow> ConnectionIO \<Rightarrow> ConnectionIO" where
  "setHeaderData header_data body_prefix content_length c =
    (let pre = (if length body_prefix > content_length then take content_length body_prefix else body_prefix)
     in c\<lparr>cio_header_data := header_data, cio_body_prefix := pre, cio_content_length := content_length,
          cio_body_bytes_fed := length pre\<rparr>)"

definition read_ready :: "nat \<Rightarrow> ConnectionIO \<Rightarrow> bool" where
  "read_ready max_chunk c \<longleftrightarrow>
    length (cio_read_chunk c) \<ge> max_chunk \<or> bodyCompleteLocked c \<or> cio_read_eof c \<or> cio_read_error c"

text \<open>The second half: the data is taken, then the status is determined from what is left.\<close>

definition take_chunk :: "nat \<Rightarrow> ConnectionIO \<Rightarrow> str \<times> ConnectionIO" where
  "take_chunk max_chunk c =
    (let (result, rest) =
           (if length (cio_read_chunk c) \<le> max_chunk then (cio_read_chunk c, [])
            else (take max_chunk (cio_read_chunk c), drop max_chunk (cio_read_chunk c)))
     in (result, c\<lparr>cio_read_chunk := rest, cio_read_data_ready := (if rest = [] then False else cio_read_data_ready c)\<rparr>))"

definition chunk_status :: "ConnectionIO \<Rightarrow> BodyReadStatus" where
  "chunk_status c =
    (if cio_read_chunk c = []
     then if bodyCompleteLocked c then Complete
       else if cio_read_error c then Error
       else if cio_read_eof c then Truncated
       else Data
     else Data)"

definition readBodyChunk :: "nat \<Rightarrow> ConnectionIO \<Rightarrow> (BodyReadResult \<times> ConnectionIO) option" where
  "readBodyChunk max_chunk c =
    (if \<not> read_ready max_chunk c then None
     else if cio_read_chunk c = [] \<and> bodyCompleteLocked c then Some (\<lparr>brr_data = [], brr_status = Complete\<rparr>, c)
     else if cio_read_chunk c = [] \<and> cio_read_error c then Some (\<lparr>brr_data = [], brr_status = Error\<rparr>, c)
     else if cio_read_chunk c = [] \<and> cio_read_eof c then Some (\<lparr>brr_data = [], brr_status = Truncated\<rparr>, c)
     else case take_chunk max_chunk c of (result, c) \<Rightarrow> Some (\<lparr>brr_data = result, brr_status = chunk_status c\<rparr>, c))"

definition writeData :: "str \<Rightarrow> ConnectionIO \<Rightarrow> ConnectionIO option" where
  "writeData data c =
    (if data = [] then Some c
     else if \<not> (cio_write_buffer c = [] \<or> cio_write_error c) then None
     else if cio_write_error c then Some c
     else Some (signal_eventfd (c\<lparr>cio_write_buffer := data, cio_write_cursor := 0, cio_write_pending := True\<rparr>)))"

definition conn_finish :: "ConnectionIO \<Rightarrow> ConnectionIO" where
  "conn_finish c = signal_eventfd (c\<lparr>cio_finished := True\<rparr>)"

definition setError :: "ConnectionIO \<Rightarrow> ConnectionIO" where
  "setError c = signal_eventfd (c\<lparr>cio_write_error := True, cio_finished := True\<rparr>)"

definition feedBody :: "str \<Rightarrow> bool \<Rightarrow> ConnectionIO \<Rightarrow> ConnectionIO" where
  "feedBody data eof c =
    (let c = (if length data > 0
              then c\<lparr>cio_read_chunk := cio_read_chunk c @ data, cio_body_bytes_fed := cio_body_bytes_fed c + length data,
                     cio_read_data_ready := True\<rparr>
              else c)
     in if eof then c\<lparr>cio_read_eof := True\<rparr> else c)"

definition feedError :: "ConnectionIO \<Rightarrow> ConnectionIO" where
  "feedError c = c\<lparr>cio_read_error := True\<rparr>"

definition writeError :: "ConnectionIO \<Rightarrow> ConnectionIO" where
  "writeError c = c\<lparr>cio_write_error := True, cio_write_buffer := []\<rparr>"

definition pendingWriteData :: "ConnectionIO \<Rightarrow> str" where
  "pendingWriteData c =
    (if cio_write_cursor c \<ge> length (cio_write_buffer c) then [] else drop (cio_write_cursor c) (cio_write_buffer c))"

definition advanceWrite :: "nat \<Rightarrow> ConnectionIO \<Rightarrow> ConnectionIO" where
  "advanceWrite n c =
    (let c = c\<lparr>cio_write_cursor := cio_write_cursor c + n\<rparr>
     in if cio_write_cursor c \<ge> length (cio_write_buffer c)
        then c\<lparr>cio_write_buffer := [], cio_write_cursor := 0, cio_write_pending := False\<rparr> else c)"

definition isWritePending :: "ConnectionIO \<Rightarrow> bool" where
  "isWritePending c = cio_write_pending c"

definition isFinished :: "ConnectionIO \<Rightarrow> bool" where
  "isFinished c \<longleftrightarrow> cio_finished c \<and> cio_write_buffer c = []"

definition conn_hasError :: "ConnectionIO \<Rightarrow> bool" where
  "conn_hasError c = cio_write_error c"

definition needsMoreBody :: "ConnectionIO \<Rightarrow> bool" where
  "needsMoreBody c \<longleftrightarrow> cio_body_bytes_fed c < cio_content_length c \<and> \<not> cio_read_eof c \<and> \<not> cio_read_error c"

definition bodyBytesReceived :: "ConnectionIO \<Rightarrow> nat" where
  "bodyBytesReceived c = cio_body_bytes_fed c"

subsection \<open>Byte channels\<close>

text \<open>
  What the writers of a response rely on: a channel into which one side puts data when it is
  empty and from which the other side takes what is queued, in order and without loss.
\<close>

datatype 'c channel_event = Put "'c list" | Drain nat

fun run_channel ::
  "('c list \<Rightarrow> 's \<Rightarrow> 's option) \<Rightarrow> (nat \<Rightarrow> 's \<Rightarrow> 'c list \<times> 's) \<Rightarrow> 'c channel_event list \<Rightarrow> 's \<Rightarrow> ('c list \<times> 's) option"
where
  "run_channel put drain [] s = Some ([], s)"
| "run_channel put drain (Put d # es) s =
    (case put d s of None \<Rightarrow> None | Some s' \<Rightarrow> run_channel put drain es s')"
| "run_channel put drain (Drain n # es) s =
    (case drain n s of (d, s') \<Rightarrow> map_option (\<lambda>(ds, s''). (d @ ds, s'')) (run_channel put drain es s'))"

fun puts :: "'c channel_event list \<Rightarrow> 'c list" where
  "puts [] = []"
| "puts (Put d # es) = d @ puts es"
| "puts (Drain n # es) = puts es"

lemma puts_append [simp]: "puts (xs @ ys) = puts xs @ puts ys"
  by (induction xs rule: puts.induct) auto

lemma run_channel_append:
  "run_channel put drain (xs @ ys) s =
    do { (ds, s') \<leftarrow> run_channel put drain xs s; (es, s'') \<leftarrow> run_channel put drain ys s'; Some (ds @ es, s'') }"
proof (induction xs arbitrary: s)
  case Nil
  then show ?case by (cases "run_channel put drain ys s") auto
next
  case (Cons e xs)
  then show ?case by (cases e) (auto split: option.splits prod.splits bind_splits)
qed

locale out_channel =
  fixes put :: "'c list \<Rightarrow> 's \<Rightarrow> 's option"
    and drain :: "nat \<Rightarrow> 's \<Rightarrow> 'c list \<times> 's"
    and queue :: "'s \<Rightarrow> 'c list"
    and ok :: "'s \<Rightarrow> bool"
  assumes put_queue: "ok s \<Longrightarrow> put d s = Some s' \<Longrightarrow> ok s' \<and> queue s' = queue s @ d"
    and put_ready: "ok s \<Longrightarrow> queue s = [] \<Longrightarrow> \<exists>s'. put d s = Some s'"
    and drain_queue: "ok s \<Longrightarrow> drain n s = (d, s') \<Longrightarrow> ok s' \<and> queue s = d @ queue s'"
    and drain_progress: "ok s \<Longrightarrow> 0 < n \<Longrightarrow> queue s \<noteq> [] \<Longrightarrow> fst (drain n s) \<noteq> []"
begin

text \<open>Whatever the schedule, what came out and what is queued is what was put in.\<close>

lemma conservation:
  "ok s \<Longrightarrow> run_channel put drain es s = Some (out, s') \<Longrightarrow> ok s' \<and> queue s @ puts es = out @ queue s'"
proof (induction es arbitrary: s out)
  case Nil
  then show ?case by simp
next
  case (Cons e es)
  show ?case
  proof (cases e)
    case (Put d)
    with Cons.prems obtain s1 where s1: "put d s = Some s1" "run_channel put drain es s1 = Some (out, s')"
      by (auto split: option.splits)
    note q = put_queue [OF Cons.prems(1) s1(1)]
    from Cons.IH [OF _ s1(2)] q Put show ?thesis by auto
  next
    case (Drain n)
    obtain d s1 where d: "drain n s = (d, s1)" by fastforce
    with Cons.prems Drain obtain ds where ds: "run_channel put drain es s1 = Some (ds, s')" "out = d @ ds"
      by (auto split: option.splits)
    note q = drain_queue [OF Cons.prems(1) d]
    from Cons.IH [OF _ ds(1)] q ds(2) Drain show ?thesis by auto
  qed
qed

text \<open>Draining one byte after the other, as often as bytes are queued, empties the channel.\<close>

lemma drain_all:
  "ok s \<Longrightarrow> 0 < n \<Longrightarrow> \<exists>k s'. run_channel put drain (replicate k (Drain n)) s = Some (queue s, s') \<and> ok s' \<and> queue s' = []"
proof (induction "length (queue s)" arbitrary: s rule: less_induct)
  case less
  show ?case
  proof (cases "queue s = []")
    case True
    with less.prems show ?thesis by (intro exI [of _ 0]) simp
  next
    case False
    obtain d s1 where d: "drain n s = (d, s1)" by fastforce
    note q = drain_queue [OF less.prems(1) d]
    have "d \<noteq> []" using drain_progress [OF less.prems False] d by simp
    with q have "length (queue s1) < length (queue s)" by simp
    from less.hyps [OF this] q less.prems(2) obtain k s' where
      "run_channel put drain (replicate k (Drain n)) s1 = Some (queue s1, s')" "ok s'" "queue s' = []" by blast
    with d q show ?thesis by (intro exI [of _ "Suc k"] exI [of _ s']) simp
  qed
qed

text \<open>Any sequence of writes can be completed: there is a schedule of drains that delivers all of it.\<close>

lemma deliver_all:
  "ok s \<Longrightarrow> queue s = [] \<Longrightarrow>
    \<exists>es s'. run_channel put drain es s = Some (concat ds, s') \<and> puts es = concat ds \<and> ok s' \<and> queue s' = []"
proof (induction ds arbitrary: s)
  case Nil
  then show ?case by (intro exI [of _ "[]"]) simp
next
  case (Cons d ds)
  obtain s1 where s1: "put d s = Some s1" using put_ready Cons.prems by blast
  note q = put_queue [OF Cons.prems(1) s1]
  from drain_all [of s1 1] q Cons.prems obtain k s2 where
    k: "run_channel put drain (replicate k (Drain 1)) s1 = Some (d, s2)" "ok s2" "queue s2 = []" by auto
  from Cons.IH [OF k(2,3)] obtain es s3 where
    e: "run_channel put drain es s2 = Some (concat ds, s3)" "puts es = concat ds" "ok s3" "queue s3 = []" by blast
  have "puts (replicate k (Drain 1)) = []" by (induction k) auto
  with s1 k(1) e have "run_channel put drain (Put d # replicate k (Drain 1) @ es) s = Some (concat (d # ds), s3)"
    "puts (Put d # replicate k (Drain 1) @ es) = concat (d # ds)"
    by (simp_all add: run_channel_append)
  with e(3,4) show ?case by blast
qed

end

subsection \<open>The write side as a channel\<close>

text \<open>The event loop writes at most \<open>n\<close> of the pending bytes to the socket and advances the cursor.\<close>

definition conn_drain :: "nat \<Rightarrow> ConnectionIO \<Rightarrow> str \<times> ConnectionIO" where
  "conn_drain n c = (let d = take n (pendingWriteData c) in (d, advanceWrite (length d) c))"

definition write_wf :: "ConnectionIO \<Rightarrow> bool" where
  "write_wf c \<longleftrightarrow> (if cio_write_buffer c = [] then cio_write_cursor c = 0 else cio_write_cursor c < length (cio_write_buffer c)) \<and>
    (cio_write_pending c \<longleftrightarrow> cio_write_buffer c \<noteq> [])"

abbreviation write_open :: "ConnectionIO \<Rightarrow> bool" where
  "write_open c \<equiv> write_wf c \<and> \<not> cio_write_error c"

lemmas conn_defs = writeData_def conn_drain_def advanceWrite_def pendingWriteData_def signal_eventfd_def write_wf_def Let_def

lemma drop_cursor: "cur < length buf \<Longrightarrow> cur + n < length buf \<Longrightarrow> take n (drop cur buf) @ drop (cur + n) buf = drop cur buf"
  by (metis add.commute append_take_drop_id drop_drop)

interpretation conn: out_channel writeData conn_drain pendingWriteData write_open
proof
  fix c c' :: ConnectionIO and d
  assume "write_open c" "writeData d c = Some c'"
  then show "write_open c' \<and> pendingWriteData c' = pendingWriteData c @ d"
    by (auto simp: conn_defs split: if_splits)
next
  fix c :: ConnectionIO and d
  assume "write_open c" "pendingWriteData c = []"
  then show "\<exists>c'. writeData d c = Some c'"
    by (auto simp: conn_defs split: if_splits)
next
  fix c c' :: ConnectionIO and n d
  assume o: "write_open c" and d: "conn_drain n c = (d, c')"
  show "write_open c' \<and> pendingWriteData c = d @ pendingWriteData c'"
  proof (cases "cio_write_cursor c + n < length (cio_write_buffer c)")
    case True
    with o d show ?thesis by (auto simp: conn_defs drop_cursor min_def split: if_splits)
  next
    case False
    with o d show ?thesis by (auto simp: conn_defs split: if_splits)
  qed
next
  fix c :: ConnectionIO and n :: nat
  assume "write_open c" "0 < n" "pendingWriteData c \<noteq> []"
  then show "fst (conn_drain n c) \<noteq> []" by (simp add: conn_drain_def Let_def)
qed

subsection \<open>Interleavings of a worker and the event loop\<close>

text \<open>
  The connection with a record of what happened: the data the worker gave to \<open>writeData\<close>, the
  bytes the event loop sent, the body bytes it fed and those the worker got.
\<close>

record conn_sys =
  cs_conn :: ConnectionIO
  cs_given :: str
  cs_sent :: str
  cs_fed :: str
  cs_got :: str

inductive conn_step :: "conn_sys \<Rightarrow> conn_sys \<Rightarrow> bool" where
  worker_write: "writeData d (cs_conn s) = Some c \<Longrightarrow> conn_step s (s\<lparr>cs_conn := c, cs_given := cs_given s @ d\<rparr>)"
| worker_read: "readBodyChunk m (cs_conn s) = Some (res, c) \<Longrightarrow> conn_step s (s\<lparr>cs_conn := c, cs_got := cs_got s @ brr_data res\<rparr>)"
| worker_finish: "conn_step s (s\<lparr>cs_conn := conn_finish (cs_conn s)\<rparr>)"
| worker_error: "conn_step s (s\<lparr>cs_conn := setError (cs_conn s)\<rparr>)"
| loop_feed: "conn_step s (s\<lparr>cs_conn := feedBody d eof (cs_conn s), cs_fed := cs_fed s @ d\<rparr>)"
| loop_feed_error: "conn_step s (s\<lparr>cs_conn := feedError (cs_conn s)\<rparr>)"
| loop_send: "conn_drain n (cs_conn s) = (d, c) \<Longrightarrow> conn_step s (s\<lparr>cs_conn := c, cs_sent := cs_sent s @ d\<rparr>)"
| loop_write_error: "conn_step s (s\<lparr>cs_conn := writeError (cs_conn s)\<rparr>)"

definition conn_start :: "str \<Rightarrow> str \<Rightarrow> nat \<Rightarrow> conn_sys" where
  "conn_start hdr pre len =
    \<lparr>cs_conn = setHeaderData hdr pre len new_connection, cs_given = [], cs_sent = [], cs_fed = [], cs_got = []\<rparr>"

inductive conn_reachable :: "conn_sys \<Rightarrow> bool" where
  start: "conn_reachable (conn_start hdr pre len)"
| step: "conn_reachable s \<Longrightarrow> conn_step s s' \<Longrightarrow> conn_reachable s'"

inductive_cases conn_stepE: "conn_step s s'"

definition read_inv :: "conn_sys \<Rightarrow> bool" where
  "read_inv s \<longleftrightarrow> cs_got s @ cio_read_chunk (cs_conn s) = cs_fed s \<and>
    cio_body_bytes_fed (cs_conn s) = length (cio_body_prefix (cs_conn s)) + length (cs_fed s)"

definition write_inv :: "conn_sys \<Rightarrow> bool" where
  "write_inv s \<longleftrightarrow> (\<exists>lost. cs_given s = cs_sent s @ pendingWriteData (cs_conn s) @ lost \<and>
    (\<not> cio_write_error (cs_conn s) \<longrightarrow> lost = [])) \<and> (\<not> cio_write_error (cs_conn s) \<longrightarrow> write_wf (cs_conn s))"

lemma conn_frames [simp]:
  "cio_read_chunk (signal_eventfd c) = cio_read_chunk c" "cio_body_bytes_fed (signal_eventfd c) = cio_body_bytes_fed c"
  "cio_body_prefix (signal_eventfd c) = cio_body_prefix c" "pendingWriteData (signal_eventfd c) = pendingWriteData c"
  "cio_write_error (signal_eventfd c) = cio_write_error c" "write_wf (signal_eventfd c) = write_wf c"
  by (simp_all add: signal_eventfd_def pendingWriteData_def write_wf_def)

lemma write_frames [simp]:
  "pendingWriteData (c\<lparr>cio_read_chunk := x\<rparr>) = pendingWriteData c" "write_wf (c\<lparr>cio_read_chunk := x\<rparr>) = write_wf c"
  "pendingWriteData (c\<lparr>cio_read_data_ready := y\<rparr>) = pendingWriteData c" "write_wf (c\<lparr>cio_read_data_ready := y\<rparr>) = write_wf c"
  "pendingWriteData (c\<lparr>cio_read_eof := y\<rparr>) = pendingWriteData c" "write_wf (c\<lparr>cio_read_eof := y\<rparr>) = write_wf c"
  "pendingWriteData (c\<lparr>cio_read_error := y\<rparr>) = pendingWriteData c" "write_wf (c\<lparr>cio_read_error := y\<rparr>) = write_wf c"
  "pendingWriteData (c\<lparr>cio_body_bytes_fed := n\<rparr>) = pendingWriteData c" "write_wf (c\<lparr>cio_body_bytes_fed := n\<rparr>) = write_wf c"
  "pendingWriteData (c\<lparr>cio_finished := y\<rparr>) = pendingWriteData c" "write_wf (c\<lparr>cio_finished := y\<rparr>) = write_wf c"
  "pendingWriteData (c\<lparr>cio_write_error := y\<rparr>) = pendingWriteData c" "pendingWriteData (c\<lparr>cio_write_buffer := []\<rparr>) = []"
  by (simp_all add: pendingWriteData_def write_wf_def)

lemma take_chunk_spec:
  assumes "take_chunk m c = (d, c')"
  shows "cio_read_chunk c = d @ cio_read_chunk c' \<and> cio_body_bytes_fed c' = cio_body_bytes_fed c \<and>
    cio_body_prefix c' = cio_body_prefix c \<and> cio_content_length c' = cio_content_length c \<and>
    pendingWriteData c' = pendingWriteData c \<and> cio_write_error c' = cio_write_error c \<and> write_wf c' = write_wf c"
  using assms by (cases "length (cio_read_chunk c) \<le> m") (auto simp: take_chunk_def)

lemma readBodyChunk_spec:
  assumes "readBodyChunk m c = Some (res, c')"
  shows "cio_read_chunk c = brr_data res @ cio_read_chunk c' \<and> cio_body_bytes_fed c' = cio_body_bytes_fed c \<and>
    cio_body_prefix c' = cio_body_prefix c \<and> cio_content_length c' = cio_content_length c \<and>
    pendingWriteData c' = pendingWriteData c \<and> cio_write_error c' = cio_write_error c \<and> write_wf c' = write_wf c"
  using assms take_chunk_spec [of m c "fst (take_chunk m c)" "snd (take_chunk m c)"]
  unfolding readBodyChunk_def by (auto split: if_split_asm prod.splits)

lemma conn_drain_conserves:
  assumes "conn_drain n c = (d, c')"
  shows "pendingWriteData c = d @ pendingWriteData c'"
proof (cases "cio_write_cursor c + n < length (cio_write_buffer c)")
  case True
  with assms show ?thesis by (auto simp: conn_defs drop_cursor min_def split: if_splits)
next
  case False
  with assms show ?thesis by (auto simp: conn_defs split: if_splits)
qed

lemma conn_drain_frame:
  "conn_drain n c = (d, c') \<Longrightarrow> cio_read_chunk c' = cio_read_chunk c \<and> cio_body_bytes_fed c' = cio_body_bytes_fed c \<and>
    cio_body_prefix c' = cio_body_prefix c \<and> cio_write_error c' = cio_write_error c"
  by (auto simp: conn_drain_def advanceWrite_def Let_def split: if_splits)

lemma writeData_frame:
  "writeData d c = Some c' \<Longrightarrow> cio_read_chunk c' = cio_read_chunk c \<and> cio_body_bytes_fed c' = cio_body_bytes_fed c \<and>
    cio_body_prefix c' = cio_body_prefix c"
  by (auto simp: writeData_def split: if_splits)

lemma read_inv_step:
  assumes "read_inv s" "conn_step s s'"
  shows "read_inv s'"
  using assms(2)
proof cases
  case (worker_write d c)
  then show ?thesis using assms(1) writeData_frame [OF worker_write(2)] by (simp add: read_inv_def)
next
  case (worker_read m res c)
  then show ?thesis using assms(1) readBodyChunk_spec [OF worker_read(2)] by (simp add: read_inv_def)
next
  case (loop_send n d c)
  then show ?thesis using assms(1) conn_drain_frame [OF loop_send(2)] by (simp add: read_inv_def)
next
  case (loop_feed d eof)
  then show ?thesis using assms(1) by (auto simp: read_inv_def feedBody_def Let_def)
qed (use assms(1) in \<open>simp_all add: read_inv_def conn_finish_def setError_def feedError_def writeError_def\<close>)

lemma write_inv_step:
  assumes "write_inv s" "conn_step s s'"
  shows "write_inv s'"
  using assms(2)
proof cases
  case (worker_write d c)
  then show ?thesis using assms(1) conn.put_queue [OF _ worker_write(2)]
    by (cases "cio_write_error (cs_conn s)") (auto simp: write_inv_def writeData_def split: if_splits)
next
  case (worker_read m res c)
  then show ?thesis using assms(1) readBodyChunk_spec [OF worker_read(2)] by (simp add: write_inv_def)
next
  case (loop_send n d c)
  have "write_wf c" if "write_open (cs_conn s)" using conn.drain_queue [OF that loop_send(2)] by simp
  then show ?thesis using assms(1) loop_send conn_drain_conserves [OF loop_send(2)] conn_drain_frame [OF loop_send(2)]
    by (auto simp: write_inv_def)
next
  case (loop_feed d eof)
  then show ?thesis using assms(1) by (simp add: write_inv_def feedBody_def Let_def)
next
  case loop_write_error
  then show ?thesis using assms(1) by (auto simp: write_inv_def writeError_def)
qed (use assms(1) in \<open>auto simp: write_inv_def conn_finish_def setError_def feedError_def\<close>)

lemma conn_invariants: "conn_reachable s \<Longrightarrow> read_inv s \<and> write_inv s"
proof (induction rule: conn_reachable.induct)
  case (start hdr pre len)
  then show ?case
    by (simp add: read_inv_def write_inv_def conn_start_def setHeaderData_def new_connection_def pendingWriteData_def write_wf_def Let_def)
next
  case (step s s')
  with read_inv_step write_inv_step show ?case by blast
qed

text \<open>
  C33. In every interleaving of a worker and the event loop, the bytes sent to the socket are a
  prefix of what the worker gave to \<open>writeData\<close>, in its order; without an error nothing but what
  is still pending is missing, and a connection that \<open>isFinished\<close> reports as finished has sent
  everything; the body bytes the worker got, followed by those that wait for it, are the bytes
  that were fed.
\<close>
theorem conn_no_loss:
  assumes "conn_reachable s"
  shows "(\<exists>lost. cs_given s = cs_sent s @ lost) \<and>
    (\<not> cio_write_error (cs_conn s) \<longrightarrow> cs_given s = cs_sent s @ pendingWriteData (cs_conn s)) \<and>
    (isFinished (cs_conn s) \<and> \<not> conn_hasError (cs_conn s) \<longrightarrow> cs_given s = cs_sent s) \<and>
    cs_fed s = cs_got s @ cio_read_chunk (cs_conn s)"
  using conn_invariants [OF assms]
  by (auto simp: read_inv_def write_inv_def isFinished_def conn_hasError_def pendingWriteData_def)

text \<open>A run: the worker answers with two bytes, one of them is sent, and it finishes.\<close>

definition sample_run :: conn_sys where
  "sample_run = (conn_start [] [] 0)
    \<lparr>cs_given := [1, 2], cs_sent := [1],
     cs_conn := conn_finish (snd (conn_drain 1 (the (writeData [1, 2] (setHeaderData [] [] 0 new_connection)))))\<rparr>"

lemma sample_run_reachable: "conn_reachable sample_run"
proof -
  let ?c0 = "setHeaderData [] [] 0 new_connection"
  obtain c1 where c1: "writeData [1, 2] ?c0 = Some c1" "pendingWriteData c1 = [1, 2]"
    by (simp add: conn_defs setHeaderData_def new_connection_def)
  let ?s1 = "(conn_start [] [] 0)\<lparr>cs_conn := c1, cs_given := [1, 2]\<rparr>"
  let ?s2 = "?s1\<lparr>cs_conn := snd (conn_drain 1 c1), cs_sent := [1]\<rparr>"
  have "conn_step (conn_start [] [] 0) ?s1"
    using worker_write [of "[1, 2]" "conn_start [] [] 0" c1] c1 by (simp add: conn_start_def)
  moreover have "conn_step ?s1 ?s2"
    using loop_send [of 1 ?s1 "[1]" "snd (conn_drain 1 c1)"] c1(2) by (simp add: conn_start_def conn_drain_def Let_def)
  moreover have "conn_step ?s2 sample_run"
    using worker_finish [of ?s2] c1(1) by (simp add: sample_run_def)
  ultimately show ?thesis using conn_reachable.intros by metis
qed

theorem conn_no_loss_witness:
  "conn_reachable sample_run \<and> (\<exists>lost. cs_given sample_run = cs_sent sample_run @ lost) \<and> cs_sent sample_run = [1] \<and>
    cs_fed sample_run = cs_got sample_run @ cio_read_chunk (cs_conn sample_run)"
  using sample_run_reachable conn_no_loss [OF sample_run_reachable] by (simp add: sample_run_def)



text \<open>
  What \<open>readBodyChunk\<close> reports is true: \<open>Complete\<close> means that the worker has got every byte
  that was fed and, with the prefix, at least \<open>Content-Length\<close> bytes; \<open>Data\<close> comes with exactly
  the number of bytes asked for; \<open>Truncated\<close> and \<open>Error\<close> come only when the body is incomplete,
  after the last byte, and the connection was closed or failed.
\<close>
theorem readBodyChunk_status:
  assumes "conn_reachable s" "readBodyChunk m (cs_conn s) = Some (res, c)"
  shows "case brr_status res of
      Complete \<Rightarrow> cs_got s @ brr_data res = cs_fed s \<and>
        cio_content_length c \<le> length (cio_body_prefix c) + length (cs_got s @ brr_data res)
    | Data \<Rightarrow> length (brr_data res) = m
    | Truncated \<Rightarrow> cs_got s @ brr_data res = cs_fed s \<and> cio_read_eof (cs_conn s) \<and> \<not> bodyCompleteLocked (cs_conn s)
    | Error \<Rightarrow> cs_got s @ brr_data res = cs_fed s \<and> cio_read_error (cs_conn s) \<and> \<not> bodyCompleteLocked (cs_conn s)"
proof -
  let ?c = "cs_conn s"
  have inv: "cs_got s @ cio_read_chunk ?c = cs_fed s"
    "cio_body_bytes_fed ?c = length (cio_body_prefix ?c) + length (cs_fed s)"
    using conn_invariants [OF assms(1)] by (simp_all add: read_inv_def)
  have got_all: "cs_got s @ brr_data res = cs_fed s" if "cio_read_chunk c = []"
    using readBodyChunk_spec [OF assms(2)] inv(1) that by simp
  have complete: "bodyCompleteLocked c = bodyCompleteLocked ?c"
    using readBodyChunk_spec [OF assms(2)] by (simp add: bodyCompleteLocked_def)
  have enough: "cio_content_length c \<le> length (cio_body_prefix c) + length (cs_fed s)" if "bodyCompleteLocked ?c"
    using readBodyChunk_spec [OF assms(2)] inv(2) that by (simp add: bodyCompleteLocked_def)
  from assms(2) consider
      (none) "cio_read_chunk ?c = []" "c = ?c" "brr_status res = (if bodyCompleteLocked ?c then Complete else if cio_read_error ?c then Error else Truncated)"
        "bodyCompleteLocked ?c \<or> cio_read_error ?c \<or> cio_read_eof ?c"
    | (some) "read_ready m ?c" "take_chunk m ?c = (brr_data res, c)" "brr_status res = chunk_status c"
    unfolding readBodyChunk_def by (auto split: if_split_asm prod.splits)
  then show ?thesis
  proof cases
    case none
    have "cs_got s @ brr_data res = cs_fed s" using got_all none by simp
    with none enough show ?thesis by (auto split: BodyReadStatus.split)
  next
    case some
    have flags: "cio_read_eof c = cio_read_eof ?c" "cio_read_error c = cio_read_error ?c"
      using some(2) by (auto simp: take_chunk_def Let_def split: prod.splits)
    have len: "length (brr_data res) = m" if "cio_read_chunk c \<noteq> [] \<or> \<not> bodyCompleteLocked ?c \<and> \<not> cio_read_eof ?c \<and> \<not> cio_read_error ?c"
    proof -
      have "brr_data res = fst (take_chunk m ?c)" "c = snd (take_chunk m ?c)" using some(2) by simp_all
      with some(1) that show ?thesis
        by (cases "length (cio_read_chunk ?c) \<le> m") (simp_all add: take_chunk_def read_ready_def)
    qed
    show ?thesis
    proof (cases "cio_read_chunk c = []")
      case True
      with got_all enough complete len flags some(3) show ?thesis by (auto simp: chunk_status_def split: BodyReadStatus.split)
    next
      case False
      with len some(3) show ?thesis by (simp add: chunk_status_def)
    qed
  qed
qed

theorem readBodyChunk_status_witness:
  "(case readBodyChunk 4 (cs_conn sample_run) of Some (res, c) \<Rightarrow> brr_status res = Complete \<and> cs_got sample_run @ brr_data res = cs_fed sample_run | None \<Rightarrow> False)"
proof -
  have "readBodyChunk 4 (cs_conn sample_run) = Some (\<lparr>brr_data = [], brr_status = Complete\<rparr>, cs_conn sample_run)"
    by (simp add: sample_run_def conn_defs conn_finish_def setHeaderData_def new_connection_def readBodyChunk_def read_ready_def bodyCompleteLocked_def)
  with readBodyChunk_status [OF sample_run_reachable this] show ?thesis by simp
qed

end
