(* ===== verification/Response_Sink.thy ===== *)
theory Response_Sink
  imports Conn_IO Lsapi_Response_Correct
begin

text \<open>
  response_sink.h and its two implementations. The interface is the locale \<open>response_sink\<close>:
  what a caller may rely on when it sends headers, writes a body in pieces and finishes it.
  \<open>HttpResponseSink\<close> provides it over a \<open>ConnectionIO\<close>, with the chunked encoding when it is
  streaming; \<open>LsapiResponseSink\<close> over an LSAPI request.
\<close>

subsection \<open>The interface\<close>

text \<open>A caller that sends a whole response and gives up at the first failure.\<close>

fun write_pieces :: "(str \<Rightarrow> 's \<Rightarrow> (bool \<times> 's) option) \<Rightarrow> str list \<Rightarrow> 's \<Rightarrow> (bool \<times> 's) option" where
  "write_pieces writeBody [] s = Some (True, s)"
| "write_pieces writeBody (d # ds) s = do {
    (ok, s) \<leftarrow> writeBody d s;
    (if ok then write_pieces writeBody ds s else Some (False, s)) }"

definition send_whole ::
  "(nat \<Rightarrow> HeaderPairs \<Rightarrow> bool \<Rightarrow> 's \<Rightarrow> (bool \<times> 's) option) \<Rightarrow> (str \<Rightarrow> 's \<Rightarrow> (bool \<times> 's) option) \<Rightarrow>
    ('s \<Rightarrow> (bool \<times> 's) option) \<Rightarrow> nat \<Rightarrow> HeaderPairs \<Rightarrow> bool \<Rightarrow> str list \<Rightarrow> 's \<Rightarrow> (bool \<times> 's) option"
where
  "send_whole sendHeaders writeBody finishBody status headers streaming ds s = do {
    (ok, s) \<leftarrow> sendHeaders status headers streaming s;
    (if \<not> ok then Some (False, s)
     else do {
       (ok, s) \<leftarrow> write_pieces writeBody ds s;
       (if \<not> ok then Some (False, s) else finishBody s) }) }"

locale response_sink =
  fixes sendHeaders :: "nat \<Rightarrow> HeaderPairs \<Rightarrow> bool \<Rightarrow> 's \<Rightarrow> (bool \<times> 's) option"
    and writeBody :: "str \<Rightarrow> 's \<Rightarrow> (bool \<times> 's) option"
    and finishBody :: "'s \<Rightarrow> (bool \<times> 's) option"
    and fresh :: "'s \<Rightarrow> bool"
    and accepts :: "HeaderPairs \<Rightarrow> bool \<Rightarrow> bool"
    and carries :: "'s \<Rightarrow> nat \<Rightarrow> HeaderPairs \<Rightarrow> bool \<Rightarrow> 's \<Rightarrow> str \<Rightarrow> bool"
    and delivered :: "'s \<Rightarrow> nat \<Rightarrow> HeaderPairs \<Rightarrow> bool \<Rightarrow> 's \<Rightarrow> str \<Rightarrow> bool"
  assumes headers_sent: "fresh s \<Longrightarrow> accepts headers streaming \<Longrightarrow>
      \<exists>s'. sendHeaders status headers streaming s = Some (True, s') \<and> carries s status headers streaming s' []"
    and body_written: "carries s0 status headers streaming s b \<Longrightarrow>
      \<exists>s'. writeBody d s = Some (True, s') \<and> carries s0 status headers streaming s' (b @ d)"
    and body_finished: "carries s0 status headers streaming s b \<Longrightarrow>
      \<exists>s'. finishBody s = Some (True, s') \<and> delivered s0 status headers streaming s' b"
begin

lemma write_pieces_carries:
  "carries s0 status headers streaming s b \<Longrightarrow>
    \<exists>s'. write_pieces writeBody ds s = Some (True, s') \<and> carries s0 status headers streaming s' (b @ concat ds)"
proof (induction ds arbitrary: s b)
  case Nil
  then show ?case by simp
next
  case (Cons d ds)
  from body_written [OF Cons.prems, of d] obtain s1 where
    "writeBody d s = Some (True, s1)" "carries s0 status headers streaming s1 (b @ d)" by blast
  with Cons.IH [of s1 "b @ d"] show ?case by simp
qed

lemma whole_response:
  assumes "fresh s" "accepts headers streaming"
  shows "\<exists>s'. send_whole sendHeaders writeBody finishBody status headers streaming ds s = Some (True, s') \<and>
    delivered s status headers streaming s' (concat ds)"
proof -
  from headers_sent [OF assms, of status] obtain s1 where
    1: "sendHeaders status headers streaming s = Some (True, s1)" "carries s status headers streaming s1 []" by blast
  from write_pieces_carries [OF 1(2), of ds] obtain s2 where
    2: "write_pieces writeBody ds s1 = Some (True, s2)" "carries s status headers streaming s2 (concat ds)" by auto
  from body_finished [OF 2(2)] 1 2 show ?thesis by (auto simp: send_whole_def)
qed

end

subsection \<open>HttpResponseSink\<close>

text \<open>
  The members of the sink, \<open>hs_conn = None\<close> being a null pointer, and the bytes that the event
  loop has sent. \<open>writeData\<close> blocks while earlier data is pending; the event loop sends it then.
\<close>

record HttpResponseSink =
  hs_conn :: "ConnectionIO option"
  hs_streaming :: bool
  hs_error :: bool
  hs_peer :: str

definition sink_write :: "str \<Rightarrow> HttpResponseSink \<Rightarrow> HttpResponseSink" where
  "sink_write d s =
    (case hs_conn s of None \<Rightarrow> s
     | Some c \<Rightarrow>
        (case writeData d c of
           Some c' \<Rightarrow> s\<lparr>hs_conn := Some c'\<rparr>
         | None \<Rightarrow>
            (case conn_drain (length (pendingWriteData c)) c of (sent, c) \<Rightarrow>
               s\<lparr>hs_conn := writeData d c, hs_peer := hs_peer s @ sent\<rparr>)))"

text \<open>The loop of \<open>sendHeaders\<close> for a streaming response: the normalised headers and \<open>saw_chunked\<close>.\<close>

fun normalize_headers :: "HeaderPairs \<Rightarrow> HeaderPairs \<Rightarrow> bool \<Rightarrow> (HeaderPairs \<times> bool) option" where
  "normalize_headers [] normalized saw_chunked = Some (normalized, saw_chunked)"
| "normalize_headers ((key, val) # headers) normalized saw_chunked =
    (if header_name_eq key (ascii ''Content-Length'') then normalize_headers headers normalized saw_chunked
     else if header_name_eq key (ascii ''Transfer-Encoding'')
     then if map tolower val = ascii ''chunked'' then normalize_headers headers (normalized @ [(key, val)]) True
       else None
     else normalize_headers headers (normalized @ [(key, val)]) saw_chunked)"

definition http_sendHeaders :: "nat \<Rightarrow> HeaderPairs \<Rightarrow> bool \<Rightarrow> HttpResponseSink \<Rightarrow> bool \<times> HttpResponseSink" where
  "http_sendHeaders status_code headers streaming s =
    (if hs_conn s = None then (False, s\<lparr>hs_error := True\<rparr>)
     else let s = s\<lparr>hs_streaming := streaming\<rparr> in
       if streaming
       then case normalize_headers headers [] False of
           None \<Rightarrow> (False, s\<lparr>hs_error := True\<rparr>)
         | Some (normalized, saw_chunked) \<Rightarrow>
             let normalized = (if saw_chunked then normalized
                               else normalized @ [(ascii ''Transfer-Encoding'', ascii ''chunked'')])
             in (True, sink_write (serialize_headers status_code normalized) s)
       else (True, sink_write (serialize_headers status_code headers) s))"

definition http_chunk :: "str \<Rightarrow> str" where
  "http_chunk data = number 16 (length data) @ CRLF @ data @ CRLF"

definition http_writeBody :: "str \<Rightarrow> HttpResponseSink \<Rightarrow> bool \<times> HttpResponseSink" where
  "http_writeBody data s =
    (if hs_conn s = None \<or> hs_error s then (False, s)
     else if data = [] then (True, s)
     else if hs_streaming s then (True, sink_write (http_chunk data) s)
     else (True, sink_write data s))"

definition http_finishBody :: "HttpResponseSink \<Rightarrow> bool \<times> HttpResponseSink" where
  "http_finishBody s =
    (if hs_conn s = None \<or> hs_error s then (False, s)
     else (True, if hs_streaming s then sink_write (ascii ''0'' @ CRLF @ CRLF) s else s))"

definition http_hasError :: "HttpResponseSink \<Rightarrow> bool" where
  "http_hasError s = hs_error s"

subsection \<open>The chunked encoding\<close>

text \<open>The decoder of a peer: hexadecimal size, CRLF, data, CRLF; an empty chunk is not data.\<close>

definition digit_value :: "byte \<Rightarrow> nat" where
  "digit_value c = (if unat c < 58 then unat c - 48 else unat c - 87)"

definition hex_value :: "str \<Rightarrow> nat" where
  "hex_value ds = foldl (\<lambda>n c. 16 * n + digit_value c) 0 ds"

definition parse_chunk :: "str \<Rightarrow> (str \<times> str) option" where
  "parse_chunk bs =
    (let ds = takeWhile (\<lambda>c. c \<noteq> 0x0d) bs; n = hex_value ds; rest = drop (length ds) bs
     in if n > 0 \<and> take 2 rest = CRLF \<and> length rest \<ge> n + 4 \<and> take 2 (drop (n + 2) rest) = CRLF
        then Some (take n (drop 2 rest), drop (n + 4) rest) else None)"

lemma digit_value_char: "d < 16 \<Longrightarrow> digit_value (digit_char d) = d"
  by (auto simp: digit_value_def digit_char_def)

lemma digit_char_not_cr: "d < 16 \<Longrightarrow> digit_char d \<noteq> 0x0d"
proof
  assume "d < 16" "digit_char d = 0x0d"
  then have "digit_value 0x0d = d" using digit_value_char by metis
  then have "d = 0" by (simp add: digit_value_def)
  with \<open>digit_char d = 0x0d\<close> show False by (simp add: digit_char_def)
qed

lemma hex_value_number: "hex_value (number 16 n) = n"
proof (induction "16 :: nat" n rule: number.induct)
  case (1 n)
  then show ?case
    by (subst number.simps) (auto simp: hex_value_def digit_value_char)
qed

lemma number_no_cr: "0x0d \<notin> set (number 16 n)"
proof (induction "16 :: nat" n rule: number.induct)
  case (1 n)
  then show ?case
    using digit_char_not_cr [of n] digit_char_not_cr [of "n mod 16"] by (subst number.simps) auto
qed

lemma drop4: "drop (length d + 4) (a # b # d @ x # y # rest) = rest"
  by (simp add: numeral_eq_Suc)

lemma parse_chunk_enc:
  assumes "d \<noteq> []"
  shows "parse_chunk (http_chunk d @ rest) = Some (d, rest)"
proof -
  let ?x = "number 16 (length d)"
  have "takeWhile (\<lambda>c. c \<noteq> 0x0d) (http_chunk d @ rest) = ?x"
    unfolding http_chunk_def using number_no_cr [of "length d"] by (auto simp: takeWhile_append)
  then show ?thesis
    using assms by (simp add: parse_chunk_def http_chunk_def hex_value_number Let_def drop4)
qed

interpretation chunk: frame_codec http_chunk parse_chunk "\<lambda>d. d \<noteq> []"
  by unfold_locales (rule parse_chunk_enc)

subsection \<open>The HTTP sink as a response sink\<close>

text \<open>What was sent and what is pending, in the order of the calls.\<close>

definition http_output :: "HttpResponseSink \<Rightarrow> str" where
  "http_output s = hs_peer s @ (case hs_conn s of None \<Rightarrow> [] | Some c \<Rightarrow> pendingWriteData c)"

definition http_open :: "HttpResponseSink \<Rightarrow> bool" where
  "http_open s \<longleftrightarrow> \<not> hs_error s \<and> (case hs_conn s of None \<Rightarrow> False | Some c \<Rightarrow> write_open c)"

lemma sink_write_spec:
  assumes "http_open s"
  shows "http_open (sink_write d s) \<and> http_output (sink_write d s) = http_output s @ d \<and>
    hs_streaming (sink_write d s) = hs_streaming s"
proof -
  from assms obtain c where c: "hs_conn s = Some c" "write_open c" "\<not> hs_error s"
    unfolding http_open_def by (cases "hs_conn s") auto
  show ?thesis
  proof (cases "writeData d c")
    case (Some c')
    with conn.put_queue [OF c(2) Some] c show ?thesis by (simp add: sink_write_def http_open_def http_output_def)
  next
    case None
    obtain sent c1 where d1: "conn_drain (length (pendingWriteData c)) c = (sent, c1)" by fastforce
    then have "sent = pendingWriteData c" by (simp add: conn_drain_def Let_def)
    with conn.drain_queue [OF c(2) d1] have 1: "write_open c1" "pendingWriteData c1 = []" by simp_all
    then obtain c2 where 2: "writeData d c1 = Some c2" using conn.put_ready by blast
    with None conn.put_queue [OF 1(1) 2] 1 d1 c \<open>sent = _\<close> show ?thesis
      by (simp add: sink_write_def http_open_def http_output_def)
  qed
qed

text \<open>The headers as they are sent, and the bytes of a body that was written so far.\<close>

definition sent_headers :: "HeaderPairs \<Rightarrow> bool \<Rightarrow> HeaderPairs" where
  "sent_headers headers streaming =
    (if streaming
     then case normalize_headers headers [] False of
         Some (hs, saw_chunked) \<Rightarrow> if saw_chunked then hs else hs @ [(ascii ''Transfer-Encoding'', ascii ''chunked'')]
       | None \<Rightarrow> []
     else headers)"

definition http_accepts :: "HeaderPairs \<Rightarrow> bool \<Rightarrow> bool" where
  "http_accepts headers streaming \<longleftrightarrow> streaming \<longrightarrow> normalize_headers headers [] False \<noteq> None"

definition http_carries :: "HttpResponseSink \<Rightarrow> nat \<Rightarrow> HeaderPairs \<Rightarrow> bool \<Rightarrow> HttpResponseSink \<Rightarrow> str \<Rightarrow> bool" where
  "http_carries s0 status headers streaming s b \<longleftrightarrow> http_open s \<and> hs_streaming s = streaming \<and>
    (\<exists>ds. list_all (\<lambda>d. d \<noteq> []) ds \<and> concat ds = b \<and>
      http_output s = http_output s0 @ serialize_headers status (sent_headers headers streaming) @
        (if streaming then concat (map http_chunk ds) else b))"

definition http_delivered :: "HttpResponseSink \<Rightarrow> nat \<Rightarrow> HeaderPairs \<Rightarrow> bool \<Rightarrow> HttpResponseSink \<Rightarrow> str \<Rightarrow> bool" where
  "http_delivered s0 status headers streaming s b \<longleftrightarrow>
    (\<exists>ds. list_all (\<lambda>d. d \<noteq> []) ds \<and> concat ds = b \<and>
      http_output s = http_output s0 @ serialize_headers status (sent_headers headers streaming) @
        (if streaming then concat (map http_chunk ds) @ ascii ''0'' @ CRLF @ CRLF else b))"

lemma http_sendHeaders_spec:
  assumes "http_open s" "http_accepts headers streaming"
  shows "\<exists>s'. http_sendHeaders status headers streaming s = (True, s') \<and> http_carries s status headers streaming s' []"
proof -
  let ?s = "s\<lparr>hs_streaming := streaming\<rparr>"
  have o: "http_open ?s" "http_output ?s = http_output s" using assms(1) by (simp_all add: http_open_def http_output_def)
  have "hs_conn s \<noteq> None" using assms(1) by (auto simp: http_open_def split: option.splits)
  then have "http_sendHeaders status headers streaming s =
      (True, sink_write (serialize_headers status (sent_headers headers streaming)) ?s)"
    using assms(2) by (auto simp: http_sendHeaders_def http_accepts_def sent_headers_def Let_def)
  with sink_write_spec [OF o(1), of "serialize_headers status (sent_headers headers streaming)"] o(2) show ?thesis
    by (auto simp: http_carries_def intro!: exI [of _ "[]"])
qed

lemma http_writeBody_spec:
  assumes "http_carries s0 status headers streaming s b"
  shows "\<exists>s'. http_writeBody d s = (True, s') \<and> http_carries s0 status headers streaming s' (b @ d)"
proof (cases "d = []")
  case True
  with assms show ?thesis by (auto simp: http_writeBody_def http_carries_def http_open_def split: option.splits)
next
  case False
  from assms obtain ds where
    c: "http_open s" "hs_streaming s = streaming" "list_all (\<lambda>d. d \<noteq> []) ds" "concat ds = b"
      "http_output s = http_output s0 @ serialize_headers status (sent_headers headers streaming) @
        (if streaming then concat (map http_chunk ds) else b)"
    unfolding http_carries_def by blast
  let ?x = "if streaming then http_chunk d else d"
  have "http_writeBody d s = (True, sink_write ?x s)"
    using c(1,2) False by (auto simp: http_writeBody_def http_open_def split: option.splits)
  moreover have "http_carries s0 status headers streaming (sink_write ?x s) (b @ d)"
    using sink_write_spec [OF c(1), of ?x] c(2-5) False
    unfolding http_carries_def by (intro conjI exI [of _ "ds @ [d]"]) auto
  ultimately show ?thesis by blast
qed

lemma http_finishBody_spec:
  assumes "http_carries s0 status headers streaming s b"
  shows "\<exists>s'. http_finishBody s = (True, s') \<and> http_delivered s0 status headers streaming s' b"
proof -
  from assms obtain ds where
    c: "http_open s" "hs_streaming s = streaming" "list_all (\<lambda>d. d \<noteq> []) ds" "concat ds = b"
      "http_output s = http_output s0 @ serialize_headers status (sent_headers headers streaming) @
        (if streaming then concat (map http_chunk ds) else b)"
    unfolding http_carries_def by blast
  have "http_finishBody s = (True, if streaming then sink_write (ascii ''0'' @ CRLF @ CRLF) s else s)"
    using c(1,2) by (auto simp: http_finishBody_def http_open_def split: option.splits)
  with sink_write_spec [OF c(1), of "ascii ''0'' @ CRLF @ CRLF"] c(3-5) show ?thesis
    unfolding http_delivered_def by (cases streaming) auto
qed

interpretation http: response_sink
  "\<lambda>status headers streaming s. Some (http_sendHeaders status headers streaming s)"
  "\<lambda>d s. Some (http_writeBody d s)" "\<lambda>s. Some (http_finishBody s)"
  http_open http_accepts http_carries http_delivered
  using http_sendHeaders_spec http_writeBody_spec http_finishBody_spec by unfold_locales simp_all

subsection \<open>LsapiResponseSink\<close>

record LsapiResponseSink =
  ls_req :: LSAPI_Request
  ls_world :: lsapi_world
  ls_error :: bool

text \<open>\<open>std::string::c_str\<close> as a C function sees it: up to the first NUL.\<close>

definition c_str :: "str \<Rightarrow> str" where
  "c_str s = takeWhile (\<lambda>c. c \<noteq> 0) s"

text \<open>The loop over the headers; it ends at the first that LSAPI refuses.\<close>

fun lsapi_append_all :: "HeaderPairs \<Rightarrow> LSAPI_Request \<Rightarrow> lsapi_world \<Rightarrow> (bool \<times> LSAPI_Request) option" where
  "lsapi_append_all [] r w = Some (True, r)"
| "lsapi_append_all ((key, val) # headers) r w =
    (if header_name_eq key (ascii ''Transfer-Encoding'') then lsapi_append_all headers r w
     else do {
       (rc, r) \<leftarrow> LSAPI_AppendRespHeader2_r r (c_str key) (c_str val) w;
       (if rc < 0 then Some (False, r) else lsapi_append_all headers r w) })"

definition lsapi_sendHeaders :: "nat \<Rightarrow> HeaderPairs \<Rightarrow> bool \<Rightarrow> LsapiResponseSink \<Rightarrow> (bool \<times> LsapiResponseSink) option" where
  "lsapi_sendHeaders status_code headers streaming s = do {
    let r = snd (LSAPI_SetRespStatus_r (int status_code) (ls_req s));
    (ok, r) \<leftarrow> lsapi_append_all headers r (ls_world s);
    (if \<not> ok then Some (False, s\<lparr>ls_req := r, ls_error := True\<rparr>)
     else do {
       (rc, r) \<leftarrow> LSAPI_FinalizeRespHeaders_r r;
       Some (if rc < 0 then (False, s\<lparr>ls_req := r, ls_error := True\<rparr>) else (True, s\<lparr>ls_req := r\<rparr>)) }) }"

definition lsapi_writeBody :: "str \<Rightarrow> LsapiResponseSink \<Rightarrow> (bool \<times> LsapiResponseSink) option" where
  "lsapi_writeBody data s =
    (if ls_error s then Some (False, s)
     else if data = [] then Some (True, s)
     else do {
       (written, r, w) \<leftarrow> LSAPI_Write_r (ls_req s) data (ls_world s);
       let s = s\<lparr>ls_req := r, ls_world := w\<rparr>;
       Some (if written < 0 then (False, s\<lparr>ls_error := True\<rparr>) else (True, s)) })"

definition lsapi_finishBody :: "LsapiResponseSink \<Rightarrow> (bool \<times> LsapiResponseSink) option" where
  "lsapi_finishBody s =
    (if ls_error s then Some (False, s)
     else do {
       (rc, r, w) \<leftarrow> LSAPI_Flush_r (ls_req s) (ls_world s);
       let s = s\<lparr>ls_req := r, ls_world := w\<rparr>;
       Some (if rc < 0 then (False, s\<lparr>ls_error := True\<rparr>) else (True, s)) })"

definition lsapi_hasError :: "LsapiResponseSink \<Rightarrow> bool" where
  "lsapi_hasError s = ls_error s"

text \<open>The header lines that LSAPI sends for the pairs.\<close>

definition lsapi_line :: "str \<times> str \<Rightarrow> str" where
  "lsapi_line = (\<lambda>(key, val). strip_crlf (c_str key) @ [0x3a] @ strip_crlf (c_str val))"

definition lsapi_lines :: "HeaderPairs \<Rightarrow> str list" where
  "lsapi_lines headers = map lsapi_line (filter (\<lambda>(key, val). \<not> header_name_eq key (ascii ''Transfer-Encoding'')) headers)"

definition lsapi_accepts :: "HeaderPairs \<Rightarrow> bool \<Rightarrow> bool" where
  "lsapi_accepts headers streaming \<longleftrightarrow> length headers \<le> 1000 \<and>
    list_all (\<lambda>(key, val). header_name_eq key (ascii ''Transfer-Encoding'') \<or>
      strip_crlf (c_str key) \<noteq> [] \<and> length (lsapi_line (key, val)) \<le> 32768) headers"

definition lsapi_fresh :: "LsapiResponseSink \<Rightarrow> bool" where
  "lsapi_fresh s \<longleftrightarrow> headers_are (ls_req s) [] \<and> tx_live (ls_world s) \<and> (\<forall>n. alloc_ok (ls_world s) n) \<and> \<not> ls_error s"

definition lsapi_carries :: "LsapiResponseSink \<Rightarrow> nat \<Rightarrow> HeaderPairs \<Rightarrow> bool \<Rightarrow> LsapiResponseSink \<Rightarrow> str \<Rightarrow> bool" where
  "lsapi_carries s0 status headers streaming s b \<longleftrightarrow> \<not> ls_error s \<and>
    (\<exists>ds buffered. payloads_ok ds \<and> concat ds @ buffered = b \<and>
      sending (ls_req s) (ls_world s) (wire (ls_world s0) @
        packet_bytes (LSAPI_RESP_HEADER, header_payload (int status) (lsapi_lines headers)) @ stream_packets ds) buffered)"

definition lsapi_delivered :: "LsapiResponseSink \<Rightarrow> nat \<Rightarrow> HeaderPairs \<Rightarrow> bool \<Rightarrow> LsapiResponseSink \<Rightarrow> str \<Rightarrow> bool" where
  "lsapi_delivered s0 status headers streaming s b \<longleftrightarrow>
    (\<exists>ds. payloads_ok ds \<and> concat ds = b \<and>
      wire (ls_world s) = wire (ls_world s0) @
        packet_bytes (LSAPI_RESP_HEADER, header_payload (int status) (lsapi_lines headers)) @ stream_packets ds)"

lemma AppendRespHeader2_spec:
  assumes "headers_are r hs" "length hs < 1000" "\<And>n. alloc_ok w n" "strip_crlf key \<noteq> []"
    and "length (strip_crlf key) + length (strip_crlf val) + 1 \<le> 32768"
  shows "\<exists>r'. LSAPI_AppendRespHeader2_r r key val w = Some (0, r') \<and>
    headers_are r' (hs @ [strip_crlf key @ [0x3a] @ strip_crlf val]) \<and> m_status r' = m_status r"
proof -
  let ?bs = "strip_crlf key @ [0x3a] @ strip_crlf val"
  have l: "length ?bs = length (strip_crlf key) + length (strip_crlf val) + 1" by simp
  have p: "m_pRespHeaderBufPos r \<le> length (m_pRespHeaderBuf r)" "LSAPI_ST_RESP_BODY \<notin> m_reqState r" "m_cntHeaders r < 1000"
    using assms(1,2) by (simp_all add: headers_are_def resp_wf_def)
  obtain buf where b: "ensure_header_room r (length ?bs) w = (0, r\<lparr>m_pRespHeaderBuf := buf\<rparr>)"
    "m_pRespHeaderBufPos r + length ?bs + 1 \<le> length buf"
    "take (m_pRespHeaderBufPos r) buf = take (m_pRespHeaderBufPos r) (m_pRespHeaderBuf r)"
    using ensure_header_room_spec [OF assms(3) p(1)] by blast
  have "key \<noteq> []" using assms(4) by (auto simp: strip_crlf_def)
  then have "LSAPI_AppendRespHeader2_r r key val w = append_header_bytes (r\<lparr>m_pRespHeaderBuf := buf\<rparr>) ?bs"
    using p assms(4,5) b(1) unfolding l by (simp add: LSAPI_AppendRespHeader2_r_def Let_def)
  with append_header_bytes_spec [OF assms(1,2) b(2,3)] show ?thesis by simp
qed

lemma lsapi_append_all_spec:
  assumes "headers_are r hs" "length hs + length headers \<le> 1000" "\<And>n. alloc_ok w n"
    and "list_all (\<lambda>(key, val). header_name_eq key (ascii ''Transfer-Encoding'') \<or>
      strip_crlf (c_str key) \<noteq> [] \<and> length (lsapi_line (key, val)) \<le> 32768) headers"
  shows "\<exists>r'. lsapi_append_all headers r w = Some (True, r') \<and> headers_are r' (hs @ lsapi_lines headers) \<and> m_status r' = m_status r"
  using assms
proof (induction headers arbitrary: r hs)
  case Nil
  then show ?case by (simp add: lsapi_lines_def)
next
  case (Cons kv headers)
  obtain key val where kv: "kv = (key, val)" by fastforce
  show ?case
  proof (cases "header_name_eq key (ascii ''Transfer-Encoding'')")
    case True
    with Cons.IH [OF Cons.prems(1)] Cons.prems kv show ?thesis by (simp add: lsapi_lines_def)
  next
    case False
    with Cons.prems kv have "strip_crlf (c_str key) \<noteq> []" "length (strip_crlf (c_str key)) + length (strip_crlf (c_str val)) + 1 \<le> 32768" "length hs < 1000"
      by (auto simp: lsapi_line_def)
    with AppendRespHeader2_spec [of r hs w "c_str key" "c_str val"] Cons.prems obtain r1 where
      1: "LSAPI_AppendRespHeader2_r r (c_str key) (c_str val) w = Some (0, r1)"
        "headers_are r1 (hs @ [lsapi_line (key, val)])" "m_status r1 = m_status r" by (auto simp: lsapi_line_def)
    with Cons.IH [OF 1(2)] Cons.prems kv False show ?thesis by (simp add: lsapi_lines_def)
  qed
qed

lemma lsapi_sendHeaders_spec:
  assumes "lsapi_fresh s" "lsapi_accepts headers streaming"
  shows "\<exists>s'. lsapi_sendHeaders status headers streaming s = Some (True, s') \<and> lsapi_carries s status headers streaming s' []"
proof -
  let ?r = "snd (LSAPI_SetRespStatus_r (int status) (ls_req s))"
  have f: "headers_are ?r []" "m_status ?r = int status" "tx_live (ls_world s)" "\<And>n. alloc_ok (ls_world s) n" "\<not> ls_error s"
    using assms(1) by (simp_all add: lsapi_fresh_def LSAPI_SetRespStatus_r_def headers_are_def resp_wf_def)
  from lsapi_append_all_spec [OF f(1), of headers "ls_world s"] f(4) assms(2) obtain r1 where
    1: "lsapi_append_all headers ?r (ls_world s) = Some (True, r1)" "headers_are r1 (lsapi_lines headers)" "m_status r1 = int status"
    using f(2) by (auto simp: lsapi_accepts_def)
  from finalize_headers [OF 1(2) f(3)] obtain r2 where
    2: "LSAPI_FinalizeRespHeaders_r r1 = Some (0, r2)"
      "sending r2 (ls_world s) (wire (ls_world s) @ packet_bytes (LSAPI_RESP_HEADER, header_payload (int status) (lsapi_lines headers))) []"
    unfolding 1(3) by blast
  have "lsapi_sendHeaders status headers streaming s = Some (True, s\<lparr>ls_req := r2\<rparr>)"
    using 1(1) 2(1) by (simp add: lsapi_sendHeaders_def)
  moreover have "lsapi_carries s status headers streaming (s\<lparr>ls_req := r2\<rparr>) []"
    using 2(2) f(5) unfolding lsapi_carries_def by (intro conjI exI [of _ "[]"]) (simp_all add: payloads_ok_def)
  ultimately show ?thesis by blast
qed

lemma lsapi_writeBody_spec:
  assumes "lsapi_carries s0 status headers streaming s b"
  shows "\<exists>s'. lsapi_writeBody d s = Some (True, s') \<and> lsapi_carries s0 status headers streaming s' (b @ d)"
proof (cases "d = []")
  case True
  with assms show ?thesis by (simp add: lsapi_writeBody_def lsapi_carries_def)
next
  case False
  let ?h = "wire (ls_world s0) @ packet_bytes (LSAPI_RESP_HEADER, header_payload (int status) (lsapi_lines headers))"
  from assms obtain ds buffered where
    c: "\<not> ls_error s" "payloads_ok ds" "concat ds @ buffered = b" "sending (ls_req s) (ls_world s) (?h @ stream_packets ds) buffered"
    unfolding lsapi_carries_def by auto
  from Write_sending [OF c(4), of d] obtain es b' r' w' where
    w: "LSAPI_Write_r (ls_req s) d (ls_world s) = Some (int (length d), r', w')"
      "sending r' w' ((?h @ stream_packets ds) @ stream_packets es) b'" "payloads_ok es" "concat es @ b' = buffered @ d" by blast
  let ?s = "s\<lparr>ls_req := r', ls_world := w'\<rparr>"
  have "lsapi_writeBody d s = Some (True, ?s)" using c(1) False w(1) by (simp add: lsapi_writeBody_def Let_def)
  moreover have "concat (ds @ es) @ b' = b @ d" using c(3) w(4) by (metis append_assoc concat_append)
  then have "lsapi_carries s0 status headers streaming ?s (b @ d)"
    using c(1,2) w(2,3) unfolding lsapi_carries_def
    by (intro conjI exI [of _ "ds @ es"] exI [of _ b']) (simp_all add: payloads_ok_def)
  ultimately show ?thesis by blast
qed

lemma lsapi_finishBody_spec:
  assumes "lsapi_carries s0 status headers streaming s b"
  shows "\<exists>s'. lsapi_finishBody s = Some (True, s') \<and> lsapi_delivered s0 status headers streaming s' b"
proof -
  let ?h = "wire (ls_world s0) @ packet_bytes (LSAPI_RESP_HEADER, header_payload (int status) (lsapi_lines headers))"
  from assms obtain ds buffered where
    c: "\<not> ls_error s" "payloads_ok ds" "concat ds @ buffered = b" "sending (ls_req s) (ls_world s) (?h @ stream_packets ds) buffered"
    unfolding lsapi_carries_def by auto
  from Flush_sending [OF c(4)] obtain ret r' w' where
    f: "LSAPI_Flush_r (ls_req s) (ls_world s) = Some (ret, r', w')" "ret \<ge> 0"
      "wire w' = (?h @ stream_packets ds) @ stream_packets (last_payload buffered)" by blast
  have "length buffered \<le> 16384" using sendingD(1,7) [OF c(4)] by (auto simp: resp_wf_def)
  then have "payloads_ok (ds @ last_payload buffered)" using c(2) by (simp add: payloads_ok_def)
  moreover have "concat (ds @ last_payload buffered) = b" using c(3) by auto
  ultimately have "lsapi_delivered s0 status headers streaming (s\<lparr>ls_req := r', ls_world := w'\<rparr>) b"
    using f(3) unfolding lsapi_delivered_def by (intro exI [of _ "ds @ last_payload buffered"]) simp
  then show ?thesis using c(1) f(1,2) by (simp add: lsapi_finishBody_def Let_def)
qed

interpretation lsapi: response_sink lsapi_sendHeaders lsapi_writeBody lsapi_finishBody
  lsapi_fresh lsapi_accepts lsapi_carries lsapi_delivered
  using lsapi_sendHeaders_spec lsapi_writeBody_spec lsapi_finishBody_spec by unfold_locales simp_all

subsection \<open>Whole responses\<close>

lemma normalize_headers_spec:
  assumes "normalize_headers headers acc saw = Some (hs, saw')"
    and "list_all (\<lambda>(k, v). \<not> header_name_eq k (ascii ''Content-Length'') \<and>
      (header_name_eq k (ascii ''Transfer-Encoding'') \<longrightarrow> map tolower v = ascii ''chunked'')) acc"
    and "saw \<longleftrightarrow> list_ex (\<lambda>(k, v). header_name_eq k (ascii ''Transfer-Encoding'')) acc"
  shows "list_all (\<lambda>(k, v). \<not> header_name_eq k (ascii ''Content-Length'') \<and>
      (header_name_eq k (ascii ''Transfer-Encoding'') \<longrightarrow> map tolower v = ascii ''chunked'')) hs \<and>
    (saw' \<longleftrightarrow> list_ex (\<lambda>(k, v). header_name_eq k (ascii ''Transfer-Encoding'')) hs)"
  using assms by (induction headers acc saw rule: normalize_headers.induct) (auto split: if_splits)

text \<open>
  C36. A streaming response has no ambiguous framing: among the headers \<open>HttpResponseSink\<close>
  sends there is no \<open>Content-Length\<close>, there is a \<open>Transfer-Encoding\<close>, and every one of them is
  \<open>chunked\<close>, whatever headers the module supplied; with a different \<open>Transfer-Encoding\<close> the
  response is refused and nothing is written.
\<close>
theorem streaming_headers_framing:
  assumes "http_open s"
  shows "if http_accepts headers True
    then list_all (\<lambda>(k, v). \<not> header_name_eq k (ascii ''Content-Length'') \<and>
        (if header_name_eq k (ascii ''Transfer-Encoding'') then map tolower v = ascii ''chunked'' else True)) (sent_headers headers True) \<and>
      list_ex (\<lambda>(k, v). header_name_eq k (ascii ''Transfer-Encoding'')) (sent_headers headers True) \<and>
      http_output (snd (http_sendHeaders status headers True s)) = http_output s @ serialize_headers status (sent_headers headers True)
    else fst (http_sendHeaders status headers True s) = False \<and>
      http_output (snd (http_sendHeaders status headers True s)) = http_output s \<and>
      http_hasError (snd (http_sendHeaders status headers True s))"
proof (cases "http_accepts headers True")
  case True
  then obtain hs saw where n: "normalize_headers headers [] False = Some (hs, saw)" by (auto simp: http_accepts_def)
  have "header_name_eq (ascii ''Transfer-Encoding'') (ascii ''Transfer-Encoding'')" "map tolower (ascii ''chunked'') = ascii ''chunked''"
    "\<not> header_name_eq (ascii ''Transfer-Encoding'') (ascii ''Content-Length'')"
    by (simp_all add: header_name_eq_def ascii_def tolower_def)
  with normalize_headers_spec [OF n] True http_sendHeaders_spec [OF assms True, of status] n show ?thesis
    by (auto simp: sent_headers_def http_carries_def list_all_iff list_ex_iff)
next
  case False
  then have n: "normalize_headers headers [] False = None"
    by (cases "normalize_headers headers [] False") (auto simp: http_accepts_def)
  moreover have "hs_conn s \<noteq> None" using assms by (auto simp: http_open_def split: option.splits)
  ultimately show ?thesis using False
    by (simp add: http_sendHeaders_def http_output_def http_hasError_def Let_def)
qed

abbreviation new_sink :: HttpResponseSink where
  "new_sink \<equiv> \<lparr>hs_conn = Some new_connection, hs_streaming = False, hs_error = False, hs_peer = []\<rparr>"

lemma new_sink_open: "http_open new_sink"
  by (simp add: http_open_def new_connection_def write_wf_def)

theorem streaming_headers_framing_witness:
  "http_open new_sink \<and> fst (http_sendHeaders 200 [(ascii ''Transfer-Encoding'', ascii ''gzip'')] True new_sink) = False"
proof -
  have "\<not> http_accepts [(ascii ''Transfer-Encoding'', ascii ''gzip'')] True"
    by (simp add: http_accepts_def header_name_eq_def ascii_def tolower_def)
  with streaming_headers_framing [OF new_sink_open, of "[(ascii ''Transfer-Encoding'', ascii ''gzip'')]" 200] new_sink_open
  show ?thesis by simp
qed

text \<open>
  C35. A response sent through \<open>HttpResponseSink\<close> reaches the peer whole: in streaming mode a
  peer that decodes the chunked encoding behind the header block finds non-empty chunks that
  add up to the body, followed by the terminator; otherwise the body follows the headers as
  it is. Every call reports success, whatever the pieces and however slowly the event loop
  sends.
\<close>
theorem http_response_roundtrip:
  assumes "http_open s" "http_accepts headers streaming"
  shows "\<exists>s' ds payload. send_whole (\<lambda>status headers streaming s. Some (http_sendHeaders status headers streaming s))
      (\<lambda>d s. Some (http_writeBody d s)) (\<lambda>s. Some (http_finishBody s)) status headers streaming body s = Some (True, s') \<and>
    http_output s' = http_output s @ serialize_headers status (sent_headers headers streaming) @ payload \<and>
    (if streaming then unframe parse_chunk (length ds) payload = Some (ds, ascii ''0'' @ CRLF @ CRLF) \<and> concat ds = concat body
     else payload = concat body)"
proof -
  from http.whole_response [OF assms, of status body] obtain s' ds where
    w: "send_whole (\<lambda>status headers streaming s. Some (http_sendHeaders status headers streaming s))
      (\<lambda>d s. Some (http_writeBody d s)) (\<lambda>s. Some (http_finishBody s)) status headers streaming body s = Some (True, s')"
      "list_all (\<lambda>d. d \<noteq> []) ds" "concat ds = concat body"
      "http_output s' = http_output s @ serialize_headers status (sent_headers headers streaming) @
        (if streaming then concat (map http_chunk ds) @ ascii ''0'' @ CRLF @ CRLF else concat body)"
    unfolding http_delivered_def by blast
  with chunk.unframe_enc [OF w(2), of "ascii ''0'' @ CRLF @ CRLF"] show ?thesis
    by (intro exI [of _ s'] exI [of _ ds] exI [of _ "if streaming then concat (map http_chunk ds) @ ascii ''0'' @ CRLF @ CRLF else concat body"]) auto
qed

theorem http_response_roundtrip_witness:
  "\<exists>s' ds payload. send_whole (\<lambda>status headers streaming s. Some (http_sendHeaders status headers streaming s))
      (\<lambda>d s. Some (http_writeBody d s)) (\<lambda>s. Some (http_finishBody s)) 200 [] True [[1, 2], [], [3]] new_sink = Some (True, s') \<and>
    http_output s' = serialize_headers 200 [(ascii ''Transfer-Encoding'', ascii ''chunked'')] @ payload \<and>
    unframe parse_chunk (length ds) payload = Some (ds, ascii ''0'' @ CRLF @ CRLF) \<and> concat ds = [1, 2, 3]"
proof -
  have "http_accepts [] True" "http_output new_sink = []" "sent_headers [] True = [(ascii ''Transfer-Encoding'', ascii ''chunked'')]"
    by (simp_all add: http_accepts_def http_output_def new_connection_def pendingWriteData_def sent_headers_def)
  with http_response_roundtrip [OF new_sink_open, of "[]" True 200 "[[1, 2], [], [3]]"] show ?thesis by simp
qed

text \<open>
  The same caller with a \<open>LsapiResponseSink\<close> on a request whose response has not begun:
  the web server receives a header packet with the status and the headers other than
  \<open>Transfer-Encoding\<close>, and stream packets that add up to the body, all of it flushed when the
  caller has finished.
\<close>
theorem lsapi_sink_roundtrip:
  assumes "lsapi_fresh s" "lsapi_accepts headers streaming"
  shows "\<exists>s' ds. send_whole lsapi_sendHeaders lsapi_writeBody lsapi_finishBody status headers streaming body s = Some (True, s') \<and>
    wire (ls_world s') = wire (ls_world s) @
      concat (map packet_bytes ((LSAPI_RESP_HEADER, header_payload (int status) (lsapi_lines headers)) # map (Pair LSAPI_RESP_STREAM) ds)) \<and>
    list_all (\<lambda>d. 0 < length d \<and> length d \<le> LSAPI_MAX_DATA_PACKET_LEN) ds \<and> concat ds = concat body"
proof -
  from lsapi.whole_response [OF assms, of status body] obtain s' ds where
    w: "send_whole lsapi_sendHeaders lsapi_writeBody lsapi_finishBody status headers streaming body s = Some (True, s')"
      "payloads_ok ds" "concat ds = concat body"
      "wire (ls_world s') = wire (ls_world s) @
        packet_bytes (LSAPI_RESP_HEADER, header_payload (int status) (lsapi_lines headers)) @ stream_packets ds"
    unfolding lsapi_delivered_def by blast
  then show ?thesis
    by (intro exI [of _ s'] exI [of _ ds]) (simp add: payloads_ok_def stream_packets_def comp_def)
qed

theorem lsapi_sink_roundtrip_witness:
  "\<exists>s' ds. send_whole lsapi_sendHeaders lsapi_writeBody lsapi_finishBody 200 [(ascii ''A'', ascii ''b''), (ascii ''transfer-encoding'', ascii ''chunked'')] True
      [[1, 2], [3]] \<lparr>ls_req = ready_request, ls_world = start_world [], ls_error = False\<rparr> = Some (True, s') \<and>
    wire (ls_world s') = packet_bytes (LSAPI_RESP_HEADER, header_payload 200 [ascii ''A:b'']) @ concat (map packet_bytes (map (Pair LSAPI_RESP_STREAM) ds)) \<and>
    concat ds = [1, 2, 3]"
proof -
  let ?hs = "[(ascii ''A'', ascii ''b''), (ascii ''transfer-encoding'', ascii ''chunked'')]"
  let ?s = "\<lparr>ls_req = ready_request, ls_world = start_world [], ls_error = False\<rparr>"
  have f: "lsapi_fresh ?s" "wire (ls_world ?s) = []" using ready_headers by (simp_all add: lsapi_fresh_def start_world_def)
  have te: "header_name_eq (ascii ''transfer-encoding'') (ascii ''Transfer-Encoding'')" "\<not> header_name_eq (ascii ''A'') (ascii ''Transfer-Encoding'')"
    by (simp_all add: header_name_eq_def ascii_def tolower_def)
  then have "lsapi_accepts ?hs True" "lsapi_lines ?hs = [ascii ''A:b'']"
    by (simp_all add: lsapi_accepts_def lsapi_lines_def lsapi_line_def c_str_def strip_crlf_def ascii_def)
  with lsapi_sink_roundtrip [OF f(1), of ?hs True 200 "[[1, 2], [3]]"] f(2) show ?thesis by simp blast
qed

end
