(* ===== verification/Http_Parse.thy ===== *)
theory Http_Parse
  imports Http_Utils
begin

text \<open>
  The parts of main.cpp that read a request and lay out a response: the scan of the raw header
  block for Content-Length (the event loop uses it to frame the body), the parser of the
  request (the worker uses it), the local response of a filter and the diagnostic body, and
  the conversion of CGI variable names. \<open>HttpData\<close> is the request record of http_filter.h.
\<close>

subsection \<open>Searching\<close>

text \<open>\<open>std::string::find\<close>: the first position of a pattern, \<open>None\<close> for \<open>npos\<close>.\<close>

fun find_str :: "str \<Rightarrow> str \<Rightarrow> nat option" where
  "find_str pat [] = (if pat = [] then Some 0 else None)"
| "find_str pat (c # cs) = (if take (length pat) (c # cs) = pat then Some 0 else map_option Suc (find_str pat cs))"

abbreviation (input) LF :: byte where "LF \<equiv> 0x0a"
abbreviation (input) CR :: byte where "CR \<equiv> 0x0d"

definition is_ows :: "byte \<Rightarrow> bool" where
  "is_ows c \<longleftrightarrow> c = 0x20 \<or> c = 0x09"

definition decimal :: "str \<Rightarrow> nat" where
  "decimal ds = foldl (\<lambda>n d. 10 * n + (unat d - 48)) 0 ds"

text \<open>\<open>std::stoull\<close> of a non-empty string of digits; it throws beyond 64 bits.\<close>

definition stoull :: "str \<Rightarrow> nat option" where
  "stoull ds = (if decimal ds < 2 ^ 64 then Some (decimal ds) else None)"

subsection \<open>Content-Length\<close>

definition strip_cr :: "str \<Rightarrow> str" where
  "strip_cr line = (if line \<noteq> [] \<and> last line = CR then butlast line else line)"

text \<open>One line: a number when the line is a Content-Length header with digits.\<close>

definition line_content_length :: "str \<Rightarrow> nat option" where
  "line_content_length line =
    (if length line > 15 \<and> line ! 14 = 0x3a
     then if header_name_eq (take 14 line) (ascii ''Content-Length'')
       then let digits = takeWhile is_digit (dropWhile is_ows (drop 15 line))
         in if digits \<noteq> [] then Some (case stoull digits of Some n \<Rightarrow> n | None \<Rightarrow> 0) else None
       else None
     else None)"

function extract_content_length :: "str \<Rightarrow> nat" where
  "extract_content_length headers =
    (if headers = [] then 0
     else case line_content_length (strip_cr (takeWhile (\<lambda>c. c \<noteq> LF) headers)) of
       Some n \<Rightarrow> n
     | None \<Rightarrow> extract_content_length (drop 1 (dropWhile (\<lambda>c. c \<noteq> LF) headers)))"
  by pat_completeness auto
termination
proof (relation "measure length")
  fix headers :: str
  assume "headers \<noteq> []"
  then have "0 < length headers" by simp
  moreover have "length (dropWhile (\<lambda>c. c \<noteq> LF) headers) \<le> length headers" by (rule length_dropWhile_le)
  ultimately show "(drop 1 (dropWhile (\<lambda>c. c \<noteq> LF) headers), headers) \<in> measure length"
    by (simp only: in_measure length_drop)
qed simp

declare extract_content_length.simps [simp del]

subsection \<open>The request parser\<close>

record HttpData =
  hd_method :: str
  hd_path :: str
  hd_version :: str
  hd_request_headers :: HeaderPairs
  hd_response_headers :: HeaderPairs
  hd_request_body :: str
  hd_response_body :: str
  hd_has_local_response :: bool
  hd_local_response_code :: nat
  hd_local_response_body :: str
  hd_local_response_additional_headers :: HeaderPairs

definition new_http_data :: HttpData where
  "new_http_data =
    \<lparr>hd_method = [], hd_path = [], hd_version = [], hd_request_headers = [], hd_response_headers = [], hd_request_body = [],
     hd_response_body = [], hd_has_local_response = False, hd_local_response_code = 0, hd_local_response_body = [],
     hd_local_response_additional_headers = []\<rparr>"

text \<open>
  An \<open>istringstream\<close>: the characters left, or \<open>None\<close> once its state is not good any more.
  \<open>operator>>\<close> into a string skips white space and stops at the next; reaching the end of the
  data makes the stream not good, so every later extraction fails.
\<close>

type_synonym stream = "str option"

definition read_token :: "stream \<Rightarrow> str \<times> stream" where
  "read_token st =
    (case st of None \<Rightarrow> ([], None)
     | Some s \<Rightarrow> (let s = dropWhile is_space s
         in if s = [] then ([], None)
            else let rest = dropWhile (\<lambda>c. \<not> is_space c) s
              in (takeWhile (\<lambda>c. \<not> is_space c) s, if rest = [] then None else Some rest)))"

definition getline :: "stream \<Rightarrow> (str \<times> stream) option" where
  "getline st =
    (case st of None \<Rightarrow> None
     | Some s \<Rightarrow>
         if s = [] then None
         else Some (takeWhile (\<lambda>c. c \<noteq> LF) s, if LF \<in> set s then Some (drop 1 (dropWhile (\<lambda>c. c \<noteq> LF) s)) else None))"

text \<open>One header line: a line without a colon is skipped.\<close>

definition parse_header_line :: "str \<Rightarrow> (str \<times> str) option" where
  "parse_header_line line =
    (if 0x3a \<notin> set line then None
     else let header_name = takeWhile (\<lambda>c. c \<noteq> 0x3a) line;
            header_value = dropWhile is_ows (drop 1 (dropWhile (\<lambda>c. c \<noteq> 0x3a) line));
            header_value = (if header_value \<noteq> [] \<and> last header_value = CR then butlast header_value else header_value)
       in Some (header_name, header_value))"

definition stream_size :: "stream \<Rightarrow> nat" where
  "stream_size st = (case st of None \<Rightarrow> 0 | Some s \<Rightarrow> Suc (length s))"

lemma getline_size:
  assumes "getline st = Some (line, st')"
  shows "stream_size st' < stream_size st"
proof -
  from assms obtain s where s: "st = Some s" "s \<noteq> []"
    and st': "st' = (if LF \<in> set s then Some (drop 1 (dropWhile (\<lambda>c. c \<noteq> LF) s)) else None)"
    by (auto simp: getline_def split: option.splits if_splits)
  have "0 < length s" using s(2) by simp
  moreover have "length (dropWhile (\<lambda>c. c \<noteq> LF) s) \<le> length s" by (rule length_dropWhile_le)
  ultimately show ?thesis unfolding st' s(1) stream_size_def by (simp split: if_splits)
qed

function parse_headers :: "stream \<Rightarrow> HeaderPairs" where
  "parse_headers st =
    (case getline st of
       None \<Rightarrow> []
     | Some (line, st') \<Rightarrow>
         if line = [] \<or> line = [CR] then []
         else case parse_header_line line of
             None \<Rightarrow> parse_headers st'
           | Some h \<Rightarrow> h # parse_headers st')"
  by pat_completeness auto
termination
  by (relation "measure stream_size") (auto dest: getline_size)

declare parse_headers.simps [simp del]

definition parse_request :: "str \<Rightarrow> HttpData \<Rightarrow> bool \<times> HttpData" where
  "parse_request request d =
    (let (m, st) = read_token (Some request);
         (p, st) = read_token st;
         (v, st) = read_token st;
         d = d\<lparr>hd_method := m, hd_path := p, hd_version := v\<rparr>
     in if m = [] \<or> p = [] then (False, d)
        else let st = (case getline st of None \<Rightarrow> None | Some (_, st') \<Rightarrow> st')
          in (True, d\<lparr>hd_request_headers := hd_request_headers d @ parse_headers st\<rparr>))"

subsection \<open>Responses\<close>

definition build_local_response :: "HttpData \<Rightarrow> str" where
  "build_local_response d =
    (let headers =
       [(ascii ''Content-Type'', ascii ''text/plain''), (ascii ''X-Powered-By'', ascii ''lswasm/proxy-wasm''),
        (ascii ''Connection'', ascii ''close'')] @
       filter (\<lambda>h. \<not> (header_name_eq (fst h) (ascii ''Content-Length'') \<or> header_name_eq (fst h) (ascii ''Content-Type'') \<or>
                      header_name_eq (fst h) (ascii ''Connection'')))
         (hd_local_response_additional_headers d) @
       [(ascii ''Content-Length'', number 10 (length (hd_local_response_body d)))]
     in serialize_headers (hd_local_response_code d) headers @ hd_local_response_body d)"

text \<open>
  The diagnostic body. The line on the runtime depends on how the program was built and is an
  argument; \<open>modules\<close> is \<open>None\<close> when there is no module manager.
\<close>

abbreviation (input) bullet :: str where "bullet \<equiv> [0xe2, 0x80, 0xa2]"

definition build_response_body :: "str \<Rightarrow> str list option \<Rightarrow> HttpData \<Rightarrow> str" where
  "build_response_body runtime_line modules d =
    ascii ''=== WASM HTTP Proxy Server ==='' @ [LF, LF] @
    ascii ''Request Information:'' @ [LF] @
    ascii ''  Method: '' @ hd_method d @ [LF] @
    ascii ''  Path: '' @ hd_path d @ [LF] @
    ascii ''  Version: '' @ hd_version d @ [LF, LF] @
    ascii ''Runtime Information:'' @ [LF] @ runtime_line @
    [LF] @ ascii ''Filter Status:'' @ [LF] @
    (case modules of None \<Rightarrow> []
     | Some ms \<Rightarrow>
         if ms = [] then ascii ''  '' @ bullet @ ascii '' No filters loaded'' @ [LF]
         else ascii ''  Loaded filters:'' @ [LF] @ concat (map (\<lambda>m. ascii ''    - '' @ m @ [LF]) ms)) @
    [LF] @ ascii ''Proxy-WASM Support:'' @ [LF] @
    concat (map (\<lambda>l. ascii ''  '' @ bullet @ ascii l @ [LF])
      ['' RootContext lifecycle callbacks'', '' HTTP filter callbacks (onRequest*, onResponse*)'',
       '' Response header manipulation from WASM modules'', '' Connection events'',
       '' Metadata and data processing'', '' Status/error codes'']) @ [LF] @
    ascii ''Submodules:'' @ [LF] @
    concat (map (\<lambda>l. ascii ''  '' @ bullet @ ascii l @ [LF])
      ['' proxy-wasm-cpp-host'', '' proxy-wasm-cpp-sdk'', '' proxy-wasm-spec''])"

definition BODY_CHUNK_SIZE :: nat where "BODY_CHUNK_SIZE = 524288"

text \<open>The calls of \<open>writeData\<close> that \<open>write_chunked\<close> makes, one after the other.\<close>

function write_chunked :: "str \<Rightarrow> str list" where
  "write_chunked data =
    (if data = [] then [] else take BODY_CHUNK_SIZE data # write_chunked (drop BODY_CHUNK_SIZE data))"
  by pat_completeness auto
termination
  by (relation "measure length") (auto simp: BODY_CHUNK_SIZE_def)

declare write_chunked.simps [simp del]

lemma write_chunked_concat: "concat (write_chunked data) = data"
  by (induction data rule: write_chunked.induct) (subst write_chunked.simps, simp)

lemma write_chunked_bound: "d \<in> set (write_chunked data) \<Longrightarrow> d \<noteq> [] \<and> length d \<le> BODY_CHUNK_SIZE"
proof (induction data rule: write_chunked.induct)
  case (1 data)
  then show ?case by (subst (asm) (2) write_chunked.simps) (auto simp: BODY_CHUNK_SIZE_def split: if_splits)
qed

subsection \<open>Names of CGI variables\<close>

fun title_case :: "bool \<Rightarrow> str \<Rightarrow> str" where
  "title_case next_upper [] = []"
| "title_case next_upper (c # cs) =
    (if c = 0x2d then c # title_case True cs
     else if next_upper then toupper c # title_case False cs
     else tolower c # title_case next_upper cs)"

definition lsapi_header_cb :: "str \<Rightarrow> str \<Rightarrow> HeaderPairs \<Rightarrow> int \<times> HeaderPairs" where
  "lsapi_header_cb key val hdrs =
    (let name = (if length key > 5 \<and> take 5 key = ascii ''HTTP_'' then drop 5 key else key);
         name = map (\<lambda>c. if c = 0x5f then 0x2d else c) name
     in (1, hdrs @ [(title_case True name, val)]))"

subsection \<open>Well-formed requests\<close>

definition header_ok :: "str \<times> str \<Rightarrow> bool" where
  "header_ok h \<longleftrightarrow> 0x3a \<notin> set (fst h) \<and> LF \<notin> set (fst h) \<and> LF \<notin> set (snd h) \<and> (snd h \<noteq> [] \<longrightarrow> \<not> is_ows (hd (snd h)))"

definition token_ok :: "str \<Rightarrow> bool" where
  "token_ok t \<longleftrightarrow> t \<noteq> [] \<and> list_all (\<lambda>c. \<not> is_space c) t"

definition request_ok :: "str \<Rightarrow> str \<Rightarrow> str \<Rightarrow> HeaderPairs \<Rightarrow> bool" where
  "request_ok m p v hs \<longleftrightarrow> token_ok m \<and> token_ok p \<and> token_ok v \<and> 0x3a \<notin> set m \<and> list_all header_ok hs"

definition header_block :: "HeaderPairs \<Rightarrow> str" where
  "header_block hs = concat (map header_line hs) @ CRLF"

definition request_text :: "str \<Rightarrow> str \<Rightarrow> str \<Rightarrow> HeaderPairs \<Rightarrow> str" where
  "request_text m p v hs = m @ [0x20] @ p @ [0x20] @ v @ CRLF @ header_block hs"

text \<open>The body length that a header list declares: the first Content-Length header with digits.\<close>

fun declared_length :: "HeaderPairs \<Rightarrow> nat" where
  "declared_length [] = 0"
| "declared_length ((name, val) # hs) =
    (let digits = takeWhile is_digit val
     in if header_name_eq name (ascii ''Content-Length'') \<and> digits \<noteq> []
        then if decimal digits < 2 ^ 64 then decimal digits else 0
        else declared_length hs)"

lemma takeWhile_line: "LF \<notin> set l \<Longrightarrow> takeWhile (\<lambda>c. c \<noteq> LF) (l @ LF # t) = l"
  by (induction l) auto

lemma dropWhile_line: "LF \<notin> set l \<Longrightarrow> dropWhile (\<lambda>c. c \<noteq> LF) (l @ LF # t) = LF # t"
  by (induction l) auto

lemma read_token_space:
  "token_ok t \<Longrightarrow> is_space c \<Longrightarrow> read_token (Some (t @ c # s)) = (t, Some (c # s))"
  by (cases t) (auto simp: read_token_def token_ok_def Let_def list_all_iff takeWhile_append dropWhile_append)

lemma read_token_skip: "is_space c \<Longrightarrow> read_token (Some (c # s)) = read_token (Some s)"
  by (simp add: read_token_def)

lemma getline_line: "LF \<notin> set l \<Longrightarrow> getline (Some (l @ LF # t)) = Some (l, Some t)"
  by (cases l) (auto simp: getline_def takeWhile_line dropWhile_line)

lemma takeWhile_colon: "0x3a \<notin> set n \<Longrightarrow> takeWhile (\<lambda>c. c \<noteq> 0x3a) (n @ 0x3a # t) = n"
  by (induction n) auto

lemma dropWhile_colon: "0x3a \<notin> set n \<Longrightarrow> dropWhile (\<lambda>c. c \<noteq> 0x3a) (n @ 0x3a # t) = 0x3a # t"
  by (induction n) auto

lemma ascii_colon: "ascii '': '' = [0x3a, 0x20]"
  by (simp add: ascii_def of_char_def)

lemma dropWhile_ows: "(v \<noteq> [] \<longrightarrow> \<not> is_ows (hd v)) \<Longrightarrow> dropWhile is_ows (0x20 # v @ [CR]) = v @ [CR]"
  by (cases v) (auto simp: is_ows_def)

lemma parse_header_line_ok:
  assumes "header_ok h"
  shows "parse_header_line (fst h @ [0x3a, 0x20] @ snd h @ [CR]) = Some h"
  using assms dropWhile_ows [of "snd h"] by (simp add: parse_header_line_def header_ok_def takeWhile_colon dropWhile_colon)

text \<open>A header block is a sequence of lines without line feeds, and then an empty line.\<close>

lemma header_line_split: "header_line h = (fst h @ [0x3a, 0x20] @ snd h @ [CR]) @ [LF]"
  by (simp add: header_line_def ascii_colon split_beta)

lemma header_line_no_LF: "header_ok h \<Longrightarrow> LF \<notin> set (fst h @ [0x3a, 0x20] @ snd h @ [CR])"
  by (simp add: header_ok_def)

lemma parse_headers_block: "list_all header_ok hs \<Longrightarrow> parse_headers (Some (header_block hs @ t)) = hs"
proof (induction hs)
  case Nil
  show ?case by (subst parse_headers.simps) (simp add: header_block_def getline_def)
next
  case (Cons h hs)
  let ?l = "fst h @ [0x3a, 0x20] @ snd h @ [CR]"
  have ok: "header_ok h" and "list_all header_ok hs" using Cons.prems by simp_all
  then have IH: "parse_headers (Some (header_block hs @ t)) = hs" using Cons.IH by simp
  have eq: "header_block (h # hs) @ t = ?l @ LF # header_block hs @ t"
    by (simp add: header_block_def header_line_split)
  have "getline (Some (header_block (h # hs) @ t)) = Some (?l, Some (header_block hs @ t))"
    unfolding eq by (rule getline_line) (rule header_line_no_LF [OF ok])
  moreover have "?l \<noteq> [CR]" by (cases "fst h") auto
  ultimately show ?case using parse_header_line_ok [OF ok] IH by (subst parse_headers.simps) simp
qed

lemma parse_request_text:
  assumes "request_ok m p v hs"
  shows "parse_request (request_text m p v hs @ t) d =
    (True, d\<lparr>hd_method := m, hd_path := p, hd_version := v, hd_request_headers := hd_request_headers d @ hs\<rparr>)"
proof -
  have tok: "token_ok m" "token_ok p" "token_ok v" and hs: "list_all header_ok hs"
    using assms by (simp_all add: request_ok_def)
  let ?b = "header_block hs @ t"
  have sp: "is_space 0x20" "is_space CR" by (simp_all add: is_space_def)
  have 1: "read_token (Some (m @ 0x20 # p @ 0x20 # v @ CR # LF # ?b)) = (m, Some (0x20 # p @ 0x20 # v @ CR # LF # ?b))"
    by (rule read_token_space [OF tok(1) sp(1)])
  have 2: "read_token (Some (0x20 # p @ 0x20 # v @ CR # LF # ?b)) = (p, Some (0x20 # v @ CR # LF # ?b))"
    by (simp add: read_token_skip sp read_token_space [OF tok(2) sp(1)])
  have 3: "read_token (Some (0x20 # v @ CR # LF # ?b)) = (v, Some (CR # LF # ?b))"
    by (simp add: read_token_skip sp read_token_space [OF tok(3) sp(2)])
  have 4: "getline (Some (CR # LF # ?b)) = Some ([CR], Some ?b)"
    using getline_line [of "[CR]" ?b] by simp
  have "m \<noteq> []" "p \<noteq> []" using tok by (auto simp: token_ok_def)
  then show ?thesis
    by (simp add: parse_request_def request_text_def 1 2 3 4 parse_headers_block [OF hs])
qed

subsection \<open>The end of the header block\<close>

abbreviation (input) CRLFCRLF :: str where "CRLFCRLF \<equiv> [0x0d, 0x0a, 0x0d, 0x0a]"

lemma find_skip: "take 4 (c # cs) \<noteq> CRLFCRLF \<Longrightarrow> find_str CRLFCRLF (c # cs) = map_option Suc (find_str CRLFCRLF cs)"
  by (auto simp: eval_nat_numeral)

lemma find_line:
  assumes "LF \<notin> set l" "take 2 t \<noteq> CRLF"
  shows "find_str CRLFCRLF (l @ CRLF @ t) = map_option (\<lambda>i. length l + 2 + i) (find_str CRLFCRLF t)"
  using assms(1)
proof (induction l)
  case Nil
  have "take 4 (CR # LF # t) \<noteq> CRLFCRLF" "take 4 (LF # t) \<noteq> CRLFCRLF"
    using assms(2) by simp_all
  from this [THEN find_skip] show ?case by (simp add: option.map_comp comp_def)
next
  case (Cons c l)
  have "take 4 (c # (l @ CRLF @ t)) \<noteq> CRLFCRLF"
    using Cons.prems by (cases l) auto
  from find_skip [OF this] Cons show ?case by (simp add: option.map_comp comp_def)
qed

lemma find_last_line:
  assumes "LF \<notin> set l"
  shows "find_str CRLFCRLF (l @ CRLF @ CRLF @ t) = Some (length l)"
  using assms
proof (induction l)
  case (Cons c l)
  have "take 4 (c # (l @ CRLF @ CRLF @ t)) \<noteq> CRLFCRLF"
    using Cons.prems by (cases l) auto
  from find_skip [OF this] Cons show ?case by simp
qed simp

lemma header_block_start:
  "list_all header_ok hs \<Longrightarrow> hs \<noteq> [] \<Longrightarrow> take 2 (header_block hs @ t) \<noteq> CRLF"
  by (cases hs; cases "fst (hd hs)"; cases "tl (fst (hd hs))") (auto simp: header_block_def header_line_split header_ok_def)

lemma find_block:
  assumes "list_all header_ok hs" "LF \<notin> set l"
  shows "find_str CRLFCRLF (l @ CRLF @ header_block hs @ t) = Some (length l + length (header_block hs) - 2)"
  using assms
proof (induction hs arbitrary: l)
  case Nil
  then show ?case using find_last_line [of l t] by (simp add: header_block_def)
next
  case (Cons h hs)
  let ?l = "fst h @ [0x3a, 0x20] @ snd h"
  have ok: "header_ok h" "list_all header_ok hs" using Cons.prems by simp_all
  have block: "header_block (h # hs) @ t = ?l @ CRLF @ header_block hs @ t"
    by (simp add: header_block_def header_line_split)
  have "take 2 (header_block (h # hs) @ t) \<noteq> CRLF" using Cons.prems(1) by (intro header_block_start) simp_all
  from find_line [OF Cons.prems(2) this]
  have "find_str CRLFCRLF (l @ CRLF @ header_block (h # hs) @ t) =
    map_option (\<lambda>i. length l + 2 + i) (find_str CRLFCRLF (header_block (h # hs) @ t))" .
  also have "find_str CRLFCRLF (header_block (h # hs) @ t) = Some (length ?l + length (header_block hs) - 2)"
    unfolding block using ok(1) by (intro Cons.IH [OF ok(2)]) (simp add: header_ok_def)
  finally show ?case by (simp add: header_block_def header_line_split)
qed

lemma token_no_LF: "token_ok t \<Longrightarrow> LF \<notin> set t"
  by (auto simp: token_ok_def list_all_iff is_space_def)

lemma find_request_end:
  assumes "request_ok m p v hs"
  shows "find_str CRLFCRLF (request_text m p v hs @ t) = Some (length (request_text m p v hs) - 4)"
proof -
  have "LF \<notin> set (m @ [0x20] @ p @ [0x20] @ v)" "list_all header_ok hs"
    using assms token_no_LF by (auto simp: request_ok_def)
  from find_block [OF this(2,1), of t] show ?thesis by (simp add: request_text_def header_block_def)
qed

subsection \<open>Framing by Content-Length\<close>

lemma extract_line:
  assumes "LF \<notin> set l"
  shows "extract_content_length (l @ CRLF @ t) =
    (case line_content_length l of Some n \<Rightarrow> n | None \<Rightarrow> extract_content_length t)"
proof -
  have tw: "takeWhile (\<lambda>c. c \<noteq> LF) (l @ CR # LF # t) = l @ [CR]" "dropWhile (\<lambda>c. c \<noteq> LF) (l @ CR # LF # t) = LF # t"
    using takeWhile_line [of "l @ [CR]" t] dropWhile_line [of "l @ [CR]" t] assms by simp_all
  show ?thesis by (subst extract_content_length.simps) (simp add: tw strip_cr_def split: option.splits)
qed

lemma length_content_length: "length (ascii ''Content-Length'') = 14"
  by (simp add: ascii_def)

lemma content_length_chars:
  assumes "map tolower xs = map tolower (ascii ''Content-Length'')" "c \<in> set xs"
  shows "c \<noteq> 0x3a \<and> c \<noteq> 0x20"
proof -
  have "tolower c \<in> set (map tolower (ascii ''Content-Length''))" using assms by (metis image_eqI list.set_map)
  then show ?thesis by (auto simp: ascii_def of_char_def tolower_def)
qed

lemma header_name_eq_content_length:
  "header_name_eq xs (ascii ''Content-Length'') \<Longrightarrow> length xs = 14 \<and> 0x3a \<notin> set xs \<and> 0x20 \<notin> set xs"
  using content_length_chars [of xs] length_content_length
  by (auto simp: header_name_eq_iff dest: arg_cong [of _ _ length])

lemma line_content_length_header:
  assumes "header_ok (name, val)"
  shows "line_content_length (name @ 0x3a # 0x20 # val) =
    (let digits = takeWhile is_digit val
     in if header_name_eq name (ascii ''Content-Length'') \<and> digits \<noteq> []
        then Some (if decimal digits < 2 ^ 64 then decimal digits else 0) else None)"
proof (cases "header_name_eq name (ascii ''Content-Length'')")
  case True
  then have n: "length name = 14" using header_name_eq_content_length by blast
  have "dropWhile is_ows (0x20 # val) = val"
    using assms by (cases val) (auto simp: header_ok_def is_ows_def)
  then show ?thesis using True n
    by (simp add: line_content_length_def nth_append stoull_def Let_def)
next
  case False
  have "\<not> (line ! 14 = 0x3a \<and> header_name_eq (take 14 line) (ascii ''Content-Length''))"
    if line: "line = name @ 0x3a # 0x20 # val" for line
  proof
    assume a: "line ! 14 = 0x3a \<and> header_name_eq (take 14 line) (ascii ''Content-Length'')"
    then have 14: "length (take 14 line) = 14" "0x3a \<notin> set (take 14 line)" using header_name_eq_content_length by blast+
    consider "length name < 14" | "length name = 14" | "14 < length name" by linarith
    then show False
    proof cases
      case 1
      then show ?thesis using 14 by (auto simp: line take_Cons')
    next
      case 2
      then show ?thesis using a False by (simp add: line)
    next
      case 3
      then have "0x3a \<in> set name" using a by (simp add: line nth_append) (metis nth_mem)
      then show ?thesis using assms by (simp add: header_ok_def)
    qed
  qed
  with False show ?thesis by (auto simp: line_content_length_def)
qed

lemma extract_block:
  "list_all header_ok hs \<Longrightarrow> extract_content_length (header_block hs) = declared_length hs"
proof (induction hs)
  case Nil
  have "extract_content_length [] = 0" by (subst extract_content_length.simps) simp
  then show ?case using extract_line [of "[]" "[]"] by (simp add: header_block_def line_content_length_def)
next
  case (Cons h hs)
  obtain name val where h: "h = (name, val)" by (cases h)
  have ok: "header_ok (name, val)" "list_all header_ok hs" using Cons.prems h by simp_all
  have "LF \<notin> set (name @ [0x3a, 0x20] @ val)" using ok(1) by (simp add: header_ok_def)
  from extract_line [OF this, of "header_block hs"]
  have "extract_content_length (header_block (h # hs)) =
    (case line_content_length (name @ 0x3a # 0x20 # val) of Some n \<Rightarrow> n | None \<Rightarrow> extract_content_length (header_block hs))"
    by (simp add: header_block_def header_line_split h)
  then show ?case using Cons.IH [OF ok(2)] by (simp add: line_content_length_header [OF ok(1)] h Let_def)
qed

lemma request_line_no_length:
  assumes "token_ok m" "0x3a \<notin> set m"
  shows "line_content_length (m @ 0x20 # t) = None"
proof -
  have False if a: "(m @ 0x20 # t) ! 14 = 0x3a" "header_name_eq (take 14 (m @ 0x20 # t)) (ascii ''Content-Length'')"
  proof -
    have 14: "length (take 14 (m @ 0x20 # t)) = 14" "0x20 \<notin> set (take 14 (m @ 0x20 # t))"
      using header_name_eq_content_length [OF a(2)] by auto
    consider "length m < 14" | "length m = 14" | "14 < length m" by linarith
    then show False
    proof cases
      case 1
      then show ?thesis using 14 by (auto simp: take_Cons')
    next
      case 2
      then show ?thesis using a by (simp add: nth_append)
    next
      case 3
      then have "0x3a \<in> set m" using a by (simp add: nth_append) (metis nth_mem)
      then show ?thesis using assms by simp
    qed
  qed
  then show ?thesis by (auto simp: line_content_length_def)
qed

lemma extract_request:
  assumes "request_ok m p v hs"
  shows "extract_content_length (request_text m p v hs) = declared_length hs"
proof -
  have ok: "token_ok m" "0x3a \<notin> set m" "list_all header_ok hs" "LF \<notin> set (m @ 0x20 # p @ 0x20 # v)"
    using assms token_no_LF by (auto simp: request_ok_def)
  from extract_line [OF ok(4), of "header_block hs"] show ?thesis
    by (simp add: request_text_def request_line_no_length [OF ok(1,2)] extract_block [OF ok(3)])
qed

text \<open>
  C38. A well-formed request text parses to what it was made of, whatever follows it: method,
  path, version and every header with its value, in order.
\<close>
theorem http_request_roundtrip:
  assumes "request_ok m p v hs"
  shows "parse_request (request_text m p v hs @ rest) new_http_data =
    (True, new_http_data\<lparr>hd_method := m, hd_path := p, hd_version := v, hd_request_headers := hs\<rparr>)"
  using parse_request_text [OF assms] by (simp add: new_http_data_def)

abbreviation (input) sample_headers :: HeaderPairs where
  "sample_headers \<equiv> [(ascii ''Host'', ascii ''a''), (ascii ''content-length'', ascii ''12'')]"

lemma sample_request_ok: "request_ok (ascii ''GET'') (ascii ''/'') (ascii ''HTTP/1.1'') sample_headers"
  by (simp add: request_ok_def token_ok_def header_ok_def is_space_def is_ows_def ascii_def of_char_def)

theorem http_request_roundtrip_witness:
  "request_ok (ascii ''GET'') (ascii ''/'') (ascii ''HTTP/1.1'') sample_headers \<and>
    parse_request (request_text (ascii ''GET'') (ascii ''/'') (ascii ''HTTP/1.1'') sample_headers @ []) new_http_data =
    (True, new_http_data\<lparr>hd_method := ascii ''GET'', hd_path := ascii ''/'', hd_version := ascii ''HTTP/1.1'',
       hd_request_headers := sample_headers\<rparr>)"
  using sample_request_ok http_request_roundtrip [OF sample_request_ok] by blast

text \<open>
  C39. The event loop and the worker agree on where a request ends: in the bytes of a
  well-formed request followed by anything, the first empty line is the one that ends its
  header block, and the length that \<open>extract_content_length\<close> finds in the raw block is the
  value of the first header, among those the parser reports, that is named Content-Length in
  any case and begins with digits; 0 when there is none or the number does not fit 64 bits.
\<close>
theorem request_framing:
  assumes "request_ok m p v hs"
  shows "find_str CRLFCRLF (request_text m p v hs @ body) = Some (length (request_text m p v hs) - 4) \<and>
    extract_content_length (request_text m p v hs) =
      declared_length (hd_request_headers (snd (parse_request (request_text m p v hs) new_http_data)))"
  using parse_request_text [OF assms, of "[]"]
  by (simp add: find_request_end [OF assms] extract_request [OF assms] new_http_data_def)

theorem request_framing_witness:
  "extract_content_length (request_text (ascii ''GET'') (ascii ''/'') (ascii ''HTTP/1.1'') sample_headers) = 12 \<and>
    find_str CRLFCRLF (request_text (ascii ''GET'') (ascii ''/'') (ascii ''HTTP/1.1'') sample_headers @ []) =
      Some (length (request_text (ascii ''GET'') (ascii ''/'') (ascii ''HTTP/1.1'') sample_headers) - 4)"
proof -
  have "declared_length (hd_request_headers (snd (parse_request
      (request_text (ascii ''GET'') (ascii ''/'') (ascii ''HTTP/1.1'') sample_headers) new_http_data))) = declared_length sample_headers"
    using parse_request_text [OF sample_request_ok, of "[]"] by (simp add: new_http_data_def)
  also have "declared_length sample_headers = 12"
    by (simp add: header_name_eq_def ascii_def of_char_def tolower_def is_digit_def decimal_def)
  finally show ?thesis using request_framing [OF sample_request_ok, of "[]"] by (simp only: simp_thms)
qed

end
