(* ===== verification/Event_Loop.thy ===== *)
theory Event_Loop
  imports Http_Parse Conn_IO
begin

text \<open>
  The event loop of main.cpp (\<open>HttpServer::accept_connections\<close>). The loop owns every socket;
  each connection is in the state \<open>ReadingHeaders\<close>, or \<open>Active\<close> with a \<open>ConnectionIO\<close> that a
  worker thread shares. The \<open>shared_ptr\<close> is an index into a store of \<open>ConnectionIO\<close> objects,
  so that a worker keeps its object when the connection, or even its descriptor, is gone.

  The kernel's side is in the state too: the interest list of the epoll instance, the open
  client descriptors and the bytes sent. \<open>epoll_ctl\<close> fails only for a wrong operation (adding
  what is there, changing what is not). The eventfd counter is the sum of the
  \<open>cio_event_fd\<close> of all objects in the store. Results of \<open>accept\<close>, \<open>recv\<close> and \<open>send\<close> are
  arguments.
\<close>

subsection \<open>State\<close>

datatype epoll_flag = EPOLLIN | EPOLLOUT | EPOLLERR | EPOLLHUP
datatype ConnState = ReadingHeaders | Active

record ConnCtx =
  ctx_state :: ConnState
  ctx_header_buf :: str
  ctx_conn_io :: "nat option"
  ctx_body_complete :: bool
  ctx_epoll_events :: "epoll_flag set"

definition new_ctx :: ConnCtx where
  "new_ctx = \<lparr>ctx_state = ReadingHeaders, ctx_header_buf = [], ctx_conn_io = None, ctx_body_complete = False,
    ctx_epoll_events = {EPOLLIN}\<rparr>"

record Server =
  srv_connections :: "int \<rightharpoonup> ConnCtx"
  srv_heap :: "ConnectionIO list"
  srv_interest :: "int \<rightharpoonup> epoll_flag set"
  srv_open :: "int set"
  srv_sent :: "(int \<times> str) list"
  srv_tasks :: "nat list"

definition start_server :: Server where
  "start_server = \<lparr>srv_connections = Map.empty, srv_heap = [], srv_interest = Map.empty, srv_open = {}, srv_sent = [], srv_tasks = []\<rparr>"

definition set_ctx :: "int \<Rightarrow> ConnCtx \<Rightarrow> Server \<Rightarrow> Server" where
  "set_ctx fd ctx s = s\<lparr>srv_connections := (srv_connections s)(fd \<mapsto> ctx)\<rparr>"

definition on_io :: "nat \<Rightarrow> (ConnectionIO \<Rightarrow> ConnectionIO) \<Rightarrow> Server \<Rightarrow> Server" where
  "on_io i f s = s\<lparr>srv_heap := (srv_heap s)[i := f (srv_heap s ! i)]\<rparr>"

definition erase_conn :: "int \<Rightarrow> Server \<Rightarrow> Server" where
  "erase_conn fd s = s\<lparr>srv_connections := (srv_connections s)(fd := None)\<rparr>"

subsection \<open>System calls\<close>

datatype epoll_op = EPOLL_CTL_ADD | EPOLL_CTL_MOD | EPOLL_CTL_DEL

fun epoll_ctl :: "epoll_op \<Rightarrow> int \<Rightarrow> epoll_flag set \<Rightarrow> Server \<Rightarrow> Server" where
  "epoll_ctl EPOLL_CTL_ADD fd es s =
    (if srv_interest s fd = None then s\<lparr>srv_interest := (srv_interest s)(fd \<mapsto> es)\<rparr> else s)"
| "epoll_ctl EPOLL_CTL_MOD fd es s =
    (if srv_interest s fd = None then s else s\<lparr>srv_interest := (srv_interest s)(fd \<mapsto> es)\<rparr>)"
| "epoll_ctl EPOLL_CTL_DEL fd es s = s\<lparr>srv_interest := (srv_interest s)(fd := None)\<rparr>"

definition sys_close :: "int \<Rightarrow> Server \<Rightarrow> Server" where
  "sys_close fd s = s\<lparr>srv_interest := (srv_interest s)(fd := None), srv_open := srv_open s - {fd}\<rparr>"

definition sys_send :: "int \<Rightarrow> str \<Rightarrow> Server \<Rightarrow> Server" where
  "sys_send fd data s = s\<lparr>srv_sent := srv_sent s @ [(fd, data)]\<rparr>"

text \<open>\<open>recv\<close> of no bytes is the end of the stream; \<open>send\<close> reports how many bytes it took.\<close>

datatype recv_result = RecvError | RecvAgain | RecvData str
datatype send_result = SendError | SendAgain | SendSome nat

subsection \<open>Helpers of the loop\<close>

definition update_epoll :: "int \<Rightarrow> epoll_flag set \<Rightarrow> Server \<Rightarrow> Server" where
  "update_epoll fd new_events s =
    (case srv_connections s fd of None \<Rightarrow> s
     | Some ctx \<Rightarrow>
         if new_events = ctx_epoll_events ctx then s
         else set_ctx fd (ctx\<lparr>ctx_epoll_events := new_events\<rparr>)
           (if new_events = {} then epoll_ctl EPOLL_CTL_DEL fd {} s
            else if ctx_epoll_events ctx = {} then epoll_ctl EPOLL_CTL_ADD fd new_events s
            else epoll_ctl EPOLL_CTL_MOD fd new_events s))"

definition close_conn :: "int \<Rightarrow> Server \<Rightarrow> Server" where
  "close_conn fd s =
    (case srv_connections s fd of None \<Rightarrow> s
     | Some ctx \<Rightarrow>
         let s = (if ctx_epoll_events ctx \<noteq> {}
                  then set_ctx fd (ctx\<lparr>ctx_epoll_events := {}\<rparr>) (epoll_ctl EPOLL_CTL_DEL fd {} s) else s);
             s = (case ctx_conn_io ctx of None \<Rightarrow> s | Some i \<Rightarrow> on_io i (writeError \<circ> feedError) s)
         in sys_close fd s)"

definition drop_conn :: "int \<Rightarrow> Server \<Rightarrow> Server" where
  "drop_conn fd s = erase_conn fd (close_conn fd s)"

subsection \<open>Accepting\<close>

text \<open>The descriptors that \<open>accept\<close> returns until it fails, each with the success of \<open>epoll_ctl\<close>.\<close>

fun accept_loop :: "(int \<times> bool) list \<Rightarrow> Server \<Rightarrow> Server" where
  "accept_loop [] s = s"
| "accept_loop ((client_fd, added) # rest) s =
    (let s = s\<lparr>srv_open := insert client_fd (srv_open s)\<rparr>
     in if \<not> added then accept_loop rest (sys_close client_fd s)
        else accept_loop rest (set_ctx client_fd new_ctx (epoll_ctl EPOLL_CTL_ADD client_fd {EPOLLIN} s)))"

subsection \<open>The eventfd\<close>

definition read_eventfd :: "Server \<Rightarrow> Server" where
  "read_eventfd s = s\<lparr>srv_heap := map (\<lambda>c. c\<lparr>cio_event_fd := 0\<rparr>) (srv_heap s)\<rparr>"

text \<open>One round of the scan; the connections to close are collected.\<close>

definition scan_conn :: "int \<Rightarrow> int list \<times> Server \<Rightarrow> int list \<times> Server" where
  "scan_conn cfd = (\<lambda>(to_close, s).
    case srv_connections s cfd of None \<Rightarrow> (to_close, s)
    | Some cctx \<Rightarrow>
        if ctx_state cctx \<noteq> Active then (to_close, s)
        else case ctx_conn_io cctx of None \<Rightarrow> (to_close, s)
          | Some i \<Rightarrow> (let io = srv_heap s ! i
              in if conn_hasError io then (to_close @ [cfd], s)
                 else if isFinished io \<and> \<not> isWritePending io then (to_close @ [cfd], s)
                 else if isWritePending io
                   then (to_close, update_epoll cfd ({EPOLLOUT} \<union> (if ctx_body_complete cctx then {} else {EPOLLIN})) s)
                 else (to_close, s)))"

text \<open>\<open>connections.find\<close> may fail for an entry of the list; \<open>drop_conn\<close> then changes nothing.\<close>

definition close_all :: "int list \<Rightarrow> Server \<Rightarrow> Server" where
  "close_all fds s = fold drop_conn fds s"

text \<open>The order in which the unordered map is scanned is an argument.\<close>

definition handle_eventfd :: "int list \<Rightarrow> Server \<Rightarrow> Server" where
  "handle_eventfd order s =
    (let (to_close, s) = fold scan_conn order ([], read_eventfd s) in close_all to_close s)"

subsection \<open>Incoming bytes\<close>

definition MAX_HEADER_SIZE :: nat where "MAX_HEADER_SIZE = 65536"

definition too_large_response :: str where
  "too_large_response =
    ascii ''HTTP/1.1 431 Request Header Fields Too Large'' @ CRLF @
    ascii ''Connection: close'' @ CRLF @ ascii ''Content-Length: 0'' @ CRLF @ CRLF"

text \<open>The header block is complete: the object for the worker is made and the request submitted.\<close>

definition start_request :: "int \<Rightarrow> ConnCtx \<Rightarrow> nat \<Rightarrow> str \<Rightarrow> Server \<Rightarrow> Server" where
  "start_request fd ctx hdr_end buf s =
    (let header_data = take hdr_end buf; body_prefix = drop hdr_end buf;
         content_length = extract_content_length header_data;
         conn_io = setHeaderData header_data body_prefix content_length new_connection;
         i = length (srv_heap s);
         complete = (content_length = 0 \<or> bodyBytesReceived conn_io \<ge> content_length);
         ctx = ctx\<lparr>ctx_state := Active, ctx_header_buf := [], ctx_conn_io := Some i, ctx_body_complete := complete\<rparr>;
         s = set_ctx fd ctx (s\<lparr>srv_heap := srv_heap s @ [conn_io]\<rparr>);
         s = (if complete then update_epoll fd {} s else s)
     in s\<lparr>srv_tasks := srv_tasks s @ [i]\<rparr>)"

definition recv_headers :: "int \<Rightarrow> ConnCtx \<Rightarrow> str \<Rightarrow> Server \<Rightarrow> Server" where
  "recv_headers fd ctx data s =
    (let buf = ctx_header_buf ctx @ data
     in if length buf > MAX_HEADER_SIZE then drop_conn fd (sys_send fd too_large_response s)
        else case find_str CRLFCRLF buf of
            None \<Rightarrow> set_ctx fd (ctx\<lparr>ctx_header_buf := buf\<rparr>) s
          | Some hdr_end \<Rightarrow> start_request fd ctx (hdr_end + 4) buf s)"

definition recv_body :: "int \<Rightarrow> ConnCtx \<Rightarrow> nat \<Rightarrow> str \<Rightarrow> Server \<Rightarrow> Server" where
  "recv_body fd ctx i data s =
    (let io = srv_heap s ! i; received = bodyBytesReceived io; cl = cio_content_length io;
         remaining = (if cl > received then cl - received else 0);
         to_feed = min (length data) remaining;
         eof = (to_feed \<ge> remaining);
         s = on_io i (feedBody (take to_feed data) eof) s
     in if eof then update_epoll fd (ctx_epoll_events ctx - {EPOLLIN}) (set_ctx fd (ctx\<lparr>ctx_body_complete := True\<rparr>) s) else s)"

definition recv_eof :: "int \<Rightarrow> ConnCtx \<Rightarrow> Server \<Rightarrow> Server" where
  "recv_eof fd ctx s =
    (if ctx_state ctx = ReadingHeaders then drop_conn fd s
     else let s = (case ctx_conn_io ctx of
                     Some i \<Rightarrow> if \<not> ctx_body_complete ctx then on_io i (feedBody [] True) s else s
                   | None \<Rightarrow> s)
       in update_epoll fd (ctx_epoll_events ctx - {EPOLLIN}) (set_ctx fd (ctx\<lparr>ctx_body_complete := True\<rparr>) s))"

definition handle_in :: "int \<Rightarrow> recv_result \<Rightarrow> Server \<Rightarrow> Server" where
  "handle_in fd r s =
    (case srv_connections s fd of None \<Rightarrow> s
     | Some ctx \<Rightarrow>
         (case r of
            RecvError \<Rightarrow> drop_conn fd s
          | RecvAgain \<Rightarrow> s
          | RecvData data \<Rightarrow>
              if data = [] then recv_eof fd ctx s
              else case ctx_state ctx of
                  ReadingHeaders \<Rightarrow> recv_headers fd ctx data s
                | Active \<Rightarrow>
                    if ctx_body_complete ctx then s
                    else (case ctx_conn_io ctx of Some i \<Rightarrow> recv_body fd ctx i data s | None \<Rightarrow> s)))"

subsection \<open>Outgoing bytes\<close>

text \<open>
  The handler of \<open>EPOLLOUT\<close> in three parts, because a worker may run between the calls of the
  object's methods: sending, the question whether more is pending, and what is done for a
  connection without pending data.
\<close>

datatype out_next = OutEnd | OutSent | OutIdle

definition out_send :: "int \<Rightarrow> send_result \<Rightarrow> Server \<Rightarrow> out_next \<times> Server" where
  "out_send fd w s =
    (case srv_connections s fd of None \<Rightarrow> (OutEnd, s)
     | Some ctx \<Rightarrow> (case ctx_conn_io ctx of None \<Rightarrow> (OutEnd, s)
       | Some i \<Rightarrow>
           let pending = pendingWriteData (srv_heap s ! i)
           in if pending = [] then (OutIdle, s)
              else case w of
                  SendError \<Rightarrow> (OutEnd, drop_conn fd (on_io i writeError s))
                | SendAgain \<Rightarrow> (OutEnd, s)
                | SendSome n \<Rightarrow> (OutSent, on_io i (advanceWrite n) (sys_send fd (take n pending) s))))"

definition out_pending :: "int \<Rightarrow> Server \<Rightarrow> out_next" where
  "out_pending fd s =
    (case srv_connections s fd of None \<Rightarrow> OutEnd
     | Some ctx \<Rightarrow> (case ctx_conn_io ctx of None \<Rightarrow> OutEnd
       | Some i \<Rightarrow> if isWritePending (srv_heap s ! i) then OutEnd else OutIdle))"

definition out_idle :: "int \<Rightarrow> Server \<Rightarrow> Server" where
  "out_idle fd s =
    (case srv_connections s fd of None \<Rightarrow> s
     | Some ctx \<Rightarrow> (case ctx_conn_io ctx of None \<Rightarrow> s
       | Some i \<Rightarrow> if isFinished (srv_heap s ! i) then drop_conn fd s
           else update_epoll fd (if ctx_body_complete ctx then {} else {EPOLLIN}) s))"

definition handle_out :: "int \<Rightarrow> send_result \<Rightarrow> Server \<Rightarrow> Server" where
  "handle_out fd w s =
    (case out_send fd w s of
       (OutEnd, s) \<Rightarrow> s
     | (OutIdle, s) \<Rightarrow> out_idle fd s
     | (OutSent, s) \<Rightarrow> (case out_pending fd s of OutIdle \<Rightarrow> out_idle fd s | _ \<Rightarrow> s))"

text \<open>
  One event of a client descriptor. \<open>EPOLLOUT\<close> is looked at only when the first part has not
  ended the connection, which the lookup in \<open>out_send\<close> covers.
\<close>

definition handle_client :: "int \<Rightarrow> epoll_flag set \<Rightarrow> recv_result \<Rightarrow> send_result \<Rightarrow> Server \<Rightarrow> Server" where
  "handle_client fd ev r w s =
    (case srv_connections s fd of None \<Rightarrow> s
     | Some ctx \<Rightarrow>
         if EPOLLERR \<in> ev \<or> EPOLLHUP \<in> ev then drop_conn fd s
         else let s = (if EPOLLIN \<in> ev then handle_in fd r s else s)
           in if EPOLLOUT \<in> ev then handle_out fd w s else s)"

text \<open>The end of the loop.\<close>

definition loop_exit :: "int list \<Rightarrow> Server \<Rightarrow> Server" where
  "loop_exit order s = (fold close_conn order s)\<lparr>srv_connections := Map.empty\<rparr>"

end
