(* ===== verification/Event_Loop_Correct.thy ===== *)
theory Event_Loop_Correct
  imports Event_Loop
begin

text \<open>
  Interleavings of the event loop with the workers. The loop thread has a position
  (\<open>loop_pc\<close>) because a worker can run between the method calls of a handler; every step of
  \<open>loop_step\<close> is one part of a handler of \<open>Event_Loop\<close> or one method call of a worker. An event
  may be handled for any descriptor at any time, so stale events of an earlier
  \<open>epoll_wait\<close> are covered. The checks that the scan makes on one connection are one step.
\<close>

subsection \<open>Steps\<close>

datatype loop_pc =
    Waiting
  | Scanning "int list" "int list"  \<comment> \<open>descriptors still to scan, descriptors to close\<close>
  | OutCheck int  \<comment> \<open>bytes were sent; is more pending?\<close>
  | OutDone int  \<comment> \<open>no data was pending\<close>

fun after_out :: "int \<Rightarrow> out_next \<Rightarrow> loop_pc" where
  "after_out fd OutEnd = Waiting"
| "after_out fd OutSent = OutCheck fd"
| "after_out fd OutIdle = OutDone fd"

inductive worker_op :: "ConnectionIO \<Rightarrow> ConnectionIO \<Rightarrow> bool" where
  op_write: "writeData d c = Some c' \<Longrightarrow> worker_op c c'"
| op_read: "readBodyChunk m c = Some (res, c') \<Longrightarrow> worker_op c c'"
| op_finish: "worker_op c (conn_finish c)"
| op_error: "worker_op c (setError c)"

inductive loop_step :: "loop_pc \<times> Server \<Rightarrow> loop_pc \<times> Server \<Rightarrow> bool" where
  worker: "i < length (srv_heap s) \<Longrightarrow> worker_op (srv_heap s ! i) c \<Longrightarrow> loop_step (pc, s) (pc, on_io i (\<lambda>_. c) s)"
| accept: "fd \<notin> srv_open s \<Longrightarrow> loop_step (Waiting, s) (Waiting, accept_loop [(fd, added)] s)"
| eventfd: "set order = dom (srv_connections s) \<Longrightarrow> loop_step (Waiting, s) (Scanning order [], read_eventfd s)"
| scan: "scan_conn fd (to_close, s) = (to_close', s') \<Longrightarrow>
    loop_step (Scanning (fd # rest) to_close, s) (Scanning rest to_close', s')"
| scan_end: "loop_step (Scanning [] to_close, s) (Waiting, close_all to_close s)"
| hangup: "loop_step (Waiting, s) (Waiting, drop_conn fd s)"
| incoming: "loop_step (Waiting, s) (Waiting, handle_in fd r s)"
| outgoing: "out_send fd w s = (k, s') \<Longrightarrow> loop_step (Waiting, s) (after_out fd k, s')"
| out_check: "loop_step (OutCheck fd, s) (after_out fd (out_pending fd s), s)"
| out_done: "loop_step (OutDone fd, s) (Waiting, out_idle fd s)"

inductive loop_reachable :: "loop_pc \<times> Server \<Rightarrow> bool" where
  start: "loop_reachable (Waiting, start_server)"
| step: "loop_reachable x \<Longrightarrow> loop_step x y \<Longrightarrow> loop_reachable y"

declare accept_loop.simps [simp del]

inductive_cases loop_stepE: "loop_step (pc, s) y"

subsection \<open>What the workers promise\<close>

text \<open>
  A notifier never takes back a signal, and every step after which the other side has
  something to do has left one.
\<close>

locale notifier =
  fixes step :: "'c \<Rightarrow> 'c \<Rightarrow> bool" and needs :: "'c \<Rightarrow> bool" and signalled :: "'c \<Rightarrow> bool"
  assumes keeps: "step c c' \<Longrightarrow> signalled c \<Longrightarrow> signalled c'"
    and notifies: "step c c' \<Longrightarrow> needs c' \<Longrightarrow> needs c \<or> signalled c'"
begin

lemma woken_step: "step c c' \<Longrightarrow> (needs c \<longrightarrow> signalled c \<or> R) \<Longrightarrow> needs c' \<longrightarrow> signalled c' \<or> R"
  using keeps notifies by blast

lemma woken_run: "step\<^sup>*\<^sup>* c c' \<Longrightarrow> (needs c \<longrightarrow> signalled c \<or> R) \<Longrightarrow> needs c' \<longrightarrow> signalled c' \<or> R"
  by (induction rule: rtranclp_induct) (use woken_step in blast)+

end

abbreviation signalled :: "ConnectionIO \<Rightarrow> bool" where
  "signalled c \<equiv> 0 < cio_event_fd c"

lemma readBodyChunk_frame:
  assumes "readBodyChunk m c = Some (res, c')"
  shows "c' = c\<lparr>cio_read_chunk := cio_read_chunk c', cio_read_data_ready := cio_read_data_ready c'\<rparr>"
  using assms by (auto simp: readBodyChunk_def take_chunk_def Let_def split: if_splits)

lemma worker_op_frame:
  assumes "worker_op c c'"
  shows "cio_body_bytes_fed c' = cio_body_bytes_fed c \<and> cio_content_length c' = cio_content_length c \<and>
    cio_read_eof c' = cio_read_eof c \<and> cio_read_error c' = cio_read_error c \<and>
    (cio_write_error c \<longrightarrow> cio_write_error c') \<and> (signalled c \<longrightarrow> signalled c') \<and>
    (isWritePending c' \<longrightarrow> isWritePending c \<or> signalled c') \<and>
    (isFinished c' \<longrightarrow> isFinished c \<or> signalled c') \<and>
    (conn_hasError c' \<longrightarrow> conn_hasError c \<or> signalled c')"
  using assms
proof cases
  case (op_read m res)
  from readBodyChunk_frame [OF this]
  have "cio_body_bytes_fed c' = cio_body_bytes_fed c" "cio_content_length c' = cio_content_length c"
    "cio_read_eof c' = cio_read_eof c" "cio_read_error c' = cio_read_error c" "cio_write_error c' = cio_write_error c"
    "cio_event_fd c' = cio_event_fd c" "cio_write_pending c' = cio_write_pending c"
    "cio_finished c' = cio_finished c" "cio_write_buffer c' = cio_write_buffer c"
    by (metis ConnectionIO.select_convs ConnectionIO.surjective ConnectionIO.update_convs)+
  then show ?thesis by (simp add: isWritePending_def isFinished_def conn_hasError_def)
next
  case (op_write d)
  then show ?thesis
    by (auto simp: writeData_def signal_eventfd_def isWritePending_def isFinished_def conn_hasError_def split: if_splits)
qed (simp_all add: conn_finish_def setError_def signal_eventfd_def isWritePending_def isFinished_def conn_hasError_def)

interpretation pend: notifier worker_op isWritePending signalled
  by unfold_locales (auto dest: worker_op_frame)

interpretation fin: notifier worker_op isFinished signalled
  by unfold_locales (auto dest: worker_op_frame)

interpretation err: notifier worker_op conn_hasError signalled
  by unfold_locales (auto dest: worker_op_frame)

lemma worker_op_wf:
  assumes "worker_op c c'" "\<not> cio_write_error c \<longrightarrow> write_wf c"
  shows "\<not> cio_write_error c' \<longrightarrow> write_wf c'"
  using assms(1)
proof cases
  case (op_read m res)
  then show ?thesis using readBodyChunk_spec [OF op_read] assms(2) by simp
next
  case (op_write d)
  then show ?thesis using assms(2) by (auto simp: conn_defs split: if_splits)
qed (use assms(2) in \<open>simp_all add: conn_finish_def setError_def\<close>)

subsection \<open>The invariant\<close>

fun due :: "loop_pc \<Rightarrow> int set" where
  "due (Scanning fds to_close) = set fds \<union> set to_close"
| "due _ = {}"

abbreviation woken :: "loop_pc \<Rightarrow> int \<Rightarrow> ConnectionIO \<Rightarrow> bool" where
  "woken pc fd c \<equiv> signalled c \<or> fd \<in> due pc"

text \<open>
  The object of an active connection: whatever the worker did, the loop will look at it, and
  as long as body bytes are missing the loop reads the socket.
\<close>

definition io_ok :: "loop_pc \<Rightarrow> int \<Rightarrow> ConnCtx \<Rightarrow> ConnectionIO \<Rightarrow> bool" where
  "io_ok pc fd ctx c \<longleftrightarrow>
    (\<not> cio_write_error c \<longrightarrow> write_wf c) \<and>
    (\<not> ctx_body_complete ctx \<longrightarrow> EPOLLIN \<in> ctx_epoll_events ctx) \<and>
    (needsMoreBody c \<longrightarrow> \<not> ctx_body_complete ctx) \<and>
    (isWritePending c \<longrightarrow> woken pc fd c \<or> EPOLLOUT \<in> ctx_epoll_events ctx) \<and>
    (isFinished c \<longrightarrow> woken pc fd c \<or> EPOLLOUT \<in> ctx_epoll_events ctx) \<and>
    (conn_hasError c \<longrightarrow> woken pc fd c) \<and>
    (pc = OutDone fd \<and> isWritePending c \<longrightarrow> signalled c)"

definition reg :: "ConnCtx \<Rightarrow> epoll_flag set option" where
  "reg ctx = (if ctx_epoll_events ctx = {} then None else Some (ctx_epoll_events ctx))"

definition reading_ok :: "ConnCtx \<Rightarrow> bool" where
  "reading_ok ctx \<longleftrightarrow> ctx_state ctx = ReadingHeaders \<and> \<not> ctx_body_complete ctx \<and> ctx_epoll_events ctx = {EPOLLIN} \<and>
    length (ctx_header_buf ctx) \<le> MAX_HEADER_SIZE \<and> find_str CRLFCRLF (ctx_header_buf ctx) = None"

definition ctx_ok :: "loop_pc \<Rightarrow> int \<Rightarrow> ConnCtx \<Rightarrow> ConnectionIO list \<Rightarrow> bool" where
  "ctx_ok pc fd ctx heap \<longleftrightarrow> ctx_epoll_events ctx \<subseteq> {EPOLLIN, EPOLLOUT} \<and>
    (case ctx_conn_io ctx of
       None \<Rightarrow> reading_ok ctx
     | Some i \<Rightarrow> ctx_state ctx = Active \<and> i < length heap \<and> io_ok pc fd ctx (heap ! i))"

definition referenced :: "Server \<Rightarrow> nat \<Rightarrow> bool" where
  "referenced s i \<longleftrightarrow> (\<exists>fd ctx. srv_connections s fd = Some ctx \<and> ctx_conn_io ctx = Some i)"

definition kernel_ok :: "Server \<Rightarrow> bool" where
  "kernel_ok s \<longleftrightarrow> srv_open s = dom (srv_connections s) \<and>
    (\<forall>fd. srv_interest s fd = (case srv_connections s fd of None \<Rightarrow> None | Some ctx \<Rightarrow> reg ctx))"

definition io_unique :: "Server \<Rightarrow> bool" where
  "io_unique s \<longleftrightarrow> (\<forall>fd fd' ctx ctx' i. srv_connections s fd = Some ctx \<and> srv_connections s fd' = Some ctx' \<and>
     ctx_conn_io ctx = Some i \<and> ctx_conn_io ctx' = Some i \<longrightarrow> fd = fd')"

definition store_ok :: "Server \<Rightarrow> bool" where
  "store_ok s \<longleftrightarrow> srv_tasks s = [0..<length (srv_heap s)] \<and> io_unique s \<and>
    (\<forall>i<length (srv_heap s). \<not> referenced s i \<longrightarrow> cio_read_error (srv_heap s ! i) \<and> cio_write_error (srv_heap s ! i))"

definition loop_inv :: "loop_pc \<Rightarrow> Server \<Rightarrow> bool" where
  "loop_inv pc s \<longleftrightarrow> kernel_ok s \<and> store_ok s \<and>
    (\<forall>fd ctx. srv_connections s fd = Some ctx \<longrightarrow> ctx_ok pc fd ctx (srv_heap s))"

lemma loop_invD:
  assumes "loop_inv pc s"
  shows "kernel_ok s" "store_ok s" "srv_connections s fd = Some ctx \<Longrightarrow> ctx_ok pc fd ctx (srv_heap s)"
  using assms by (simp_all add: loop_inv_def)

lemma active_io:
  assumes "loop_inv pc s" "srv_connections s fd = Some ctx" "ctx_conn_io ctx = Some i"
  shows "ctx_state ctx = Active" "i < length (srv_heap s)" "io_ok pc fd ctx (srv_heap s ! i)" "ctx_epoll_events ctx \<subseteq> {EPOLLIN, EPOLLOUT}"
  using loop_invD(3) [OF assms(1,2)] assms(3) by (simp_all add: ctx_ok_def)

text \<open>
  A position may change as long as no other connection loses its place in a scan and no other
  one is promised to be idle.
\<close>

definition pc_moves :: "int \<Rightarrow> loop_pc \<Rightarrow> loop_pc \<Rightarrow> bool" where
  "pc_moves fd pc pc' \<longleftrightarrow> (\<forall>f. f \<noteq> fd \<longrightarrow> (f \<in> due pc \<longrightarrow> f \<in> due pc') \<and> (pc' = OutDone f \<longrightarrow> pc = OutDone f))"

lemma pc_moves_refl [simp]: "pc_moves fd pc pc"
  by (simp add: pc_moves_def)

lemma ctx_ok_other:
  assumes "ctx_ok pc f ctx heap" "pc_moves fd pc pc'" "f \<noteq> fd" "length heap \<le> length heap'"
    "\<And>i. ctx_conn_io ctx = Some i \<Longrightarrow> heap' ! i = heap ! i"
  shows "ctx_ok pc' f ctx heap'"
proof (cases "ctx_conn_io ctx")
  case None
  then show ?thesis using assms(1) by (simp add: ctx_ok_def)
next
  case (Some i)
  have m: "f \<in> due pc \<longrightarrow> f \<in> due pc'" "pc' = OutDone f \<longrightarrow> pc = OutDone f" using assms(2,3) by (auto simp: pc_moves_def)
  have "io_ok pc f ctx (heap ! i)" "i < length heap'" using assms(1,4) Some by (simp_all add: ctx_ok_def)
  then show ?thesis using assms(1) assms(5) [OF Some] Some m by (auto simp: ctx_ok_def io_ok_def)
qed

lemma referencedI: "srv_connections s fd = Some ctx \<Longrightarrow> ctx_conn_io ctx = Some i \<Longrightarrow> referenced s i"
  by (auto simp: referenced_def)

lemma referenced_upd:
  assumes "srv_connections s fd = Some ctx" "ctx_conn_io ctx' = ctx_conn_io ctx" "srv_connections s' = (srv_connections s)(fd \<mapsto> ctx')"
  shows "referenced s' j \<longleftrightarrow> referenced s j"
proof
  assume "referenced s' j"
  then show "referenced s j" using assms by (auto simp: referenced_def split: if_splits) 
next
  assume "referenced s j"
  then obtain f c where "srv_connections s f = Some c" "ctx_conn_io c = Some j" by (auto simp: referenced_def)
  then have "srv_connections s' f = Some (if f = fd then ctx' else c) \<and> ctx_conn_io (if f = fd then ctx' else c) = Some j"
    using assms by auto
  then show "referenced s' j" unfolding referenced_def by blast
qed

lemma referenced_del:
  assumes "srv_connections s' = (srv_connections s)(fd := None)" "\<not> referenced s' j" "referenced s j" "srv_connections s fd = Some ctx"
  shows "ctx_conn_io ctx = Some j"
proof -
  obtain f c where c: "srv_connections s f = Some c" "ctx_conn_io c = Some j" using assms(3) by (auto simp: referenced_def)
  then have "f = fd" using assms(1,2) by (metis fun_upd_other referenced_def)
  then show ?thesis using c assms(4) by simp
qed

text \<open>The step of an active connection: its record, its object and its registration change.\<close>

lemma loop_inv_active:
  assumes inv: "loop_inv pc s" and ctx: "srv_connections s fd = Some ctx" "ctx_conn_io ctx = Some i"
    and ctx': "ctx_conn_io ctx' = Some i" "ctx_state ctx' = Active" "ctx_epoll_events ctx' \<subseteq> {EPOLLIN, EPOLLOUT}"
    and io: "io_ok pc' fd ctx' c'" and pc: "pc_moves fd pc pc'"
    and s': "srv_connections s' = (srv_connections s)(fd \<mapsto> ctx')" "srv_heap s' = (srv_heap s)[i := c']"
      "srv_interest s' = (srv_interest s)(fd := reg ctx')" "srv_open s' = srv_open s" "srv_tasks s' = srv_tasks s"
  shows "loop_inv pc' s'"
proof -
  note i = active_io(2) [OF inv ctx]
  have uniq: "ctx_conn_io c2 \<noteq> Some i" if "srv_connections s f = Some c2" "f \<noteq> fd" for f c2
    using loop_invD(2) [OF inv] that ctx by (auto simp: store_ok_def io_unique_def)
  have "kernel_ok s'" using loop_invD(1) [OF inv] ctx s' by (auto simp: kernel_ok_def)
  moreover have "store_ok s'"
  proof -
    have r: "referenced s' j \<longleftrightarrow> referenced s j" for j
      by (rule referenced_upd [OF ctx(1) _ s'(1)]) (simp add: ctx ctx')
    have "srv_heap s' ! j = srv_heap s ! j" if "\<not> referenced s j" for j
      using that referencedI [OF ctx] by (cases "j = i") (auto simp: s')
    moreover have "io_unique s'" using loop_invD(2) [OF inv] ctx ctx'(1)
      by (auto simp: store_ok_def io_unique_def s' split: if_splits)
    ultimately show ?thesis using loop_invD(2) [OF inv] by (auto simp: store_ok_def s'(2,5) r)
  qed
  moreover have "ctx_ok pc' f c2 (srv_heap s')" if f: "srv_connections s' f = Some c2" for f c2
  proof (cases "f = fd")
    case True
    then show ?thesis using f s' ctx' io i by (simp add: ctx_ok_def)
  next
    case False
    then have c2: "srv_connections s f = Some c2" using f s' by simp
    show ?thesis
      by (rule ctx_ok_other [OF loop_invD(3) [OF inv c2] pc False]) (use s' uniq [OF c2 False] in \<open>auto simp: nth_list_update\<close>)
  qed
  ultimately show ?thesis by (simp add: loop_inv_def)
qed

text \<open>The end of a connection.\<close>

lemma drop_conn_fields:
  assumes "srv_connections s fd = Some ctx"
  shows "srv_connections (drop_conn fd s) = (srv_connections s)(fd := None)"
    "srv_interest (drop_conn fd s) = (srv_interest s)(fd := None)"
    "srv_open (drop_conn fd s) = srv_open s - {fd}" "srv_tasks (drop_conn fd s) = srv_tasks s"
    "srv_heap (drop_conn fd s) =
      (case ctx_conn_io ctx of None \<Rightarrow> srv_heap s | Some i \<Rightarrow> (srv_heap s)[i := writeError (feedError (srv_heap s ! i))])"
  using assms by (auto simp: drop_conn_def close_conn_def erase_conn_def sys_close_def set_ctx_def on_io_def fun_eq_iff split: option.splits)

lemma drop_conn_absent: "srv_connections s fd = None \<Longrightarrow> drop_conn fd s = s"
  by (simp add: drop_conn_def close_conn_def erase_conn_def fun_upd_idem)

lemma loop_inv_drop:
  assumes inv: "loop_inv pc s" and pc: "pc_moves fd pc pc'" 
  shows "loop_inv pc' (drop_conn fd s)"
proof (cases "srv_connections s fd")
  case None
  have "ctx_ok pc' f c2 (srv_heap s)" if "srv_connections s f = Some c2" for f c2
  proof -
    have "f \<noteq> fd" using None that by auto
    from ctx_ok_other [OF loop_invD(3) [OF inv that] pc this] show ?thesis by simp
  qed
  then show ?thesis using inv None by (simp add: loop_inv_def drop_conn_absent)
next
  case (Some ctx)
  note s' = drop_conn_fields [OF Some]
  let ?s' = "drop_conn fd s"
  have uniq: "ctx_conn_io c2 \<noteq> Some i" if "srv_connections s f = Some c2" "f \<noteq> fd" "ctx_conn_io ctx = Some i" for f c2 i
    using loop_invD(2) [OF inv] that Some by (auto simp: store_ok_def io_unique_def)
  have "kernel_ok ?s'" using loop_invD(1) [OF inv] Some by (auto simp: kernel_ok_def s')
  moreover have "store_ok ?s'"
  proof -
    have "cio_read_error (srv_heap ?s' ! j) \<and> cio_write_error (srv_heap ?s' ! j)"
      if j: "j < length (srv_heap s)" "\<not> referenced ?s' j" for j
    proof (cases "referenced s j")
      case True
      from referenced_del [OF s'(1) j(2) True Some] j(1) show ?thesis by (simp add: s' writeError_def feedError_def)
    next
      case False
      then have "srv_heap ?s' ! j = srv_heap s ! j"
        using referencedI [OF Some] by (cases "ctx_conn_io ctx = Some j") (auto simp: s' split: option.split)
      then show ?thesis using loop_invD(2) [OF inv] j(1) False by (simp add: store_ok_def)
    qed
    moreover have "length (srv_heap ?s') = length (srv_heap s)" by (simp add: s' split: option.split)
    moreover have "io_unique ?s'" using loop_invD(2) [OF inv] by (auto simp: store_ok_def io_unique_def s' split: if_splits)
    ultimately show ?thesis using loop_invD(2) [OF inv] by (auto simp: store_ok_def s')
  qed
  moreover have "ctx_ok pc' f c2 (srv_heap ?s')" if f: "srv_connections ?s' f = Some c2" for f c2
  proof -
    have c2: "srv_connections s f = Some c2" "f \<noteq> fd" using f s' by (auto split: if_splits)
    show ?thesis
      by (rule ctx_ok_other [OF loop_invD(3) [OF inv c2(1)] pc c2(2)])
        (use s' uniq [OF c2] in \<open>auto simp: nth_list_update split: option.splits\<close>)
  qed
  ultimately show ?thesis by (simp add: loop_inv_def)
qed

subsection \<open>Every step keeps the invariant\<close>

lemma loop_inv_pc:
  assumes "loop_inv pc s" "due pc \<subseteq> due pc'" "\<And>f. pc' \<noteq> OutDone f"
  shows "loop_inv pc' s"
proof -
  have "ctx_ok pc' f c2 (srv_heap s)" if "srv_connections s f = Some c2" for f c2
    using loop_invD(3) [OF assms(1) that] by (rule ctx_ok_other [of _ _ _ _ "f + 1"]) (use assms(2,3) in \<open>auto simp: pc_moves_def\<close>)
  then show ?thesis using assms(1) by (simp add: loop_inv_def)
qed

lemma interest_reg: "loop_inv pc s \<Longrightarrow> srv_connections s fd = Some ctx \<Longrightarrow> srv_interest s fd = reg ctx"
  by (simp add: loop_inv_def kernel_ok_def)

lemma update_epoll_fields:
  assumes "srv_interest s fd = reg ctx" "srv_connections s fd = Some ctx"
  shows "srv_connections (update_epoll fd es s) = (srv_connections s)(fd \<mapsto> ctx\<lparr>ctx_epoll_events := es\<rparr>)"
    "srv_interest (update_epoll fd es s) = (srv_interest s)(fd := reg (ctx\<lparr>ctx_epoll_events := es\<rparr>))"
    "srv_heap (update_epoll fd es s) = srv_heap s" "srv_open (update_epoll fd es s) = srv_open s"
    "srv_tasks (update_epoll fd es s) = srv_tasks s"
  using assms by (auto simp: update_epoll_def set_ctx_def reg_def fun_eq_iff)

lemma io_ok_worker:
  assumes w: "worker_op c c'" and ok: "io_ok pc fd ctx c"
  shows "io_ok pc fd ctx c'"
proof -
  let ?O = "EPOLLOUT \<in> ctx_epoll_events ctx"
  have "isWritePending c' \<longrightarrow> signalled c' \<or> fd \<in> due pc \<or> ?O"
    by (rule pend.woken_step [OF w]) (use ok in \<open>simp add: io_ok_def\<close>)
  moreover have "isFinished c' \<longrightarrow> signalled c' \<or> fd \<in> due pc \<or> ?O"
    by (rule fin.woken_step [OF w]) (use ok in \<open>simp add: io_ok_def\<close>)
  moreover have "conn_hasError c' \<longrightarrow> signalled c' \<or> fd \<in> due pc"
    by (rule err.woken_step [OF w]) (use ok in \<open>simp add: io_ok_def\<close>)
  moreover have "isWritePending c' \<longrightarrow> signalled c' \<or> pc \<noteq> OutDone fd"
    by (rule pend.woken_step [OF w]) (use ok in \<open>auto simp: io_ok_def\<close>)
  moreover have "needsMoreBody c' = needsMoreBody c" using worker_op_frame [OF w] by (simp add: needsMoreBody_def)
  moreover have "\<not> cio_write_error c' \<longrightarrow> write_wf c'" by (rule worker_op_wf [OF w]) (use ok in \<open>simp add: io_ok_def\<close>)
  ultimately show ?thesis using ok unfolding io_ok_def by blast
qed

lemma on_io_fields [simp]:
  "srv_connections (on_io i f s) = srv_connections s" "srv_heap (on_io i f s) = (srv_heap s)[i := f (srv_heap s ! i)]"
  "srv_interest (on_io i f s) = srv_interest s" "srv_open (on_io i f s) = srv_open s" "srv_tasks (on_io i f s) = srv_tasks s"
  by (simp_all add: on_io_def)

lemma sys_send_fields [simp]:
  "srv_connections (sys_send fd d s) = srv_connections s" "srv_heap (sys_send fd d s) = srv_heap s"
  "srv_interest (sys_send fd d s) = srv_interest s" "srv_open (sys_send fd d s) = srv_open s" "srv_tasks (sys_send fd d s) = srv_tasks s"
  by (simp_all add: sys_send_def)

lemma registered:
  assumes "loop_inv pc s" "srv_connections s fd = Some ctx"
  shows "srv_connections s = (srv_connections s)(fd \<mapsto> ctx)" "srv_interest s = (srv_interest s)(fd := reg ctx)"
  using loop_invD(1) [OF assms(1)] assms(2) by (auto simp: kernel_ok_def fun_eq_iff)

lemma loop_inv_io:
  assumes inv: "loop_inv pc s" and ctx: "srv_connections s fd = Some ctx" "ctx_conn_io ctx = Some i"
    and io: "io_ok pc' fd ctx (f (srv_heap s ! i))" and pc: "pc_moves fd pc pc'"
  shows "loop_inv pc' (on_io i f s)"
  by (rule loop_inv_active [OF inv ctx ctx(2) active_io(1,4) [OF inv ctx] io pc])
    (simp_all only: on_io_fields registered [OF inv ctx(1), symmetric])

lemma loop_inv_worker:
  assumes inv: "loop_inv pc s" and i: "i < length (srv_heap s)" "worker_op (srv_heap s ! i) c"
  shows "loop_inv pc (on_io i (\<lambda>_. c) s)"
proof (cases "referenced s i")
  case True
  then obtain fd ctx where ctx: "srv_connections s fd = Some ctx" "ctx_conn_io ctx = Some i" by (auto simp: referenced_def)
  show ?thesis by (rule loop_inv_io [OF inv ctx]) (use io_ok_worker [OF i(2)] active_io(3) [OF inv ctx] in auto)
next
  case False
  have e: "cio_read_error c \<and> cio_write_error c"
    using loop_invD(2) [OF inv] False i(1) worker_op_frame [OF i(2)] by (auto simp: store_ok_def)
  have "kernel_ok (on_io i (\<lambda>_. c) s)" using loop_invD(1) [OF inv] by (simp add: kernel_ok_def)
  moreover have "store_ok (on_io i (\<lambda>_. c) s)"
    using loop_invD(2) [OF inv] e by (auto simp: store_ok_def io_unique_def referenced_def nth_list_update i(1))
  moreover have "ctx_ok pc f c2 (srv_heap (on_io i (\<lambda>_. c) s))" if "srv_connections s f = Some c2" for f c2
  proof (rule ctx_ok_other [OF loop_invD(3) [OF inv that], of "f + 1"])
    fix j
    assume "ctx_conn_io c2 = Some j"
    then have "j \<noteq> i" using False referencedI [OF that] by auto
    then show "srv_heap (on_io i (\<lambda>_. c) s) ! j = srv_heap s ! j" by simp
  qed simp_all
  ultimately show ?thesis by (simp add: loop_inv_def)
qed

lemma loop_inv_update_epoll:
  assumes inv: "loop_inv pc s" and ctx: "srv_connections s fd = Some ctx" "ctx_conn_io ctx = Some i"
    and es: "es \<subseteq> {EPOLLIN, EPOLLOUT}" and io: "io_ok pc' fd (ctx\<lparr>ctx_epoll_events := es\<rparr>) (srv_heap s ! i)"
    and pc: "pc_moves fd pc pc'"
  shows "loop_inv pc' (update_epoll fd es s)"
  using io es by (intro loop_inv_active [where c' = "srv_heap s ! i" and ctx' = "ctx\<lparr>ctx_epoll_events := es\<rparr>", OF inv ctx _ _ _ _ pc])
    (simp_all add: update_epoll_fields [OF interest_reg [OF inv ctx(1)] ctx(1)] active_io [OF inv ctx] ctx)

lemma loop_inv_scan:
  assumes inv: "loop_inv (Scanning (fd # rest) tc) s" and sc: "scan_conn fd (tc, s) = (tc', s')"
  shows "loop_inv (Scanning rest tc') s'"
proof (cases "srv_connections s fd")
  case None
  then have eq: "tc' = tc" "s' = s" using sc by (simp_all add: scan_conn_def)
  have "drop_conn fd s = s" using None by (rule drop_conn_absent)
  moreover have "loop_inv (Scanning rest tc) (drop_conn fd s)" by (rule loop_inv_drop [OF inv]) (auto simp: pc_moves_def)
  ultimately show ?thesis using eq by simp
next
  case (Some ctx)
  let ?pc = "Scanning (fd # rest) tc" and ?pc' = "Scanning rest tc'"
  have pc: "pc_moves fd ?pc (Scanning rest tc)" "pc_moves fd ?pc (Scanning rest (tc @ [fd]))" by (auto simp: pc_moves_def)
  show ?thesis
  proof (cases "ctx_conn_io ctx")
    case None
    then have "reading_ok ctx" using loop_invD(3) [OF inv Some] by (simp add: ctx_ok_def)
    then have eq: "tc' = tc" "s' = s" using sc Some by (simp_all add: scan_conn_def reading_ok_def)
    have "ctx_ok (Scanning rest tc) f c2 (srv_heap s)" if "srv_connections s f = Some c2" for f c2
    proof (cases "f = fd")
      case True
      then show ?thesis using that Some None \<open>reading_ok ctx\<close> by (simp add: ctx_ok_def reading_ok_def)
    next
      case False
      from ctx_ok_other [OF loop_invD(3) [OF inv that] pc(1) False] show ?thesis by simp
    qed
    then show ?thesis using inv eq by (simp add: loop_inv_def)
  next
    case io: (Some i)
    note a = active_io [OF inv Some io]
    let ?c = "srv_heap s ! i" and ?es = "{EPOLLOUT} \<union> (if ctx_body_complete ctx then {} else {EPOLLIN})"
    consider (close) "tc' = tc @ [fd]" "s' = s"
      | (out) "tc' = tc" "s' = update_epoll fd ?es s" "\<not> conn_hasError ?c" "isWritePending ?c"
      | (none) "tc' = tc" "s' = s" "\<not> conn_hasError ?c" "\<not> isFinished ?c" "\<not> isWritePending ?c"
      using sc Some io a(1) by (auto simp: scan_conn_def Let_def split: if_splits)
    then show ?thesis
    proof cases
      case close
      then show ?thesis using loop_inv_pc [OF inv, of ?pc'] by auto
    next
      case out
      show ?thesis unfolding out
        by (rule loop_inv_update_epoll [OF inv Some io _ _ pc(1)]) (use a out in \<open>auto simp: io_ok_def\<close>)
    next
      case none
      have "loop_inv ?pc' (on_io i (\<lambda>c. c) s)"
        by (rule loop_inv_io [OF inv Some io]) (use a none pc in \<open>auto simp: io_ok_def\<close>)
      then show ?thesis using none by (simp add: on_io_def)
    qed
  qed
qed

lemma loop_inv_close_all:
  "loop_inv (Scanning [] tc) s \<Longrightarrow> loop_inv Waiting (close_all tc s)"
proof (induction tc arbitrary: s)
  case Nil
  then show ?case using loop_inv_pc [OF Nil, of Waiting] by (simp add: close_all_def)
next
  case (Cons fd tc)
  have "loop_inv (Scanning [] tc) (drop_conn fd s)"
    by (rule loop_inv_drop [OF Cons.prems]) (auto simp: pc_moves_def)
  from Cons.IH [OF this] show ?case by (simp add: close_all_def)
qed

lemma loop_inv_cong:
  assumes "loop_inv pc s" "srv_connections s' = srv_connections s" "srv_heap s' = srv_heap s" "srv_interest s' = srv_interest s"
    "srv_open s' = srv_open s" "srv_tasks s' = srv_tasks s"
  shows "loop_inv pc s'"
  using assms by (simp add: loop_inv_def kernel_ok_def store_ok_def io_unique_def referenced_def)

text \<open>A connection that reads headers, new or with more bytes.\<close>

lemma loop_inv_reading:
  assumes inv: "loop_inv pc s" and old: "case srv_connections s fd of None \<Rightarrow> True | Some ctx \<Rightarrow> ctx_conn_io ctx = None"
    and ctx': "ctx_conn_io ctx' = None" "reading_ok ctx'"
    and s': "srv_connections s' = (srv_connections s)(fd \<mapsto> ctx')" "srv_heap s' = srv_heap s"
      "srv_interest s' = (srv_interest s)(fd := reg ctx')" "srv_open s' = insert fd (srv_open s)" "srv_tasks s' = srv_tasks s"
  shows "loop_inv pc s'"
proof -
  have "kernel_ok s'" using loop_invD(1) [OF inv] s' by (auto simp: kernel_ok_def)
  moreover have "store_ok s'"
  proof -
    have "referenced s' j" if r: "referenced s j" for j
    proof -
      from r obtain f c where c: "srv_connections s f = Some c" "ctx_conn_io c = Some j" by (auto simp: referenced_def)
      then have "f \<noteq> fd" using old by auto
      then show ?thesis using c s'(1) by (intro referencedI [of _ f c]) simp_all
    qed
    moreover have "io_unique s'" using loop_invD(2) [OF inv] ctx'(1) by (auto simp: store_ok_def io_unique_def s' split: if_splits)
    ultimately show ?thesis using loop_invD(2) [OF inv] s'(2,5) by (auto simp: store_ok_def)
  qed
  moreover have "ctx_ok pc f c2 (srv_heap s')" if "srv_connections s' f = Some c2" for f c2
    using loop_invD(3) [OF inv, of f c2] that ctx' s' by (cases "f = fd") (auto simp: ctx_ok_def reading_ok_def)
  ultimately show ?thesis by (simp add: loop_inv_def)
qed

lemma loop_inv_accept:
  assumes inv: "loop_inv pc s" and new: "fd \<notin> srv_open s"
  shows "loop_inv pc (accept_loop [(fd, added)] s)"
proof -
  have none: "srv_connections s fd = None" "srv_interest s fd = None"
    using loop_invD(1) [OF inv] new by (auto simp: kernel_ok_def split: option.splits)
  show ?thesis
  proof (cases added)
    case True
    have "reading_ok new_ctx" by (simp add: reading_ok_def new_ctx_def)
    then show ?thesis using True none
      by (intro loop_inv_reading [OF inv, of fd new_ctx]) (simp_all add: accept_loop.simps new_ctx_def set_ctx_def reg_def)
  next
    case False
    then show ?thesis using none new by (intro loop_inv_cong [OF inv]) (simp_all add: accept_loop.simps sys_close_def fun_upd_idem)
  qed
qed

lemma loop_inv_eventfd:
  assumes inv: "loop_inv Waiting s" and order: "set order = dom (srv_connections s)"
  shows "loop_inv (Scanning order []) (read_eventfd s)"
proof -
  let ?s = "read_eventfd s"
  have s': "srv_connections ?s = srv_connections s" "srv_interest ?s = srv_interest s" "srv_open ?s = srv_open s" "srv_tasks ?s = srv_tasks s"
    "srv_heap ?s = map (\<lambda>c. c\<lparr>cio_event_fd := 0\<rparr>) (srv_heap s)"
    by (simp_all add: read_eventfd_def)
  have "kernel_ok ?s" "store_ok ?s"
    using loop_invD(1,2) [OF inv] by (simp_all add: kernel_ok_def store_ok_def io_unique_def referenced_def s')
  moreover have "ctx_ok (Scanning order []) f c2 (srv_heap ?s)" if c2: "srv_connections s f = Some c2" for f c2
  proof (cases "ctx_conn_io c2")
    case None
    then show ?thesis using loop_invD(3) [OF inv c2] by (simp add: ctx_ok_def)
  next
    case (Some i)
    have "f \<in> set order" using c2 order by auto
    with active_io [OF inv c2 Some] Some show ?thesis
      by (simp add: ctx_ok_def io_ok_def s' write_wf_def needsMoreBody_def)
  qed
  ultimately show ?thesis by (simp add: loop_inv_def s')
qed

text \<open>A request begins: its object is new in the store.\<close>

lemma loop_inv_start:
  assumes inv: "loop_inv pc s" and ctx: "srv_connections s fd = Some ctx" "ctx_conn_io ctx = None"
    and ctx': "ctx_conn_io ctx' = Some (length (srv_heap s))" "ctx_state ctx' = Active" "ctx_epoll_events ctx' \<subseteq> {EPOLLIN, EPOLLOUT}"
      "io_ok pc fd ctx' c"
    and s': "srv_connections s' = (srv_connections s)(fd \<mapsto> ctx')" "srv_heap s' = srv_heap s @ [c]"
      "srv_interest s' = (srv_interest s)(fd := reg ctx')" "srv_open s' = srv_open s"
      "srv_tasks s' = srv_tasks s @ [length (srv_heap s)]"
  shows "loop_inv pc s'"
proof -
  have old: "ctx_conn_io c2 = Some i \<longrightarrow> i < length (srv_heap s)" if "srv_connections s f = Some c2" for f c2 i
    using active_io(2) [OF inv that] by blast
  have "kernel_ok s'" using loop_invD(1) [OF inv] s' ctx by (auto simp: kernel_ok_def)
  moreover have "store_ok s'"
  proof -
    have "referenced s' j" if r: "referenced s j" for j
    proof -
      from r obtain f c where c: "srv_connections s f = Some c" "ctx_conn_io c = Some j" by (auto simp: referenced_def)
      then have "f \<noteq> fd" using ctx by auto
      then show ?thesis using c s'(1) by (intro referencedI [of _ f c]) simp_all
    qed
    moreover have "referenced s' (length (srv_heap s))" by (rule referencedI [of _ fd ctx']) (simp_all add: s' ctx')
    moreover have "io_unique s'" using loop_invD(2) [OF inv] ctx'(1) old
      unfolding store_ok_def io_unique_def s' by (auto split: if_splits)
    ultimately show ?thesis using loop_invD(2) [OF inv] s'(2,5) by (auto simp: store_ok_def nth_append less_Suc_eq)
  qed
  moreover have "ctx_ok pc f c2 (srv_heap s')" if f: "srv_connections s' f = Some c2" for f c2
  proof (cases "f = fd")
    case True
    then show ?thesis using f s' ctx' by (simp add: ctx_ok_def)
  next
    case False
    then have c2: "srv_connections s f = Some c2" using f s' by simp
    show ?thesis
      by (rule ctx_ok_other [OF loop_invD(3) [OF inv c2] pc_moves_refl False]) (use old [OF c2] in \<open>auto simp: s' nth_append\<close>)
  qed
  ultimately show ?thesis by (simp add: loop_inv_def)
qed

lemma set_ctx_fields [simp]:
  "srv_connections (set_ctx fd ctx s) = (srv_connections s)(fd \<mapsto> ctx)" "srv_heap (set_ctx fd ctx s) = srv_heap s"
  "srv_interest (set_ctx fd ctx s) = srv_interest s" "srv_open (set_ctx fd ctx s) = srv_open s" "srv_tasks (set_ctx fd ctx s) = srv_tasks s"
  by (simp_all add: set_ctx_def)

text \<open>The end of the body: the object is fed for the last time and \<open>EPOLLIN\<close> leaves the registration.\<close>

lemma loop_inv_body_end:
  assumes inv: "loop_inv Waiting s" and ctx: "srv_connections s fd = Some ctx" "ctx_conn_io ctx = Some i"
    and c': "\<not> needsMoreBody (f (srv_heap s ! i))"
    and same: "\<And>c. cio_write_error (f c) = cio_write_error c \<and> write_wf (f c) = write_wf c \<and> isWritePending (f c) = isWritePending c \<and>
      isFinished (f c) = isFinished c \<and> cio_event_fd (f c) = cio_event_fd c"
  shows "loop_inv Waiting (update_epoll fd (ctx_epoll_events ctx - {EPOLLIN}) (set_ctx fd (ctx\<lparr>ctx_body_complete := True\<rparr>) (on_io i f s)))"
proof -
  let ?s = "set_ctx fd (ctx\<lparr>ctx_body_complete := True\<rparr>) (on_io i f s)"
  let ?ctx = "ctx\<lparr>ctx_body_complete := True, ctx_epoll_events := ctx_epoll_events ctx - {EPOLLIN}\<rparr>"
  note a = active_io [OF inv ctx]
  have r: "srv_interest ?s fd = reg (ctx\<lparr>ctx_body_complete := True\<rparr>)" using interest_reg [OF inv ctx(1)] by (simp add: reg_def)
  have "srv_connections ?s fd = Some (ctx\<lparr>ctx_body_complete := True\<rparr>)" by simp
  note u = update_epoll_fields [OF r this]
  have "io_ok Waiting fd ?ctx (f (srv_heap s ! i))"
    using a(3) c' same [of "srv_heap s ! i"] by (simp add: io_ok_def conn_hasError_def)
  then show ?thesis using a(1,4)
    by (intro loop_inv_active [where ctx' = ?ctx, OF inv ctx]) (auto simp: u ctx)
qed

lemma feedBody_same:
  "cio_write_error (feedBody d e c) = cio_write_error c" "write_wf (feedBody d e c) = write_wf c"
  "isWritePending (feedBody d e c) = isWritePending c" "isFinished (feedBody d e c) = isFinished c"
  "cio_event_fd (feedBody d e c) = cio_event_fd c" "conn_hasError (feedBody d e c) = conn_hasError c"
  by (auto simp: feedBody_def Let_def isWritePending_def isFinished_def conn_hasError_def)

lemma feedBody_eof: "\<not> needsMoreBody (feedBody d True c)"
  by (simp add: needsMoreBody_def feedBody_def Let_def)

lemma loop_inv_recv_eof:
  assumes inv: "loop_inv Waiting s" and ctx: "srv_connections s fd = Some ctx"
  shows "loop_inv Waiting (recv_eof fd ctx s)"
proof (cases "ctx_conn_io ctx")
  case None
  then have "ctx_state ctx = ReadingHeaders" using loop_invD(3) [OF inv ctx] by (simp add: ctx_ok_def reading_ok_def)
  then show ?thesis using loop_inv_drop [OF inv] by (simp add: recv_eof_def)
next
  case (Some i)
  note a = active_io [OF inv ctx Some]
  show ?thesis
  proof (cases "ctx_body_complete ctx")
    case True
    have "loop_inv Waiting (update_epoll fd (ctx_epoll_events ctx - {EPOLLIN}) (set_ctx fd (ctx\<lparr>ctx_body_complete := True\<rparr>) (on_io i (\<lambda>c. c) s)))"
      by (rule loop_inv_body_end [OF inv ctx Some]) (use a True in \<open>auto simp: io_ok_def\<close>)
    then show ?thesis using True a(1) Some by (simp add: recv_eof_def on_io_def)
  next
    case False
    have "loop_inv Waiting (update_epoll fd (ctx_epoll_events ctx - {EPOLLIN}) (set_ctx fd (ctx\<lparr>ctx_body_complete := True\<rparr>) (on_io i (feedBody [] True) s)))"
      by (rule loop_inv_body_end [OF inv ctx Some]) (simp_all add: feedBody_same feedBody_eof)
    then show ?thesis using False a(1) Some by (simp add: recv_eof_def)
  qed
qed

lemma loop_inv_recv_body:
  assumes inv: "loop_inv Waiting s" and ctx: "srv_connections s fd = Some ctx" "ctx_conn_io ctx = Some i" "\<not> ctx_body_complete ctx"
  shows "loop_inv Waiting (recv_body fd ctx i data s)"
proof -
  note a = active_io [OF inv ctx(1,2)]
  let ?c = "srv_heap s ! i"
  define remaining where "remaining = (if cio_content_length ?c > bodyBytesReceived ?c then cio_content_length ?c - bodyBytesReceived ?c else 0)"
  define feed where "feed = feedBody (take (min (length data) remaining) data) (min (length data) remaining \<ge> remaining)"
  show ?thesis
  proof (cases "min (length data) remaining \<ge> remaining")
    case True
    have "loop_inv Waiting (update_epoll fd (ctx_epoll_events ctx - {EPOLLIN}) (set_ctx fd (ctx\<lparr>ctx_body_complete := True\<rparr>) (on_io i feed s)))"
      by (rule loop_inv_body_end [OF inv ctx(1,2)]) (use True in \<open>simp_all add: feed_def feedBody_same feedBody_eof del: min_less_iff_conj min.bounded_iff\<close>)
    then show ?thesis using True by (simp add: recv_body_def Let_def feed_def remaining_def)
  next
    case False
    have "loop_inv Waiting (on_io i feed s)"
      by (rule loop_inv_io [OF inv ctx(1,2)]) (use a(3) ctx(3) in \<open>auto simp: io_ok_def feed_def feedBody_same\<close>)
    then show ?thesis using False by (simp add: recv_body_def Let_def feed_def remaining_def)
  qed
qed

lemma heap_upd_tasks: "srv_tasks (s\<lparr>srv_heap := x\<rparr>) = srv_tasks s"
  by simp

lemma loop_inv_start_request:
  assumes inv: "loop_inv Waiting s" and ctx: "srv_connections s fd = Some ctx" "ctx_conn_io ctx = None"
  shows "loop_inv Waiting (start_request fd ctx hdr_end buf s)"
proof -
  define i where "i = length (srv_heap s)"
  define n where "n = extract_content_length (take hdr_end buf)"
  define c where "c = setHeaderData (take hdr_end buf) (drop hdr_end buf) n new_connection"
  define complete where "complete = (n = 0 \<or> bodyBytesReceived c \<ge> n)"
  let ?ctx = "ctx\<lparr>ctx_state := Active, ctx_header_buf := [], ctx_conn_io := Some i, ctx_body_complete := complete\<rparr>"
  define es where "es = (if complete then {} else {EPOLLIN})"
  let ?ctx' = "?ctx\<lparr>ctx_epoll_events := es\<rparr>"
  let ?s = "set_ctx fd ?ctx (s\<lparr>srv_heap := srv_heap s @ [c]\<rparr>)"
  have ev: "ctx_epoll_events ctx = {EPOLLIN}" using loop_invD(3) [OF inv ctx(1)] ctx(2) by (simp add: ctx_ok_def reading_ok_def)
  then have r: "srv_interest ?s fd = reg ?ctx" using interest_reg [OF inv ctx(1)] by (simp add: reg_def)
  have s: "srv_connections ?s fd = Some ?ctx" by simp
  note u = update_epoll_fields [OF r s, of "{}"]
  have c: "\<not> cio_write_error c" "write_wf c" "\<not> isWritePending c" "\<not> isFinished c" "\<not> conn_hasError c"
    "cio_body_bytes_fed c = bodyBytesReceived c" "cio_content_length c = n"
    by (simp_all add: c_def setHeaderData_def new_connection_def write_wf_def isWritePending_def isFinished_def conn_hasError_def
        bodyBytesReceived_def Let_def)
  have io: "io_ok Waiting fd ?ctx' c" using c by (auto simp: io_ok_def needsMoreBody_def complete_def es_def)
  have "start_request fd ctx hdr_end buf s =
    (let s = (if complete then update_epoll fd {} ?s else ?s) in s\<lparr>srv_tasks := srv_tasks s @ [i]\<rparr>)"
    unfolding start_request_def Let_def n_def [symmetric] c_def [symmetric] complete_def [symmetric] i_def [symmetric] ..
  then have eq: "start_request fd ctx hdr_end buf s = (if complete then update_epoll fd {} ?s else ?s)\<lparr>srv_tasks := srv_tasks s @ [i]\<rparr>"
    by (simp only: Let_def if_distrib [of srv_tasks] u(5) set_ctx_fields if_cancel Server.select_convs heap_upd_tasks)
  show ?thesis
  proof (cases complete)
    case True
    have e: "start_request fd ctx hdr_end buf s = (update_epoll fd {} ?s)\<lparr>srv_tasks := srv_tasks s @ [i]\<rparr>"
      unfolding eq if_P [OF True] ..
    have "es = {}" using True by (simp add: es_def)
    then show ?thesis by (intro loop_inv_start [OF inv ctx _ _ _ io]) (simp_all add: e u i_def [symmetric])
  next
    case False
    have e: "start_request fd ctx hdr_end buf s = ?s\<lparr>srv_tasks := srv_tasks s @ [i]\<rparr>"
      unfolding eq if_not_P [OF False] ..
    have "es = ctx_epoll_events ctx" using False ev by (simp add: es_def)
    then have same: "?ctx' = ?ctx" by simp
    have "srv_interest (start_request fd ctx hdr_end buf s) = (srv_interest s)(fd := reg ?ctx)"
      unfolding e using r by (auto simp: fun_eq_iff)
    then show ?thesis using ev io unfolding same by (intro loop_inv_start [OF inv ctx]) (simp_all add: e i_def [symmetric])
  qed
qed

lemma loop_inv_incoming:
  assumes inv: "loop_inv Waiting s"
  shows "loop_inv Waiting (handle_in fd r s)"
proof (cases "srv_connections s fd")
  case None
  then show ?thesis using inv by (simp add: handle_in_def)
next
  case (Some ctx)
  note drop = loop_inv_drop [OF inv pc_moves_refl]
  have headers: "loop_inv Waiting (recv_headers fd ctx data s)" if io: "ctx_conn_io ctx = None" for data
  proof -
    have ok: "reading_ok ctx" using loop_invD(3) [OF inv Some] io by (simp add: ctx_ok_def)
    let ?buf = "ctx_header_buf ctx @ data" and ?ctx = "ctx\<lparr>ctx_header_buf := ctx_header_buf ctx @ data\<rparr>"
    consider (large) "length ?buf > MAX_HEADER_SIZE" | (more) "length ?buf \<le> MAX_HEADER_SIZE" "find_str CRLFCRLF ?buf = None"
      | (whole) k where "length ?buf \<le> MAX_HEADER_SIZE" "find_str CRLFCRLF ?buf = Some k"
      by (cases "find_str CRLFCRLF ?buf") fastforce+
    then show ?thesis
    proof cases
      case large
      have "loop_inv Waiting (sys_send fd too_large_response s)" by (rule loop_inv_cong [OF inv]) simp_all
      from loop_inv_drop [OF this pc_moves_refl] large show ?thesis by (simp add: recv_headers_def)
    next
      case more
      have "reading_ok ?ctx" using ok more by (simp add: reading_ok_def)
      then have "loop_inv Waiting (set_ctx fd ?ctx s)"
        using Some io interest_reg [OF inv Some] loop_invD(1) [OF inv]
        by (intro loop_inv_reading [OF inv, of fd ?ctx]) (auto simp: reg_def kernel_ok_def fun_upd_idem)
      then show ?thesis using more by (simp add: recv_headers_def)
    next
      case whole
      then show ?thesis using loop_inv_start_request [OF inv Some io] by (simp add: recv_headers_def)
    qed
  qed
  show ?thesis
  proof (cases "ctx_conn_io ctx")
    case None
    then have "ctx_state ctx = ReadingHeaders" using loop_invD(3) [OF inv Some] by (simp add: ctx_ok_def reading_ok_def)
    then show ?thesis using Some inv drop loop_inv_recv_eof [OF inv Some] headers [OF None]
      by (simp add: handle_in_def split: recv_result.split)
  next
    case io: (Some i)
    then show ?thesis using Some inv drop loop_inv_recv_eof [OF inv Some] loop_inv_recv_body [OF inv Some io] active_io(1) [OF inv Some io]
      by (simp add: handle_in_def split: recv_result.split)
  qed
qed

lemma advanceWrite_same:
  assumes "write_wf c" "pendingWriteData c \<noteq> []"
  shows "write_wf (advanceWrite n c)" "isWritePending (advanceWrite n c) \<Longrightarrow> isWritePending c"
    "isFinished (advanceWrite n c) \<Longrightarrow> isWritePending c" "needsMoreBody (advanceWrite n c) = needsMoreBody c"
    "cio_write_error (advanceWrite n c) = cio_write_error c" "cio_event_fd (advanceWrite n c) = cio_event_fd c"
  using assms by (auto simp: conn_defs isWritePending_def isFinished_def needsMoreBody_def split: if_splits)

lemma loop_inv_outgoing:
  assumes inv: "loop_inv Waiting s" and out: "out_send fd w s = (k, s')"
  shows "loop_inv (after_out fd k) s'"
proof (cases "\<exists>ctx i. srv_connections s fd = Some ctx \<and> ctx_conn_io ctx = Some i")
  case False
  then show ?thesis using inv out by (auto simp: out_send_def split: option.splits)
next
  case True
  then obtain ctx i where ctx: "srv_connections s fd = Some ctx" "ctx_conn_io ctx = Some i" by blast
  note a = active_io [OF inv ctx]
  let ?c = "srv_heap s ! i"
  have pc: "pc_moves fd Waiting (OutDone fd)" "pc_moves fd Waiting (OutCheck fd)" by (auto simp: pc_moves_def)
  show ?thesis
  proof (cases "pendingWriteData ?c = []")
    case True
    then have eq: "k = OutIdle" "s' = s" using out ctx by (auto simp: out_send_def)
    have "isWritePending ?c \<longrightarrow> signalled ?c"
      using a(3) True by (auto simp: io_ok_def pendingWriteData_def write_wf_def isWritePending_def conn_hasError_def split: if_splits)
    then have "io_ok (OutDone fd) fd ctx ?c" using a(3) by (auto simp: io_ok_def)
    then have "loop_inv (OutDone fd) (on_io i (\<lambda>c. c) s)" by (intro loop_inv_io [OF inv ctx _ pc(1)]) simp
    then show ?thesis by (simp add: eq on_io_def)
  next
    case False
    show ?thesis
    proof (cases w)
      case SendError
      have "k = OutEnd" "s' = drop_conn fd (on_io i writeError s)" using out ctx False SendError by (auto simp: out_send_def)
      moreover have "drop_conn fd (on_io i writeError s) = drop_conn fd s"
        using ctx a(2) by (simp add: drop_conn_def close_conn_def on_io_def erase_conn_def sys_close_def set_ctx_def Let_def writeError_def feedError_def)
      ultimately show ?thesis using loop_inv_drop [OF inv pc_moves_refl] by simp
    next
      case SendAgain
      then show ?thesis using out ctx False inv by (auto simp: out_send_def)
    next
      case (SendSome n)
      then have eq: "k = OutSent" "s' = on_io i (advanceWrite n) (sys_send fd (take n (pendingWriteData ?c)) s)"
        using out ctx False by (auto simp: out_send_def Let_def)
      let ?s = "sys_send fd (take n (pendingWriteData ?c)) s"
      have inv': "loop_inv Waiting ?s" by (rule loop_inv_cong [OF inv]) simp_all
      have "io_ok (OutCheck fd) fd ctx (advanceWrite n ?c)"
      proof (cases "cio_write_error ?c")
        case True
        then have "signalled ?c" using a(3) by (simp add: io_ok_def conn_hasError_def)
        then show ?thesis using a(3) True
          by (auto simp: io_ok_def conn_hasError_def advanceWrite_def needsMoreBody_def Let_def)
      next
        case F: False
        then have wf: "write_wf ?c" using a(3) by (simp add: io_ok_def)
        note adv = advanceWrite_same [OF wf False, of n]
        show ?thesis using a(3) adv F by (auto simp: io_ok_def conn_hasError_def)
      qed
      then show ?thesis unfolding eq after_out.simps
        by (intro loop_inv_io [OF inv', of fd ctx]) (simp_all add: ctx pc)
    qed
  qed
qed

lemma loop_inv_out_check:
  assumes inv: "loop_inv (OutCheck fd) s"
  shows "loop_inv (after_out fd (out_pending fd s)) s"
proof (cases "out_pending fd s = OutIdle")
  case False
  then have "after_out fd (out_pending fd s) = Waiting" by (auto simp: out_pending_def split: option.splits if_splits)
  then show ?thesis using loop_inv_pc [OF inv, of Waiting] by simp
next
  case True
  then obtain ctx i where ctx: "srv_connections s fd = Some ctx" "ctx_conn_io ctx = Some i" and np: "\<not> isWritePending (srv_heap s ! i)"
    by (auto simp: out_pending_def split: option.splits if_splits)
  have "loop_inv (OutDone fd) (on_io i (\<lambda>c. c) s)"
    by (rule loop_inv_io [OF inv ctx]) (use np active_io(3) [OF inv ctx] in \<open>auto simp: io_ok_def pc_moves_def\<close>)
  then show ?thesis using True by (simp add: on_io_def)
qed

lemma loop_inv_out_done:
  assumes inv: "loop_inv (OutDone fd) s"
  shows "loop_inv Waiting (out_idle fd s)"
proof (cases "\<exists>ctx i. srv_connections s fd = Some ctx \<and> ctx_conn_io ctx = Some i")
  case False
  then have "out_idle fd s = s" by (auto simp: out_idle_def split: option.splits)
  then show ?thesis using loop_inv_pc [OF inv, of Waiting] by simp
next
  case True
  then obtain ctx i where ctx: "srv_connections s fd = Some ctx" "ctx_conn_io ctx = Some i" by blast
  have pc: "pc_moves fd (OutDone fd) Waiting" by (auto simp: pc_moves_def)
  show ?thesis
  proof (cases "isFinished (srv_heap s ! i)")
    case True
    then show ?thesis using ctx loop_inv_drop [OF inv pc] by (simp add: out_idle_def)
  next
    case False
    let ?es = "if ctx_body_complete ctx then {} else {EPOLLIN}"
    have "loop_inv Waiting (update_epoll fd ?es s)"
      by (rule loop_inv_update_epoll [OF inv ctx _ _ pc]) (use False active_io(3) [OF inv ctx] in \<open>auto simp: io_ok_def\<close>)
    then show ?thesis using ctx False by (simp add: out_idle_def)
  qed
qed

lemma loop_inv_step: "loop_inv pc s \<Longrightarrow> loop_step (pc, s) (pc', s') \<Longrightarrow> loop_inv pc' s'"
  by (erule loop_stepE) (auto intro: loop_inv_worker loop_inv_accept loop_inv_eventfd loop_inv_scan loop_inv_close_all
      loop_inv_drop [OF _ pc_moves_refl] loop_inv_incoming loop_inv_outgoing loop_inv_out_check loop_inv_out_done)

lemma reachable_loop_inv: "loop_reachable x \<Longrightarrow> loop_inv (fst x) (snd x)"
proof (induction rule: loop_reachable.induct)
  case start
  show ?case by (simp add: loop_inv_def kernel_ok_def store_ok_def io_unique_def start_server_def)
next
  case (step x y)
  obtain pc s pc' s' where "x = (pc, s)" "y = (pc', s')" by (metis prod.exhaust)
  with step show ?case using loop_inv_step by simp
qed

subsection \<open>Properties of the event loop\<close>

text \<open>
  C12. The loop's bookkeeping agrees with the kernel in every reachable state, between any two
  steps: the open client sockets are exactly the connections of the map (no descriptor leaks
  and none is closed twice), the events recorded for a connection are those it is registered
  with, every request in the store was submitted exactly once, and no two connections share
  an object.
\<close>
theorem event_loop_bookkeeping:
  assumes "loop_reachable (pc, s)"
  shows "srv_open s = dom (srv_connections s) \<and>
    (\<forall>fd. srv_interest s fd = (case srv_connections s fd of
        None \<Rightarrow> None
      | Some ctx \<Rightarrow> if ctx_epoll_events ctx = {} then None else Some (ctx_epoll_events ctx))) \<and>
    srv_tasks s = [0..<length (srv_heap s)] \<and>
    (\<forall>fd fd' ctx ctx' i. srv_connections s fd = Some ctx \<and> srv_connections s fd' = Some ctx' \<and>
       ctx_conn_io ctx = Some i \<and> ctx_conn_io ctx' = Some i \<longrightarrow> fd = fd')"
proof -
  have inv: "loop_inv pc s" using reachable_loop_inv [OF assms] by simp
  from loop_invD(1) [OF this] loop_invD(2) [OF this] show ?thesis
    unfolding kernel_ok_def store_ok_def io_unique_def reg_def by blast
qed

text \<open>A run: a connection is accepted, a request that announces twelve body bytes arrives, and the worker writes a byte.\<close>

definition sample_request :: str where
  "sample_request = request_text (ascii ''GET'') (ascii ''/'') (ascii ''HTTP/1.1'') sample_headers"

definition sample_io :: ConnectionIO where
  "sample_io = setHeaderData sample_request [] 12 new_connection"

definition sample_started :: Server where
  "sample_started = handle_in 5 (RecvData sample_request) (accept_loop [(5, True)] start_server)"

definition sample_written :: Server where
  "sample_written = on_io 0 (\<lambda>_. signal_eventfd (sample_io\<lparr>cio_write_buffer := [1], cio_write_cursor := 0, cio_write_pending := True\<rparr>)) sample_started"

lemma sample_request_facts:
  "find_str CRLFCRLF sample_request = Some (length sample_request - 4)" "extract_content_length sample_request = 12"
  "4 \<le> length sample_request" "length sample_request \<le> MAX_HEADER_SIZE"
proof -
  show "find_str CRLFCRLF sample_request = Some (length sample_request - 4)"
    using find_request_end [OF sample_request_ok, of "[]"] by (simp add: sample_request_def)
  have "declared_length sample_headers = 12"
    by (simp add: header_name_eq_def ascii_def of_char_def tolower_def is_digit_def decimal_def)
  then show "extract_content_length sample_request = 12" using extract_request [OF sample_request_ok] by (simp add: sample_request_def)
  show "4 \<le> length sample_request" "length sample_request \<le> MAX_HEADER_SIZE"
    by (simp_all add: sample_request_def request_text_def header_block_def header_line_def ascii_def MAX_HEADER_SIZE_def)
qed

lemma sample_started_eq:
  "srv_connections sample_started = [5 \<mapsto> new_ctx\<lparr>ctx_state := Active, ctx_conn_io := Some 0\<rparr>]"
  "srv_heap sample_started = [sample_io]" "srv_interest sample_started = [5 \<mapsto> {EPOLLIN}]"
proof -
  have "sample_request \<noteq> []" using sample_request_facts(3) by auto
  moreover have "bodyBytesReceived (setHeaderData sample_request [] 12 new_connection) = 0"
    by (simp add: bodyBytesReceived_def setHeaderData_def)
  ultimately have eq: "sample_started = (accept_loop [(5, True)] start_server)
    \<lparr>srv_connections := [5 \<mapsto> new_ctx\<lparr>ctx_state := Active, ctx_conn_io := Some 0\<rparr>], srv_heap := [sample_io], srv_tasks := [0]\<rparr>"
    using sample_request_facts
    by (simp add: sample_started_def handle_in_def recv_headers_def start_request_def accept_loop.simps start_server_def set_ctx_def
        new_ctx_def sample_io_def Let_def)
  show "srv_connections sample_started = [5 \<mapsto> new_ctx\<lparr>ctx_state := Active, ctx_conn_io := Some 0\<rparr>]"
    "srv_heap sample_started = [sample_io]" "srv_interest sample_started = [5 \<mapsto> {EPOLLIN}]"
    unfolding eq by (simp_all add: accept_loop.simps start_server_def set_ctx_def)
qed

lemma sample_reachable: "loop_reachable (Waiting, sample_started)" "loop_reachable (Waiting, sample_written)"
proof -
  have "loop_step (Waiting, start_server) (Waiting, accept_loop [(5, True)] start_server)"
    by (rule loop_step.accept) (simp add: start_server_def)
  with loop_reachable.start loop_reachable.step have "loop_reachable (Waiting, accept_loop [(5, True)] start_server)" by blast
  moreover have "loop_step (Waiting, accept_loop [(5, True)] start_server) (Waiting, sample_started)"
    unfolding sample_started_def by (rule loop_step.incoming)
  ultimately show 1: "loop_reachable (Waiting, sample_started)" by (rule loop_reachable.step)
  have "writeData [1] sample_io = Some (signal_eventfd (sample_io\<lparr>cio_write_buffer := [1], cio_write_cursor := 0, cio_write_pending := True\<rparr>))"
    by (simp add: writeData_def sample_io_def setHeaderData_def new_connection_def Let_def)
  then have "loop_step (Waiting, sample_started) (Waiting, sample_written)"
    unfolding sample_written_def by (intro loop_step.worker op_write) (simp_all add: sample_started_eq)
  with 1 show "loop_reachable (Waiting, sample_written)" by (rule loop_reachable.step)
qed

theorem event_loop_bookkeeping_witness:
  "loop_reachable (Waiting, sample_started) \<and> srv_interest sample_started 5 = Some {EPOLLIN} \<and>
    srv_tasks sample_started = [0..<length (srv_heap sample_started)] \<and> length (srv_heap sample_started) = 1"
  using event_loop_bookkeeping [OF sample_reachable(1)] sample_reachable(1) by (simp add: sample_started_eq)

text \<open>
  C11. No wake-up is lost, in any interleaving of the loop with its workers. When the loop waits
  for events and a worker with object \<open>i\<close> is blocked in \<open>writeData\<close>, or has finished, the
  eventfd is readable or the connection is registered for \<open>EPOLLOUT\<close>; when it has set an error
  the eventfd is readable; when it is blocked in \<open>readBodyChunk\<close> the connection is registered
  for \<open>EPOLLIN\<close>. A worker whose connection is gone never blocks.
\<close>
theorem no_lost_wakeup:
  assumes "loop_reachable (Waiting, s)" "i < length (srv_heap s)"
  shows "if referenced s i
    then \<exists>fd ctx es. srv_connections s fd = Some ctx \<and> ctx_conn_io ctx = Some i \<and>
        (srv_interest s fd = Some es \<or> srv_interest s fd = None \<and> es = {}) \<and>
        (writeData d (srv_heap s ! i) = None \<or> isFinished (srv_heap s ! i) \<longrightarrow> signalled (srv_heap s ! i) \<or> EPOLLOUT \<in> es) \<and>
        (conn_hasError (srv_heap s ! i) \<longrightarrow> signalled (srv_heap s ! i)) \<and>
        (readBodyChunk m (srv_heap s ! i) = None \<longrightarrow> EPOLLIN \<in> es)
    else writeData d (srv_heap s ! i) \<noteq> None \<and> readBodyChunk m (srv_heap s ! i) \<noteq> None"
proof (cases "referenced s i")
  case False
  have "loop_inv Waiting s" using reachable_loop_inv [OF assms(1)] by simp
  then have "cio_read_error (srv_heap s ! i) \<and> cio_write_error (srv_heap s ! i)"
    using loop_invD(2) assms(2) False by (auto simp: store_ok_def)
  then show ?thesis using False
    by (auto simp: writeData_def readBodyChunk_def read_ready_def split: if_splits prod.splits)
next
  case True
  have inv: "loop_inv Waiting s" using reachable_loop_inv [OF assms(1)] by simp
  obtain fd ctx where ctx: "srv_connections s fd = Some ctx" "ctx_conn_io ctx = Some i" using True by (auto simp: referenced_def)
  let ?c = "srv_heap s ! i" and ?es = "ctx_epoll_events ctx"
  note ok = active_io(3) [OF inv ctx]
  have "srv_interest s fd = Some ?es \<or> srv_interest s fd = None \<and> ?es = {}"
    using interest_reg [OF inv ctx(1)] by (simp add: reg_def)
  moreover have "isWritePending ?c" if "writeData d ?c = None"
    using that ok by (auto simp: io_ok_def writeData_def write_wf_def isWritePending_def split: if_splits)
  then have "writeData d ?c = None \<or> isFinished ?c \<longrightarrow> signalled ?c \<or> EPOLLOUT \<in> ?es"
    using ok by (auto simp: io_ok_def)
  moreover have "EPOLLIN \<in> ?es" if "readBodyChunk m ?c = None"
  proof -
    have "needsMoreBody ?c" using that by (auto simp: readBodyChunk_def read_ready_def needsMoreBody_def bodyCompleteLocked_def split: if_splits prod.splits)
    then show ?thesis using ok by (simp add: io_ok_def)
  qed
  moreover have "conn_hasError ?c \<longrightarrow> signalled ?c" using ok by (simp add: io_ok_def)
  ultimately show ?thesis unfolding if_P [OF True] using ctx by (intro exI [of _ fd] exI [of _ ctx] exI [of _ ?es]) blast
qed

theorem no_lost_wakeup_witness:
  "loop_reachable (Waiting, sample_written) \<and> referenced sample_written 0 \<and> writeData [2] (srv_heap sample_written ! 0) = None \<and>
    (\<exists>fd ctx es. srv_connections sample_written fd = Some ctx \<and> ctx_conn_io ctx = Some 0 \<and> signalled (srv_heap sample_written ! 0))"
proof -
  have conns: "srv_connections sample_written = [5 \<mapsto> new_ctx\<lparr>ctx_state := Active, ctx_conn_io := Some 0\<rparr>]"
    "srv_heap sample_written = [signal_eventfd (sample_io\<lparr>cio_write_buffer := [1], cio_write_cursor := 0, cio_write_pending := True\<rparr>)]"
    "srv_interest sample_written = [5 \<mapsto> {EPOLLIN}]"
    by (simp_all add: sample_written_def sample_started_eq)
  have r: "referenced sample_written 0" by (rule referencedI [of _ 5 "new_ctx\<lparr>ctx_state := Active, ctx_conn_io := Some 0\<rparr>"]) (simp_all add: conns)
  have b: "writeData [2] (srv_heap sample_written ! 0) = None"
    by (simp add: conns writeData_def signal_eventfd_def sample_io_def setHeaderData_def new_connection_def Let_def)
  have "0 < length (srv_heap sample_written)" by (simp add: conns)
  from no_lost_wakeup [OF sample_reachable(2) this, of "[2]" 1] r b
  show ?thesis using sample_reachable(2) by (auto simp: conns split: if_splits)
qed

subsection \<open>Reception of a request\<close>

lemma find_str_bound: "find_str pat xs = Some k \<Longrightarrow> k + length pat \<le> length xs"
proof (induction xs arbitrary: k)
  case (Cons x xs)
  show ?case
  proof (cases "take (length pat) (x # xs) = pat")
    case True
    then have "length pat \<le> length (x # xs)" by (metis length_take min.cobounded1)
    then show ?thesis using True Cons.prems by simp
  next
    case False
    then show ?thesis using Cons by auto
  qed
qed (simp split: if_splits)

lemma find_str_append: "find_str pat xs = Some k \<Longrightarrow> find_str pat (xs @ ys) = Some k"
proof (induction xs arbitrary: k)
  case Nil
  then show ?case by (cases ys) (auto split: if_splits)
next
  case (Cons x xs)
  have "length pat \<le> length (x # xs)" using find_str_bound [OF Cons.prems] by simp
  then have "take (length pat) (x # xs @ ys) = take (length pat) (x # xs)"
    using take_append [of "length pat" "x # xs" ys] by simp
  then show ?case using Cons by (auto split: if_splits)
qed

lemma request_incomplete:
  assumes "request_ok m p v hs" "request_text m p v hs @ body = xs @ ys" "length xs < length (request_text m p v hs)"
  shows "find_str CRLFCRLF xs = None"
proof (rule ccontr)
  assume "find_str CRLFCRLF xs \<noteq> None"
  then obtain k where k: "find_str CRLFCRLF xs = Some k" by auto
  have "find_str CRLFCRLF (xs @ ys) = Some (length (request_text m p v hs) - 4)"
    using find_request_end [OF assms(1), of body] assms(2) by simp
  then have "k = length (request_text m p v hs) - 4" using find_str_append [OF k, of ys] by simp
  then show False using find_str_bound [OF k] assms(3) by simp
qed

text \<open>The bytes of a request arrive in pieces; the connection keeps reading until the last one.\<close>

definition recv_all :: "int \<Rightarrow> str list \<Rightarrow> Server \<Rightarrow> Server" where
  "recv_all fd ds s = fold (\<lambda>d. handle_in fd (RecvData d)) ds s"

lemma new_ctx_state: "ctx_state (new_ctx\<lparr>ctx_header_buf := b\<rparr>) = ReadingHeaders"
  by (simp add: new_ctx_def)

lemma recv_partial:
  assumes ok: "request_ok m p v hs" and "request_text m p v hs @ body = concat ds @ ys"
    "length (concat ds) < length (request_text m p v hs)" "length (concat ds) \<le> MAX_HEADER_SIZE" "[] \<notin> set ds"
    and ctx: "srv_connections s fd = Some new_ctx"
  shows "recv_all fd ds s = set_ctx fd (new_ctx\<lparr>ctx_header_buf := concat ds\<rparr>) s"
  using assms(2-5)
proof (induction ds arbitrary: ys rule: rev_induct)
  case Nil
  then show ?case using ctx by (simp add: recv_all_def set_ctx_def new_ctx_def fun_upd_idem)
next
  case (snoc d ds)
  have IH: "recv_all fd ds s = set_ctx fd (new_ctx\<lparr>ctx_header_buf := concat ds\<rparr>) s"
    using snoc.prems by (intro snoc.IH [of "d @ ys"]) auto
  have "find_str CRLFCRLF (concat ds @ d) = None"
    using snoc.prems by (intro request_incomplete [OF ok, of body _ ys]) auto
  moreover have "recv_all fd (ds @ [d]) s = handle_in fd (RecvData d) (recv_all fd ds s)" by (simp add: recv_all_def)
  moreover have "d \<noteq> []" using snoc.prems by auto
  ultimately show ?case using snoc.prems(3) IH
    by (simp add: handle_in_def recv_headers_def new_ctx_state) (simp add: set_ctx_def)
qed



text \<open>
  The limit is compared with all bytes received, those of the body included: a request whose
  header block is short is refused when its last piece brings enough body bytes along.
\<close>

lemma header_limit_counts_body:
  assumes "srv_connections s fd = Some ctx" "ctx_state ctx = ReadingHeaders" "data \<noteq> []"
    "MAX_HEADER_SIZE < length (ctx_header_buf ctx @ data)"
  shows "handle_in fd (RecvData data) s = drop_conn fd (sys_send fd too_large_response s)"
  using assms by (simp add: handle_in_def recv_headers_def)

end
