(* ===== verification/Thread_Pool.thy ===== *)
theory Thread_Pool
  imports Lsw_Prelude "HOL-Library.Multiset"
begin

text \<open>
  thread_pool.h: a fixed set of workers that take tasks from a shared queue. Each step is what
  one thread does under the mutex, or one call on the condition variable: a worker is about to
  look at the queue (\<open>Checking\<close>), waits on the condition variable (\<open>Sleeping\<close>), runs a task or
  has left its loop. \<open>notify_one\<close> and \<open>notify_all\<close> come after the mutex was released, so that
  other threads run in between; the calls still to come are part of the state. A condition
  variable may also wake a thread for no reason.

  \<open>tp_accepted\<close>, \<open>tp_started\<close> and \<open>tp_finished\<close> record what happened to the tasks.
\<close>

subsection \<open>State and operations\<close>

datatype 't worker = Checking | Sleeping | Running 't | Exited

record 't ThreadPool =
  tp_workers :: "'t worker list"
  tp_tasks :: "'t list"
  tp_stop :: bool
  tp_notify_one :: nat
  tp_notify_all :: bool
  tp_accepted :: "'t list"
  tp_started :: "'t list"
  tp_finished :: "'t list"

text \<open>The constructor; \<open>hw\<close> is what \<open>hardware_concurrency\<close> returns.\<close>

definition new_pool :: "nat \<Rightarrow> nat \<Rightarrow> 't ThreadPool" where
  "new_pool num_threads hw =
    (let n = (if num_threads = 0 then if hw = 0 then 4 else hw else num_threads)
     in \<lparr>tp_workers = replicate n Checking, tp_tasks = [], tp_stop = False, tp_notify_one = 0, tp_notify_all = False,
         tp_accepted = [], tp_started = [], tp_finished = []\<rparr>)"

definition pool_size :: "'t ThreadPool \<Rightarrow> nat" where
  "pool_size p = length (tp_workers p)"

definition submit :: "'t \<Rightarrow> 't ThreadPool \<Rightarrow> 't ThreadPool" where
  "submit t p =
    (if tp_stop p then p
     else p\<lparr>tp_tasks := tp_tasks p @ [t], tp_notify_one := Suc (tp_notify_one p), tp_accepted := tp_accepted p @ [t]\<rparr>)"

definition wake :: "'t worker \<Rightarrow> 't worker" where
  "wake w = (case w of Sleeping \<Rightarrow> Checking | _ \<Rightarrow> w)"

definition set_worker :: "nat \<Rightarrow> 't worker \<Rightarrow> 't ThreadPool \<Rightarrow> 't ThreadPool" where
  "set_worker i w p = p\<lparr>tp_workers := (tp_workers p)[i := w]\<rparr>"

text \<open>\<open>cv_.notify_one()\<close> wakes one sleeping worker, \<open>i\<close>, if there is any.\<close>

definition notify_one :: "nat \<Rightarrow> 't ThreadPool \<Rightarrow> 't ThreadPool" where
  "notify_one i p = (set_worker i (wake (tp_workers p ! i)) p)\<lparr>tp_notify_one := tp_notify_one p - 1\<rparr>"

definition shutdown_begin :: "'t ThreadPool \<Rightarrow> 't ThreadPool" where
  "shutdown_begin p = (if tp_stop p then p else p\<lparr>tp_stop := True, tp_notify_all := True\<rparr>)"

definition notify_all :: "'t ThreadPool \<Rightarrow> 't ThreadPool" where
  "notify_all p = p\<lparr>tp_workers := map wake (tp_workers p), tp_notify_all := False\<rparr>"

text \<open>The joins of \<open>shutdown\<close> return when every worker has left its loop.\<close>

definition shutdown_joined :: "'t ThreadPool \<Rightarrow> bool" where
  "shutdown_joined p \<longleftrightarrow> (\<forall>w\<in>set (tp_workers p). w = Exited)"

text \<open>One round of \<open>worker_loop\<close> under the mutex.\<close>

definition worker_check :: "nat \<Rightarrow> 't ThreadPool \<Rightarrow> 't ThreadPool" where
  "worker_check i p =
    (if \<not> (tp_stop p \<or> tp_tasks p \<noteq> []) then set_worker i Sleeping p
     else case tp_tasks p of
         [] \<Rightarrow> set_worker i Exited p
       | t # ts \<Rightarrow> set_worker i (Running t) (p\<lparr>tp_tasks := ts, tp_started := tp_started p @ [t]\<rparr>))"

definition worker_finish :: "nat \<Rightarrow> 't \<Rightarrow> 't ThreadPool \<Rightarrow> 't ThreadPool" where
  "worker_finish i t p = (set_worker i Checking p)\<lparr>tp_finished := tp_finished p @ [t]\<rparr>"

subsection \<open>Steps\<close>

inductive worker_step :: "'t ThreadPool \<Rightarrow> 't ThreadPool \<Rightarrow> bool" where
  check: "i < pool_size p \<Longrightarrow> tp_workers p ! i = Checking \<Longrightarrow> worker_step p (worker_check i p)"
| finish: "i < pool_size p \<Longrightarrow> tp_workers p ! i = Running t \<Longrightarrow> worker_step p (worker_finish i t p)"
| spurious: "i < pool_size p \<Longrightarrow> tp_workers p ! i = Sleeping \<Longrightarrow> worker_step p (set_worker i Checking p)"

text \<open>\<open>notify_one\<close> picks any sleeping worker; without one it changes nothing but the counter.\<close>

inductive pool_step :: "'t ThreadPool \<Rightarrow> 't ThreadPool \<Rightarrow> bool" where
  worker: "worker_step p p' \<Longrightarrow> pool_step p p'"
| submit: "pool_step p (submit t p)"
| notify: "0 < tp_notify_one p \<Longrightarrow> i < pool_size p \<Longrightarrow>
    Sleeping \<in> set (tp_workers p) \<longrightarrow> tp_workers p ! i = Sleeping \<Longrightarrow> pool_step p (notify_one i p)"
| shutdown: "pool_step p (shutdown_begin p)"
| notify_all: "tp_notify_all p \<Longrightarrow> pool_step p (notify_all p)"

inductive pool_reachable :: "'t ThreadPool \<Rightarrow> bool" where
  start: "pool_reachable (new_pool n hw)"
| step: "pool_reachable p \<Longrightarrow> pool_step p p' \<Longrightarrow> pool_reachable p'"

inductive_cases worker_stepE: "worker_step p p'"
inductive_cases pool_stepE: "pool_step p p'"

subsection \<open>Invariants\<close>

fun running :: "'t worker list \<Rightarrow> 't list" where
  "running [] = []"
| "running (Running t # ws) = t # running ws"
| "running (_ # ws) = running ws"

definition tasks_inv :: "'t ThreadPool \<Rightarrow> bool" where
  "tasks_inv p \<longleftrightarrow> tp_accepted p = tp_started p @ tp_tasks p \<and>
    mset (tp_started p) = mset (tp_finished p) + mset (running (tp_workers p))"

definition wake_inv :: "'t ThreadPool \<Rightarrow> bool" where
  "wake_inv p \<longleftrightarrow> tp_workers p \<noteq> [] \<and>
    (tp_tasks p \<noteq> [] \<longrightarrow> 0 < tp_notify_one p \<or> (\<exists>w\<in>set (tp_workers p). w \<noteq> Sleeping)) \<and>
    (tp_stop p \<and> \<not> tp_notify_all p \<longrightarrow> Sleeping \<notin> set (tp_workers p)) \<and>
    (Exited \<in> set (tp_workers p) \<longrightarrow> tp_stop p \<and> tp_tasks p = [])"

lemma running_update:
  assumes "i < length ws"
  shows "mset (running (ws[i := w])) + mset (running [ws ! i]) = mset (running ws) + mset (running [w])"
  using assms
proof (induction ws arbitrary: i)
  case (Cons x ws)
  show ?case
  proof (cases i)
    case 0
    then show ?thesis by (cases x; cases w) auto
  next
    case (Suc j)
    with Cons have "mset (running (ws[j := w])) + mset (running [ws ! j]) = mset (running ws) + mset (running [w])" by simp
    then show ?thesis using Suc by (cases x) (auto simp: union_commute union_lcomm add_eq_conv_diff)
  qed
qed simp

lemma running_wake: "running (map wake ws) = running ws"
  by (induction ws rule: running.induct) (auto simp: wake_def)

lemma running_keep:
  assumes "i < length ws" "running [ws ! i] = running [w]"
  shows "mset (running (ws[i := w])) = mset (running ws)"
  using running_update [OF assms(1), of w] assms(2) by simp

lemma tasks_inv_worker: "worker_step p p' \<Longrightarrow> tasks_inv p \<Longrightarrow> tasks_inv p'"
proof (erule worker_stepE)
  fix i
  assume inv: "tasks_inv p" and i: "i < pool_size p" "tp_workers p ! i = Checking" and p': "p' = worker_check i p"
  have k: "mset (running ((tp_workers p)[i := w])) = mset (running (tp_workers p)) + mset (running [w])" for w
    using running_update [of i "tp_workers p" w] i by (simp add: pool_size_def)
  show "tasks_inv p'" using inv unfolding p'
    by (auto simp: worker_check_def tasks_inv_def set_worker_def k split: list.split)
next
  fix i t
  assume inv: "tasks_inv p" and i: "i < pool_size p" "tp_workers p ! i = Running t" and p': "p' = worker_finish i t p"
  have "mset (running ((tp_workers p)[i := Checking])) + {#t#} = mset (running (tp_workers p))"
    using running_update [of i "tp_workers p" Checking] i by (simp add: pool_size_def)
  then show "tasks_inv p'" using inv unfolding p' by (simp add: worker_finish_def tasks_inv_def set_worker_def)
next
  fix i
  assume inv: "tasks_inv p" and i: "i < pool_size p" "tp_workers p ! i = Sleeping" and p': "p' = set_worker i Checking p"
  have "mset (running ((tp_workers p)[i := Checking])) = mset (running (tp_workers p))"
    by (rule running_keep) (use i in \<open>simp_all add: pool_size_def\<close>)
  then show "tasks_inv p'" using inv unfolding p' by (simp add: tasks_inv_def set_worker_def)
qed

lemma running_single_wake: "running [wake w] = running [w]"
  by (cases w) (auto simp: wake_def)

lemma tasks_inv_step: "pool_step p p' \<Longrightarrow> tasks_inv p \<Longrightarrow> tasks_inv p'"
proof (erule pool_stepE)
  fix i
  assume inv: "tasks_inv p" and i: "i < pool_size p" and p': "p' = notify_one i p"
  have "mset (running ((tp_workers p)[i := wake (tp_workers p ! i)])) = mset (running (tp_workers p))"
    by (rule running_keep) (use i in \<open>simp_all add: pool_size_def running_single_wake\<close>)
  then show "tasks_inv p'" using inv unfolding p' by (simp add: tasks_inv_def notify_one_def set_worker_def)
next
  show "worker_step p p' \<Longrightarrow> tasks_inv p \<Longrightarrow> tasks_inv p'" by (rule tasks_inv_worker)
qed (auto simp: tasks_inv_def submit_def shutdown_begin_def notify_all_def running_wake)

text \<open>A worker that does not go to sleep keeps the second invariant.\<close>

lemma wake_inv_update:
  assumes inv: "wake_inv p" and i: "i < pool_size p" and w: "w \<noteq> Sleeping" "w = Exited \<longrightarrow> tp_stop p \<and> tp_tasks p = []"
    and p': "tp_workers p' = (tp_workers p)[i := w]" "tp_stop p' = tp_stop p" "tp_notify_all p' = tp_notify_all p"
      "tp_tasks p = [] \<longrightarrow> tp_tasks p' = []"
  shows "wake_inv p'"
proof -
  have "w \<in> set (tp_workers p')" "set (tp_workers p') \<subseteq> insert w (set (tp_workers p))"
    using i by (simp_all add: p' pool_size_def set_update_subset_insert set_update_memI)
  then have "\<exists>v\<in>set (tp_workers p'). v \<noteq> Sleeping" "Sleeping \<in> set (tp_workers p') \<longrightarrow> Sleeping \<in> set (tp_workers p)"
    "Exited \<in> set (tp_workers p') \<longrightarrow> Exited \<in> set (tp_workers p) \<or> w = Exited"
    using w(1) by blast+
  then show ?thesis using inv w(2) p'(2-4) unfolding wake_inv_def by (metis p'(1) list_update_nonempty)
qed

lemma wake_inv_worker:
  assumes "worker_step p p'" and inv: "wake_inv p"
  shows "wake_inv p'"
  using assms(1)
proof cases
  case (check i)
  consider "\<not> tp_stop p" "tp_tasks p = []" | "tp_stop p" "tp_tasks p = []" | t ts where "tp_tasks p = t # ts"
    by (cases "tp_tasks p") auto
  then show ?thesis
  proof cases
    case 1
    then have "set (tp_workers p') \<subseteq> insert Sleeping (set (tp_workers p))"
      using check by (simp add: worker_check_def set_worker_def set_update_subset_insert)
    then have "Exited \<in> set (tp_workers p') \<longrightarrow> Exited \<in> set (tp_workers p)" by blast
    then show ?thesis using inv 1 check by (simp add: wake_inv_def worker_check_def set_worker_def)
  next
    case 2
    then show ?thesis using check by (intro wake_inv_update [OF inv check(2), of Exited]) (simp_all add: worker_check_def set_worker_def)
  next
    case 3
    then show ?thesis using check by (intro wake_inv_update [OF inv check(2), of "Running t"]) (simp_all add: worker_check_def set_worker_def)
  qed
next
  case (finish i t)
  then show ?thesis by (intro wake_inv_update [OF inv finish(2), of Checking]) (simp_all add: worker_finish_def set_worker_def)
next
  case (spurious i)
  then show ?thesis by (intro wake_inv_update [OF inv spurious(2), of Checking]) (simp_all add: set_worker_def)
qed

lemma wake_inv_step: "pool_step p p' \<Longrightarrow> wake_inv p \<Longrightarrow> wake_inv p'"
proof (erule pool_stepE)
  fix i
  assume inv: "wake_inv p" and i: "i < pool_size p" and p': "p' = notify_one i p"
  have "tp_workers p ! i = Exited \<longrightarrow> tp_stop p \<and> tp_tasks p = []"
    using inv i unfolding wake_inv_def pool_size_def by (metis nth_mem)
  then show "wake_inv p'" unfolding p'
    by (intro wake_inv_update [OF inv i, of "wake (tp_workers p ! i)"])
      (auto simp: wake_def notify_one_def set_worker_def split: worker.splits)
next
  assume inv: "wake_inv p" and p': "p' = notify_all p"
  have "Sleeping \<notin> set (map wake (tp_workers p))" by (auto simp: wake_def split: worker.splits)
  moreover have "Exited \<in> set (map wake (tp_workers p)) \<longrightarrow> Exited \<in> set (tp_workers p)" by (auto simp: wake_def split: worker.splits)
  moreover have "\<exists>v\<in>set (map wake (tp_workers p)). v \<noteq> Sleeping"
    using calculation(1) inv by (metis last_in_set list.map_disc_iff wake_inv_def)
  ultimately show "wake_inv p'" using inv unfolding p' by (auto simp: wake_inv_def notify_all_def)
next
  show "worker_step p p' \<Longrightarrow> wake_inv p \<Longrightarrow> wake_inv p'" by (rule wake_inv_worker)
qed (auto simp: wake_inv_def submit_def shutdown_begin_def)

lemma pool_invariants: "pool_reachable p \<Longrightarrow> tasks_inv p \<and> wake_inv p"
proof (induction rule: pool_reachable.induct)
  case (start n hw)
  have "running (replicate k Checking) = []" for k by (induction k) auto
  then show ?case by (auto simp: tasks_inv_def wake_inv_def new_pool_def Let_def)
next
  case (step p p')
  with tasks_inv_step wake_inv_step show ?case by blast
qed

lemma running_none: "(\<And>w. w \<in> set ws \<Longrightarrow> w = Exited) \<Longrightarrow> running ws = []"
  by (induction ws rule: running.induct) auto

subsection \<open>Progress\<close>

fun worker_weight :: "'t worker \<Rightarrow> nat" where
  "worker_weight Exited = 0"
| "worker_weight Checking = 1"
| "worker_weight Sleeping = 2"
| "worker_weight (Running t) = 2"

text \<open>A bound on the steps the workers still make once the pool is stopped.\<close>

definition pool_weight :: "'t ThreadPool \<Rightarrow> nat" where
  "pool_weight p = 2 * length (tp_tasks p) + sum_list (map worker_weight (tp_workers p))"

lemma weight_update:
  assumes "i < length ws"
  shows "sum_list (map worker_weight (ws[i := w])) + worker_weight (ws ! i) = sum_list (map worker_weight ws) + worker_weight w"
  using assms by (induction ws arbitrary: i) (auto split: nat.splits)

lemma worker_step_weight:
  assumes "worker_step p p'" "tp_stop p"
  shows "pool_weight p' < pool_weight p \<and> tp_stop p' \<and> tp_notify_all p' = tp_notify_all p"
  using assms(1)
proof cases
  case (check i)
  then have "sum_list (map worker_weight ((tp_workers p)[i := w])) + 1 = sum_list (map worker_weight (tp_workers p)) + worker_weight w" for w
    using weight_update [of i "tp_workers p" w] by (simp add: pool_size_def)
  from this [of Exited] this [of "Running (hd (tp_tasks p))"] show ?thesis using assms(2) check
    by (cases "tp_tasks p") (simp_all add: worker_check_def pool_weight_def set_worker_def)
next
  case (finish i t)
  then show ?thesis using assms(2) weight_update [of i "tp_workers p" Checking]
    by (simp add: worker_finish_def pool_weight_def set_worker_def pool_size_def)
next
  case (spurious i)
  then show ?thesis using assms(2) weight_update [of i "tp_workers p" Checking]
    by (simp add: pool_weight_def set_worker_def pool_size_def)
qed

lemma joined_empty:
  assumes "wake_inv p" "shutdown_joined p"
  shows "tp_tasks p = []"
proof -
  have "hd (tp_workers p) \<in> set (tp_workers p)" using assms(1) by (simp add: wake_inv_def)
  then have "Exited \<in> set (tp_workers p)" using assms(2) by (auto simp: shutdown_joined_def)
  then show ?thesis using assms(1) by (simp add: wake_inv_def)
qed

lemma stopped_progress:
  assumes "wake_inv p" "tp_stop p" "\<not> tp_notify_all p" "\<nexists>p'. worker_step p p'"
  shows "shutdown_joined p \<and> tp_tasks p = []"
proof -
  have "tp_workers p ! i = Exited" if "i < pool_size p" for i
    using assms(4) that by (cases "tp_workers p ! i") (auto intro: worker_step.intros)
  then have "shutdown_joined p" by (auto simp: shutdown_joined_def pool_size_def in_set_conv_nth)
  then show ?thesis using joined_empty [OF assms(1)] by simp
qed

lemma worker_steps_stopped:
  assumes "(worker_step ^^ n) p p'" "pool_reachable p" "tp_stop p" "\<not> tp_notify_all p"
  shows "n + pool_weight p' \<le> pool_weight p \<and> pool_reachable p' \<and> tp_stop p' \<and> \<not> tp_notify_all p'"
  using assms
proof (induction n arbitrary: p')
  case (Suc n)
  from Suc.prems(1) obtain q where q: "(worker_step ^^ n) p q" "worker_step q p'" by auto
  with Suc have IH: "n + pool_weight q \<le> pool_weight p" "pool_reachable q" "tp_stop q" "\<not> tp_notify_all q" by auto
  moreover have "pool_reachable p'" using IH(2) q(2) by (blast intro: pool_reachable.step pool_step.worker)
  ultimately show ?case using worker_step_weight [OF q(2)] by auto
qed simp

text \<open>
  C16. The pool keeps its promise to drain: tasks are started in the order of submission, each
  one once; when the joins of \<open>shutdown\<close> have returned, every accepted task was started and
  has finished and none is left in the queue; and while a task waits some worker is awake or
  about to be notified.
\<close>
theorem thread_pool_drains:
  assumes "pool_reachable p"
  shows "tp_accepted p = tp_started p @ tp_tasks p \<and>
    (shutdown_joined p \<longrightarrow> tp_tasks p = [] \<and> tp_started p = tp_accepted p \<and> mset (tp_finished p) = mset (tp_accepted p)) \<and>
    (tp_tasks p \<noteq> [] \<longrightarrow> 0 < tp_notify_one p \<or> (\<exists>w\<in>set (tp_workers p). w \<noteq> Sleeping \<and> w \<noteq> Exited))"
proof -
  have t: "tasks_inv p" and w: "wake_inv p" using pool_invariants [OF assms] by simp_all
  have "tp_tasks p = [] \<and> running (tp_workers p) = []" if "shutdown_joined p"
    using joined_empty [OF w that] running_none [of "tp_workers p"] that by (auto simp: shutdown_joined_def)
  then show ?thesis using t w unfolding tasks_inv_def wake_inv_def by (auto simp: union_commute)
qed

text \<open>A pool of one worker that ran a task.\<close>

definition sample_stopped :: "nat ThreadPool" where
  "sample_stopped = notify_all (shutdown_begin (submit 7 (new_pool 1 0)))"

definition sample_pool :: "nat ThreadPool" where
  "sample_pool = worker_check 0 (worker_finish 0 7 (worker_check 0 sample_stopped))"

lemmas sample_pool_defs = sample_pool_def sample_stopped_def worker_finish_def worker_check_def set_worker_def notify_all_def
  shutdown_begin_def submit_def new_pool_def pool_size_def wake_def

lemma reachable_worker: "pool_reachable p \<Longrightarrow> worker_step p p' \<Longrightarrow> pool_reachable p'"
  by (blast intro: pool_reachable.step pool_step.worker)

lemma sample_pool_reachable: "pool_reachable sample_pool"
proof -
  have "pool_reachable (submit 7 (new_pool 1 0))" by (rule pool_reachable.step [OF pool_reachable.start pool_step.submit])
  then have "pool_reachable (shutdown_begin (submit 7 (new_pool 1 0)))" by (rule pool_reachable.step) (rule pool_step.shutdown)
  then have "pool_reachable sample_stopped" unfolding sample_stopped_def
    by (rule pool_reachable.step) (rule pool_step.notify_all, simp add: sample_pool_defs)
  moreover have "worker_step sample_stopped (worker_check 0 sample_stopped)"
    by (rule worker_step.check) (simp_all add: sample_pool_defs)
  ultimately have "pool_reachable (worker_check 0 sample_stopped)" by (rule reachable_worker)
  moreover have "worker_step (worker_check 0 sample_stopped) (worker_finish 0 7 (worker_check 0 sample_stopped))"
    by (rule worker_step.finish) (simp_all add: sample_pool_defs)
  ultimately have "pool_reachable (worker_finish 0 7 (worker_check 0 sample_stopped))" by (rule reachable_worker)
  moreover have "worker_step (worker_finish 0 7 (worker_check 0 sample_stopped)) sample_pool"
    unfolding sample_pool_def by (rule worker_step.check) (simp_all add: sample_pool_defs)
  ultimately show ?thesis by (rule reachable_worker)
qed

theorem thread_pool_drains_witness:
  "pool_reachable sample_pool \<and> shutdown_joined sample_pool \<and> mset (tp_finished sample_pool) = {#7#}"
  using thread_pool_drains [OF sample_pool_reachable] sample_pool_reachable
  by (simp add: sample_pool_defs shutdown_joined_def)

text \<open>
  C17. \<open>shutdown\<close> terminates when the tasks do: once the pool is stopped and the workers are
  notified, no run of the workers is longer than \<open>pool_weight\<close>, and when no worker can move
  any more all of them have left their loops, so that the joins return.
\<close>
theorem shutdown_terminates:
  assumes "pool_reachable p" "tp_stop p" "\<not> tp_notify_all p" "(worker_step ^^ n) p p'"
  shows "n \<le> pool_weight p \<and> ((\<nexists>q. worker_step p' q) \<longrightarrow> shutdown_joined p' \<and> tp_tasks p' = [])"
proof -
  have s: "n + pool_weight p' \<le> pool_weight p" "pool_reachable p'" "tp_stop p'" "\<not> tp_notify_all p'"
    using worker_steps_stopped [OF assms(4,1,2,3)] by auto
  then show ?thesis using stopped_progress [of p'] pool_invariants [OF s(2)] by auto
qed

theorem shutdown_terminates_witness:
  "pool_reachable sample_pool \<and> tp_stop sample_pool \<and> \<not> tp_notify_all sample_pool \<and> 0 \<le> pool_weight sample_pool \<and>
    shutdown_joined sample_pool"
proof -
  have s: "tp_stop sample_pool" "\<not> tp_notify_all sample_pool" "tp_workers sample_pool = [Exited]"
    by (simp_all add: sample_pool_defs)
  have "\<nexists>q. worker_step sample_pool q" by (auto elim!: worker_stepE simp: s pool_size_def)
  with shutdown_terminates [OF sample_pool_reachable s(1,2), of 0 sample_pool] show ?thesis using sample_pool_reachable s by simp
qed

end
