(* ===== verification/Wasm_Context.thy ===== *)
theory Wasm_Context
  imports Response_Sink
begin

text \<open>
  The host side of a WebAssembly stream context (\<open>LsWasmContext\<close> of wasm_module_manager.h) and
  the streaming foreign functions of main.cpp: header maps, buffers, local responses, and the
  state machine of a streamed response over a \<open>ResponseSink\<close>. The enumerations of the
  proxy-wasm library are datatypes of the values that the source names. What the context
  inherits from the library (plugin, VM and root context) is in the record as the values the
  methods read.
\<close>

subsection \<open>State\<close>

datatype WasmResult = Ok | NotFound | BadArgument | InternalFailure | Unimplemented

datatype WasmHeaderMapType = RequestHeaders | ResponseHeaders | OtherHeaders nat

datatype WasmBufferType = PluginConfiguration | VmConfiguration | HttpRequestBody | HttpResponseBody | OtherBuffer nat

datatype StreamingResponseState = Idle | HeadersSent | Finished

record LsWasmContext =
  lc_plugin_configuration :: "str option"
  lc_temp_plugin_configuration :: "str option"
  lc_vm_configuration :: "str option"
  lc_root_id :: str
  lc_parent_context_id :: nat
  lc_log :: str
  lc_has_local_response :: bool
  lc_local_response_code :: nat
  lc_local_response_body :: str
  lc_local_response_details :: str
  lc_local_response_headers :: HeaderPairs
  lc_header_maps :: "WasmHeaderMapType \<rightharpoonup> HeaderPairs"
  lc_request_body :: str
  lc_response_body :: str
  lc_end_of_stream :: bool
  lc_sink :: bool  \<comment> \<open>the pointer to the sink is set\<close>
  lc_streaming_state :: StreamingResponseState

definition new_context :: LsWasmContext where
  "new_context =
    \<lparr>lc_plugin_configuration = Some [], lc_temp_plugin_configuration = None, lc_vm_configuration = Some [], lc_root_id = [],
     lc_parent_context_id = 0, lc_log = [], lc_has_local_response = False, lc_local_response_code = 0, lc_local_response_body = [],
     lc_local_response_details = [], lc_local_response_headers = [], lc_header_maps = Map.empty, lc_request_body = [],
     lc_response_body = [], lc_end_of_stream = True, lc_sink = False, lc_streaming_state = Idle\<rparr>"

subsection \<open>Properties, buffers and the log\<close>

definition setParentContext :: "nat option \<Rightarrow> LsWasmContext \<Rightarrow> LsWasmContext" where
  "setParentContext parent c = c\<lparr>lc_parent_context_id := (case parent of Some i \<Rightarrow> i | None \<Rightarrow> 0)\<rparr>"

definition unimplemented :: WasmResult where
  "unimplemented = Unimplemented"

definition getConfiguration :: "LsWasmContext \<Rightarrow> str" where
  "getConfiguration c =
    (case lc_plugin_configuration c of Some conf \<Rightarrow> conf
     | None \<Rightarrow> (case lc_vm_configuration c of Some conf \<Rightarrow> conf | None \<Rightarrow> []))"

definition getStatus :: "nat \<times> str" where
  "getStatus = (0, [])"

definition continueStream :: WasmResult where "continueStream = Ok"
definition closeStream :: WasmResult where "closeStream = Ok"

text \<open>\<open>None\<close> is the null buffer.\<close>

definition getBuffer :: "WasmBufferType \<Rightarrow> LsWasmContext \<Rightarrow> str option" where
  "getBuffer t c =
    (case t of
       PluginConfiguration \<Rightarrow>
         (case lc_plugin_configuration c of Some conf \<Rightarrow> Some conf | None \<Rightarrow> lc_temp_plugin_configuration c)
     | VmConfiguration \<Rightarrow> lc_vm_configuration c
     | HttpRequestBody \<Rightarrow> if lc_request_body c \<noteq> [] then Some (lc_request_body c) else None
     | HttpResponseBody \<Rightarrow> if lc_response_body c \<noteq> [] then Some (lc_response_body c) else None
     | OtherBuffer _ \<Rightarrow> None)"

definition endOfStream :: "LsWasmContext \<Rightarrow> bool" where
  "endOfStream c = lc_end_of_stream c"

definition setRequestBody :: "str \<Rightarrow> LsWasmContext \<Rightarrow> LsWasmContext" where
  "setRequestBody body c = c\<lparr>lc_request_body := body\<rparr>"

definition setResponseBody :: "str \<Rightarrow> LsWasmContext \<Rightarrow> LsWasmContext" where
  "setResponseBody body c = c\<lparr>lc_response_body := body\<rparr>"

definition setEndOfStream :: "bool \<Rightarrow> LsWasmContext \<Rightarrow> LsWasmContext" where
  "setEndOfStream eos c = c\<lparr>lc_end_of_stream := eos\<rparr>"

definition getProperty :: "str \<Rightarrow> LsWasmContext \<Rightarrow> WasmResult \<times> str option" where
  "getProperty path c = (if path = ascii ''plugin_root_id'' then (Ok, Some (lc_root_id c)) else (NotFound, None))"

definition setProperty :: "str \<Rightarrow> str \<Rightarrow> WasmResult" where
  "setProperty key val = Ok"

definition httpCall :: "str \<Rightarrow> WasmResult" where
  "httpCall target = Unimplemented"

definition context_log :: "nat \<Rightarrow> str \<Rightarrow> LsWasmContext \<Rightarrow> WasmResult \<times> LsWasmContext" where
  "context_log level msg c = (Ok, c\<lparr>lc_log := lc_log c @ msg @ [0x0a]\<rparr>)"

definition sendLocalResponse :: "nat \<Rightarrow> str \<Rightarrow> HeaderPairs \<Rightarrow> str \<Rightarrow> LsWasmContext \<Rightarrow> WasmResult \<times> LsWasmContext" where
  "sendLocalResponse response_code body additional_headers details c =
    (Ok, c\<lparr>lc_has_local_response := True, lc_local_response_code := response_code, lc_local_response_body := body,
           lc_local_response_details := details, lc_local_response_headers := additional_headers\<rparr>)"

definition resetLocalResponse :: "LsWasmContext \<Rightarrow> LsWasmContext" where
  "resetLocalResponse c =
    c\<lparr>lc_has_local_response := False, lc_local_response_code := 0, lc_local_response_body := [],
      lc_local_response_details := [], lc_local_response_headers := []\<rparr>"

subsection \<open>Header maps\<close>

definition header_map :: "WasmHeaderMapType \<Rightarrow> LsWasmContext \<Rightarrow> HeaderPairs" where
  "header_map t c = (case lc_header_maps c t of Some ps \<Rightarrow> ps | None \<Rightarrow> [])"

definition getHeaderMapPairs :: "WasmHeaderMapType \<Rightarrow> LsWasmContext \<Rightarrow> WasmResult \<times> HeaderPairs" where
  "getHeaderMapPairs t c = (Ok, case lc_header_maps c t of Some ps \<Rightarrow> ps | None \<Rightarrow> [])"

definition setHeaderMapPairs :: "WasmHeaderMapType \<Rightarrow> HeaderPairs \<Rightarrow> LsWasmContext \<Rightarrow> WasmResult \<times> LsWasmContext" where
  "setHeaderMapPairs t pairs c = (Ok, c\<lparr>lc_header_maps := (lc_header_maps c)(t \<mapsto> pairs)\<rparr>)"

fun first_value :: "str \<Rightarrow> HeaderPairs \<Rightarrow> str option" where
  "first_value key [] = None"
| "first_value key ((k, v) # ps) = (if header_name_eq k key then Some v else first_value key ps)"

definition getHeaderMapValue :: "WasmHeaderMapType \<Rightarrow> str \<Rightarrow> LsWasmContext \<Rightarrow> WasmResult \<times> str" where
  "getHeaderMapValue t key c =
    (case lc_header_maps c t of
       Some ps \<Rightarrow> (case first_value key ps of Some v \<Rightarrow> (Ok, v) | None \<Rightarrow> (Ok, []))
     | None \<Rightarrow> (Ok, []))"

text \<open>\<open>header_maps_[type]\<close> makes an empty map when there is none.\<close>

definition addHeaderMapValue :: "WasmHeaderMapType \<Rightarrow> str \<Rightarrow> str \<Rightarrow> LsWasmContext \<Rightarrow> WasmResult \<times> LsWasmContext" where
  "addHeaderMapValue t key val c = (Ok, c\<lparr>lc_header_maps := (lc_header_maps c)(t \<mapsto> header_map t c @ [(key, val)])\<rparr>)"

definition drop_name :: "str \<Rightarrow> HeaderPairs \<Rightarrow> HeaderPairs" where
  "drop_name key ps = filter (\<lambda>p. \<not> header_name_eq (fst p) key) ps"

definition replaceHeaderMapValue :: "WasmHeaderMapType \<Rightarrow> str \<Rightarrow> str \<Rightarrow> LsWasmContext \<Rightarrow> WasmResult \<times> LsWasmContext" where
  "replaceHeaderMapValue t key val c =
    (Ok, c\<lparr>lc_header_maps := (lc_header_maps c)(t \<mapsto> drop_name key (header_map t c) @ [(key, val)])\<rparr>)"

definition removeHeaderMapValue :: "WasmHeaderMapType \<Rightarrow> str \<Rightarrow> LsWasmContext \<Rightarrow> WasmResult \<times> LsWasmContext" where
  "removeHeaderMapValue t key c =
    (case lc_header_maps c t of
       Some ps \<Rightarrow> (Ok, c\<lparr>lc_header_maps := (lc_header_maps c)(t \<mapsto> drop_name key ps)\<rparr>)
     | None \<Rightarrow> (Ok, c))"

text \<open>A \<open>uint32_t\<close> sum.\<close>

definition getHeaderMapSize :: "WasmHeaderMapType \<Rightarrow> LsWasmContext \<Rightarrow> WasmResult \<times> uint32" where
  "getHeaderMapSize t c =
    (Ok, case lc_header_maps c t of
           Some ps \<Rightarrow> foldl (\<lambda>n p. n + of_nat (length (fst p) + length (snd p) + 4)) 0 ps
         | None \<Rightarrow> 0)"

definition setHeaderMap :: "WasmHeaderMapType \<Rightarrow> HeaderPairs \<Rightarrow> LsWasmContext \<Rightarrow> LsWasmContext" where
  "setHeaderMap t pairs c = c\<lparr>lc_header_maps := (lc_header_maps c)(t \<mapsto> pairs)\<rparr>"

definition getHeaderMapOwned :: "WasmHeaderMapType \<Rightarrow> LsWasmContext \<Rightarrow> HeaderPairs" where
  "getHeaderMapOwned t c = (case lc_header_maps c t of Some ps \<Rightarrow> ps | None \<Rightarrow> [])"

definition resetHeaderMaps :: "LsWasmContext \<Rightarrow> LsWasmContext" where
  "resetHeaderMaps c = c\<lparr>lc_header_maps := Map.empty\<rparr>"

subsection \<open>Streaming responses\<close>

text \<open>The virtual methods of a sink; the sink's state is passed along.\<close>

record 's sink_ops =
  so_sendHeaders :: "nat \<Rightarrow> HeaderPairs \<Rightarrow> bool \<Rightarrow> 's \<Rightarrow> (bool \<times> 's) option"
  so_writeBody :: "str \<Rightarrow> 's \<Rightarrow> (bool \<times> 's) option"
  so_finishBody :: "'s \<Rightarrow> (bool \<times> 's) option"

definition setResponseSink :: "bool \<Rightarrow> LsWasmContext \<Rightarrow> LsWasmContext" where
  "setResponseSink sink c = c\<lparr>lc_sink := sink\<rparr>"

definition hasStreamingResponse :: "LsWasmContext \<Rightarrow> bool" where
  "hasStreamingResponse c \<longleftrightarrow> lc_streaming_state c \<noteq> Idle"

definition isStreamingFinished :: "LsWasmContext \<Rightarrow> bool" where
  "isStreamingFinished c \<longleftrightarrow> lc_streaming_state c = Finished"

definition streamingSendHeaders ::
  "'s sink_ops \<Rightarrow> nat \<Rightarrow> HeaderPairs \<Rightarrow> LsWasmContext \<Rightarrow> 's \<Rightarrow> (WasmResult \<times> LsWasmContext \<times> 's) option" where
  "streamingSendHeaders ops status_code headers c s =
    (if \<not> lc_sink c then Some (InternalFailure, c, s)
     else if lc_streaming_state c \<noteq> Idle then Some (BadArgument, c, s)
     else do {
       (ok, s) \<leftarrow> so_sendHeaders ops status_code headers True s;
       Some (if \<not> ok then (InternalFailure, c, s) else (Ok, c\<lparr>lc_streaming_state := HeadersSent\<rparr>, s)) })"

definition streamingWriteChunk ::
  "'s sink_ops \<Rightarrow> str \<Rightarrow> LsWasmContext \<Rightarrow> 's \<Rightarrow> (WasmResult \<times> LsWasmContext \<times> 's) option" where
  "streamingWriteChunk ops data c s =
    (if \<not> lc_sink c then Some (InternalFailure, c, s)
     else if lc_streaming_state c \<noteq> HeadersSent then Some (BadArgument, c, s)
     else if data \<noteq> [] then do {
       (ok, s) \<leftarrow> so_writeBody ops data s;
       Some (if \<not> ok then InternalFailure else Ok, c, s) }
     else Some (Ok, c, s))"

definition streamingFinish :: "'s sink_ops \<Rightarrow> LsWasmContext \<Rightarrow> 's \<Rightarrow> (WasmResult \<times> LsWasmContext \<times> 's) option" where
  "streamingFinish ops c s =
    (if \<not> lc_sink c then Some (InternalFailure, c, s)
     else if lc_streaming_state c \<noteq> HeadersSent then Some (BadArgument, c, s)
     else do {
       (ok, s) \<leftarrow> so_finishBody ops s;
       Some (if \<not> ok then (InternalFailure, c, s) else (Ok, c\<lparr>lc_streaming_state := Finished\<rparr>, s)) })"

definition resetStreamingState :: "LsWasmContext \<Rightarrow> LsWasmContext" where
  "resetStreamingState c = c\<lparr>lc_sink := False, lc_streaming_state := Idle\<rparr>"

text \<open>
  The foreign functions that main.cpp registers, on a current context that is an
  \<open>LsWasmContext\<close>; the argument of the first is a status code and marshalled header pairs.
\<close>

datatype foreign_call = FF_headers str | FF_chunk str | FF_finish

fun foreign_function ::
  "'s sink_ops \<Rightarrow> foreign_call \<Rightarrow> LsWasmContext \<Rightarrow> 's \<Rightarrow> (WasmResult \<times> LsWasmContext \<times> 's) option" where
  "foreign_function ops (FF_headers argument) c s =
    (if length argument = 0 then Some (BadArgument, c, s)
     else if length argument < 4 then Some (BadArgument, c, s)
     else streamingSendHeaders ops (u32_at 0 argument) (deserialize_header_pairs (drop 4 argument)) c s)"
| "foreign_function ops (FF_chunk argument) c s = streamingWriteChunk ops argument c s"
| "foreign_function ops FF_finish c s = streamingFinish ops c s"

fun foreign_calls ::
  "'s sink_ops \<Rightarrow> foreign_call list \<Rightarrow> LsWasmContext \<Rightarrow> 's \<Rightarrow> (WasmResult list \<times> LsWasmContext \<times> 's) option" where
  "foreign_calls ops [] c s = Some ([], c, s)"
| "foreign_calls ops (f # fs) c s = do {
    (r, c, s) \<leftarrow> foreign_function ops f c s;
    (rs, c, s) \<leftarrow> foreign_calls ops fs c s;
    Some (r # rs, c, s) }"

subsection \<open>The protocol of a streamed response\<close>

text \<open>What the foreign functions promise, without a transport: headers once, then data, then the end.\<close>

datatype stream_spec = S_idle | S_open nat HeaderPairs str | S_done nat HeaderPairs str

fun spec_call :: "foreign_call \<Rightarrow> stream_spec \<Rightarrow> WasmResult \<times> stream_spec" where
  "spec_call (FF_headers a) S_idle =
    (if length a < 4 then (BadArgument, S_idle) else (Ok, S_open (u32_at 0 a) (deserialize_header_pairs (drop 4 a)) []))"
| "spec_call (FF_chunk d) (S_open st hs b) = (Ok, S_open st hs (b @ d))"
| "spec_call FF_finish (S_open st hs b) = (Ok, S_done st hs b)"
| "spec_call _ sp = (BadArgument, sp)"

fun spec_calls :: "foreign_call list \<Rightarrow> stream_spec \<Rightarrow> WasmResult list \<times> stream_spec" where
  "spec_calls [] sp = ([], sp)"
| "spec_calls (f # fs) sp = (case spec_call f sp of (r, sp) \<Rightarrow> case spec_calls fs sp of (rs, sp) \<Rightarrow> (r # rs, sp))"

definition stream_rel ::
  "('s \<Rightarrow> nat \<Rightarrow> HeaderPairs \<Rightarrow> bool \<Rightarrow> 's \<Rightarrow> str \<Rightarrow> bool) \<Rightarrow> ('s \<Rightarrow> nat \<Rightarrow> HeaderPairs \<Rightarrow> bool \<Rightarrow> 's \<Rightarrow> str \<Rightarrow> bool) \<Rightarrow>
    's \<Rightarrow> stream_spec \<Rightarrow> LsWasmContext \<Rightarrow> 's \<Rightarrow> bool" where
  "stream_rel carries delivered s0 sp c s \<longleftrightarrow> lc_sink c \<and>
    (case sp of
       S_idle \<Rightarrow> lc_streaming_state c = Idle \<and> s = s0
     | S_open st hs b \<Rightarrow> lc_streaming_state c = HeadersSent \<and> carries s0 st hs True s b
     | S_done st hs b \<Rightarrow> lc_streaming_state c = Finished \<and> delivered s0 st hs True s b)"

fun headers_accepted :: "(HeaderPairs \<Rightarrow> bool \<Rightarrow> bool) \<Rightarrow> foreign_call \<Rightarrow> bool" where
  "headers_accepted accepts (FF_headers a) \<longleftrightarrow> (4 \<le> length a \<longrightarrow> accepts (deserialize_header_pairs (drop 4 a)) True)"
| "headers_accepted accepts _ \<longleftrightarrow> True"

context response_sink
begin

lemma foreign_refines:
  assumes rel: "stream_rel carries delivered s0 sp c s" and "fresh s0" and ok: "headers_accepted accepts f"
  shows "\<exists>c' s'. foreign_function \<lparr>so_sendHeaders = sendHeaders, so_writeBody = writeBody, so_finishBody = finishBody\<rparr> f c s =
      Some (fst (spec_call f sp), c', s') \<and> stream_rel carries delivered s0 (snd (spec_call f sp)) c' s'"
proof (cases sp)
  case S_idle
  then have i: "lc_sink c" "lc_streaming_state c = Idle" "s = s0" using rel by (simp_all add: stream_rel_def)
  show ?thesis
  proof (cases f)
    case (FF_headers a)
    show ?thesis
    proof (cases "length a < 4")
      case True
      then show ?thesis using FF_headers S_idle rel by auto
    next
      case False
      then have "accepts (deserialize_header_pairs (drop 4 a)) True" using ok FF_headers by simp
      from headers_sent [OF \<open>fresh s0\<close> this] obtain s' where
        "sendHeaders (u32_at 0 a) (deserialize_header_pairs (drop 4 a)) True s0 = Some (True, s')"
        "carries s0 (u32_at 0 a) (deserialize_header_pairs (drop 4 a)) True s' []" by blast
      then show ?thesis using FF_headers S_idle False i by (auto simp: streamingSendHeaders_def stream_rel_def)
    qed
  qed (use S_idle i in \<open>simp_all add: streamingWriteChunk_def streamingFinish_def stream_rel_def\<close>)
next
  case (S_open st hs b)
  then have i: "lc_sink c" "lc_streaming_state c = HeadersSent" "carries s0 st hs True s b" using rel by (simp_all add: stream_rel_def)
  show ?thesis
  proof (cases f)
    case (FF_headers a)
    then show ?thesis using S_open i by (simp add: streamingSendHeaders_def stream_rel_def)
  next
    case (FF_chunk d)
    from body_written [OF i(3), of d] obtain s' where "writeBody d s = Some (True, s')" "carries s0 st hs True s' (b @ d)" by blast
    then show ?thesis using FF_chunk S_open i by (cases "d = []") (auto simp: streamingWriteChunk_def stream_rel_def)
  next
    case FF_finish
    from body_finished [OF i(3)] obtain s' where "finishBody s = Some (True, s')" "delivered s0 st hs True s' b" by blast
    then show ?thesis using FF_finish S_open i by (simp add: streamingFinish_def stream_rel_def)
  qed
next
  case (S_done st hs b)
  then show ?thesis using rel
    by (cases f) (simp_all add: streamingSendHeaders_def streamingWriteChunk_def streamingFinish_def stream_rel_def)
qed

lemma foreign_calls_refine:
  assumes "stream_rel carries delivered s0 sp c s" "fresh s0" "list_all (headers_accepted accepts) fs"
  shows "\<exists>c' s'. foreign_calls \<lparr>so_sendHeaders = sendHeaders, so_writeBody = writeBody, so_finishBody = finishBody\<rparr> fs c s =
      Some (fst (spec_calls fs sp), c', s') \<and> stream_rel carries delivered s0 (snd (spec_calls fs sp)) c' s'"
  using assms
proof (induction fs arbitrary: sp c s)
  case (Cons f fs)
  obtain r sp1 where sp1: "spec_call f sp = (r, sp1)" by fastforce
  from foreign_refines [OF Cons.prems(1,2), of f] Cons.prems(3) sp1 obtain c1 s1 where
    1: "foreign_function \<lparr>so_sendHeaders = sendHeaders, so_writeBody = writeBody, so_finishBody = finishBody\<rparr> f c s = Some (r, c1, s1)"
      "stream_rel carries delivered s0 sp1 c1 s1" by auto
  from Cons.IH [OF 1(2) Cons.prems(2)] Cons.prems(3) obtain c2 s2 where
    "foreign_calls \<lparr>so_sendHeaders = sendHeaders, so_writeBody = writeBody, so_finishBody = finishBody\<rparr> fs c1 s1 =
      Some (fst (spec_calls fs sp1), c2, s2)" "stream_rel carries delivered s0 (snd (spec_calls fs sp1)) c2 s2" by auto
  with 1 sp1 show ?case by (simp add: split_beta)
qed simp

end

definition http_sink_ops :: "HttpResponseSink sink_ops" where
  "http_sink_ops = \<lparr>so_sendHeaders = (\<lambda>st hs b s. Some (http_sendHeaders st hs b s)), so_writeBody = (\<lambda>d s. Some (http_writeBody d s)),
    so_finishBody = (\<lambda>s. Some (http_finishBody s))\<rparr>"

definition lsapi_sink_ops :: "LsapiResponseSink sink_ops" where
  "lsapi_sink_ops = \<lparr>so_sendHeaders = lsapi_sendHeaders, so_writeBody = lsapi_writeBody, so_finishBody = lsapi_finishBody\<rparr>"


abbreviation (input) sample_calls :: "foreign_call list" where
  "sample_calls \<equiv> [FF_chunk [9], FF_headers (u32_bytes 200 @ marshal_pairs []), FF_chunk [1], FF_headers [], FF_chunk [2], FF_finish, FF_finish]"


subsection \<open>Header maps as multimaps\<close>

text \<open>What a filter may rely on when it edits headers: the list of values of each name.\<close>

locale header_store =
  fixes vals :: "str \<Rightarrow> 's \<Rightarrow> str list" and add :: "str \<Rightarrow> str \<Rightarrow> 's \<Rightarrow> 's" and replace :: "str \<Rightarrow> str \<Rightarrow> 's \<Rightarrow> 's"
    and remove :: "str \<Rightarrow> 's \<Rightarrow> 's"
  assumes vals_add: "vals k' (add k v m) = vals k' m @ (if header_name_eq k k' then [v] else [])"
    and vals_replace: "vals k' (replace k v m) = (if header_name_eq k k' then [v] else vals k' m)"
    and vals_remove: "vals k' (remove k m) = (if header_name_eq k k' then [] else vals k' m)"
begin

lemma replace_as_remove_add: "vals k' (replace k v m) = vals k' (add k v (remove k m))"
  by (simp add: vals_add vals_replace vals_remove)

lemma replace_last: "vals k' (replace k v (replace k w m)) = vals k' (replace k v m)"
  by (simp add: vals_replace)

lemma remove_gone: "vals k (remove k m) = []"
  by (simp add: vals_remove)

end

definition header_values :: "WasmHeaderMapType \<Rightarrow> str \<Rightarrow> LsWasmContext \<Rightarrow> str list" where
  "header_values t key c = map snd (filter (\<lambda>p. header_name_eq (fst p) key) (header_map t c))"

lemma header_name_eq_trans: "header_name_eq a b \<Longrightarrow> header_name_eq a c \<longleftrightarrow> header_name_eq b c"
  by (simp add: header_name_eq_iff)

lemma filter_drop_name:
  "map snd (filter (\<lambda>p. header_name_eq (fst p) k') (drop_name k ps)) =
    (if header_name_eq k k' then [] else map snd (filter (\<lambda>p. header_name_eq (fst p) k') ps))"
  by (auto simp: drop_name_def filter_empty_conv header_name_eq_iff intro!: arg_cong [of _ _ "map snd"] filter_cong)

lemma header_map_updates:
  "header_map t' (snd (addHeaderMapValue t k v c)) = (if t' = t then header_map t c @ [(k, v)] else header_map t' c)"
  "header_map t' (snd (replaceHeaderMapValue t k v c)) = (if t' = t then drop_name k (header_map t c) @ [(k, v)] else header_map t' c)"
  "header_map t' (snd (removeHeaderMapValue t k c)) = (if t' = t then drop_name k (header_map t c) else header_map t' c)"
  by (auto simp: header_map_def addHeaderMapValue_def replaceHeaderMapValue_def removeHeaderMapValue_def drop_name_def split: option.split)

interpretation maps: header_store "header_values t" "\<lambda>k v c. snd (addHeaderMapValue t k v c)"
  "\<lambda>k v c. snd (replaceHeaderMapValue t k v c)" "\<lambda>k c. snd (removeHeaderMapValue t k c)" for t
  by unfold_locales (simp_all add: header_values_def header_map_updates filter_drop_name)

lemma first_value_values: "first_value key ps = (case filter (\<lambda>p. header_name_eq (fst p) key) ps of [] \<Rightarrow> None | p # _ \<Rightarrow> Some (snd p))"
  by (induction key ps rule: first_value.induct) auto

text \<open>
  C15. The header maps of a context behave as multimaps with case-insensitive names: adding
  appends a value, replacing leaves exactly the new one, removing leaves none; other names and
  the maps of other types keep their values; a lookup returns the first value. A name without a
  value is answered with \<open>Ok\<close> and the empty string.
\<close>
theorem header_map_laws:
  "header_values t' k' (snd (addHeaderMapValue t k v c)) =
      header_values t' k' c @ (if t' = t \<and> header_name_eq k k' then [v] else []) \<and>
    header_values t' k' (snd (replaceHeaderMapValue t k v c)) =
      (if t' = t \<and> header_name_eq k k' then [v] else header_values t' k' c) \<and>
    header_values t' k' (snd (removeHeaderMapValue t k c)) =
      (if t' = t \<and> header_name_eq k k' then [] else header_values t' k' c) \<and>
    getHeaderMapValue t' k' c = (Ok, case header_values t' k' c of [] \<Rightarrow> [] | w # _ \<Rightarrow> w)"
proof -
  have "getHeaderMapValue t' k' c = (Ok, case header_values t' k' c of [] \<Rightarrow> [] | w # _ \<Rightarrow> w)"
    by (auto simp: getHeaderMapValue_def header_values_def header_map_def first_value_values split: option.split list.split)
  moreover have "header_values t' k' (snd (addHeaderMapValue t k v c)) = header_values t' k' c @ (if t' = t \<and> header_name_eq k k' then [v] else [])"
    by (cases "t' = t") (simp_all add: maps.vals_add, simp add: header_values_def header_map_updates)
  moreover have "header_values t' k' (snd (replaceHeaderMapValue t k v c)) = (if t' = t \<and> header_name_eq k k' then [v] else header_values t' k' c)"
    by (cases "t' = t") (simp_all add: maps.vals_replace, simp add: header_values_def header_map_updates)
  moreover have "header_values t' k' (snd (removeHeaderMapValue t k c)) = (if t' = t \<and> header_name_eq k k' then [] else header_values t' k' c)"
    by (cases "t' = t") (simp_all add: maps.vals_remove, simp add: header_values_def header_map_updates)
  ultimately show ?thesis by blast
qed

end
