(* ===== verification/Metric_Store.thy ===== *)
theory Metric_Store
  imports Wasm_Context "HOL-Library.Multiset"
begin

text \<open>
  \<open>MetricStore\<close> of wasm_module_manager.h. Identifiers are 32-bit words whose low two bits tell
  the kind of metric; values are 64-bit words, on which \<open>int64_t\<close> additions wrap. The map of
  metrics is the list of its entries in the order of the keys. Each method runs under the lock
  of the store, so that an execution is a sequence of calls.
\<close>

subsection \<open>State and operations\<close>

record MetricEntry =
  me_name :: str
  me_type :: uint32
  me_value :: "64 word"

record MetricStore =
  ms_metrics :: "(uint32 \<times> MetricEntry) list"
  ms_next_counter_id :: uint32
  ms_next_gauge_id :: uint32
  ms_next_histogram_id :: uint32

definition new_metrics :: MetricStore where
  "new_metrics = \<lparr>ms_metrics = [], ms_next_counter_id = 0, ms_next_gauge_id = 1, ms_next_histogram_id = 2\<rparr>"

definition kIdIncrement :: uint32 where "kIdIncrement = 4"

definition nextIdForType :: "uint32 \<Rightarrow> MetricStore \<Rightarrow> uint32" where
  "nextIdForType t ms =
    (if t = 0 then ms_next_counter_id ms else if t = 1 then ms_next_gauge_id ms
     else if t = 2 then ms_next_histogram_id ms else ms_next_counter_id ms)"

definition bumpIdForType :: "uint32 \<Rightarrow> MetricStore \<Rightarrow> MetricStore" where
  "bumpIdForType t ms =
    (if t = 1 then ms\<lparr>ms_next_gauge_id := ms_next_gauge_id ms + kIdIncrement\<rparr>
     else if t = 2 then ms\<lparr>ms_next_histogram_id := ms_next_histogram_id ms + kIdIncrement\<rparr>
     else ms\<lparr>ms_next_counter_id := ms_next_counter_id ms + kIdIncrement\<rparr>)"

text \<open>\<open>std::map::emplace\<close> changes nothing when the key exists.\<close>

definition emplace :: "uint32 \<Rightarrow> MetricEntry \<Rightarrow> MetricStore \<Rightarrow> MetricStore" where
  "emplace i e ms =
    (if i \<in> fst ` set (ms_metrics ms) then ms else ms\<lparr>ms_metrics := insort_key fst (i, e) (ms_metrics ms)\<rparr>)"

definition metric_define :: "uint32 \<Rightarrow> str \<Rightarrow> MetricStore \<Rightarrow> WasmResult \<times> uint32 option \<times> MetricStore" where
  "metric_define t name ms =
    (case find (\<lambda>(i, e). me_name e = name) (ms_metrics ms) of
       Some (i, e) \<Rightarrow> if me_type e \<noteq> t then (BadArgument, None, ms) else (Ok, Some i, ms)
     | None \<Rightarrow>
         (let i = nextIdForType t ms
          in (Ok, Some i, emplace i \<lparr>me_name = name, me_type = t, me_value = 0\<rparr> (bumpIdForType t ms))))"

definition metric_lookup :: "uint32 \<Rightarrow> MetricStore \<Rightarrow> MetricEntry option" where
  "metric_lookup i ms = map_of (ms_metrics ms) i"

definition set_value :: "uint32 \<Rightarrow> ('v \<Rightarrow> 'v) \<Rightarrow> (uint32 \<times> 'v) list \<Rightarrow> (uint32 \<times> 'v) list" where
  "set_value i f ms = map (\<lambda>(j, e). (j, if j = i then f e else e)) ms"

definition metric_increment :: "uint32 \<Rightarrow> 64 word \<Rightarrow> MetricStore \<Rightarrow> WasmResult \<times> MetricStore" where
  "metric_increment i offset ms =
    (case metric_lookup i ms of None \<Rightarrow> (NotFound, ms)
     | Some _ \<Rightarrow> (Ok, ms\<lparr>ms_metrics := set_value i (\<lambda>e. e\<lparr>me_value := me_value e + offset\<rparr>) (ms_metrics ms)\<rparr>))"

definition metric_record :: "uint32 \<Rightarrow> 64 word \<Rightarrow> MetricStore \<Rightarrow> WasmResult \<times> MetricStore" where
  "metric_record i val ms =
    (case metric_lookup i ms of None \<Rightarrow> (NotFound, ms)
     | Some e \<Rightarrow>
         (Ok, ms\<lparr>ms_metrics := set_value i (\<lambda>e. e\<lparr>me_value := (if me_type e = 1 then val else me_value e + val)\<rparr>) (ms_metrics ms)\<rparr>))"

definition metric_get :: "uint32 \<Rightarrow> MetricStore \<Rightarrow> WasmResult \<times> 64 word option" where
  "metric_get i ms =
    (case metric_lookup i ms of None \<Rightarrow> (NotFound, None) | Some e \<Rightarrow> (Ok, Some (me_value e)))"

text \<open>
  The methods of the context delegate to the store of its \<open>LsWasm\<close>; \<open>None\<close> stands for a context
  whose VM is not one.
\<close>

definition defineMetric :: "uint32 \<Rightarrow> str \<Rightarrow> MetricStore option \<Rightarrow> WasmResult \<times> uint32 option \<times> MetricStore option" where
  "defineMetric t name lw =
    (case lw of None \<Rightarrow> (InternalFailure, None, None) | Some ms \<Rightarrow> (case metric_define t name ms of (r, i, ms) \<Rightarrow> (r, i, Some ms)))"

definition incrementMetric :: "uint32 \<Rightarrow> 64 word \<Rightarrow> MetricStore option \<Rightarrow> WasmResult \<times> MetricStore option" where
  "incrementMetric i offset lw =
    (case lw of None \<Rightarrow> (InternalFailure, None) | Some ms \<Rightarrow> map_prod id Some (metric_increment i offset ms))"

definition recordMetric :: "uint32 \<Rightarrow> 64 word \<Rightarrow> MetricStore option \<Rightarrow> WasmResult \<times> MetricStore option" where
  "recordMetric i val lw =
    (case lw of None \<Rightarrow> (InternalFailure, None) | Some ms \<Rightarrow> map_prod id Some (metric_record i val ms))"

definition getMetric :: "uint32 \<Rightarrow> MetricStore option \<Rightarrow> WasmResult \<times> 64 word option" where
  "getMetric i lw = (case lw of None \<Rightarrow> (InternalFailure, None) | Some ms \<Rightarrow> metric_get i ms)"

subsection \<open>Calls\<close>

datatype metric_call = Define uint32 str | Increment uint32 "64 word" | Record uint32 "64 word"

fun do_metric :: "metric_call \<Rightarrow> MetricStore \<Rightarrow> MetricStore" where
  "do_metric (Define t name) ms = snd (snd (metric_define t name ms))"
| "do_metric (Increment i offset) ms = snd (metric_increment i offset ms)"
| "do_metric (Record i val) ms = snd (metric_record i val ms)"

definition metric_calls :: "metric_call list \<Rightarrow> MetricStore \<Rightarrow> MetricStore" where
  "metric_calls cs ms = fold do_metric cs ms"

subsection \<open>Identifiers\<close>

text \<open>The kind of an identifier: types other than gauge and histogram count as counters.\<close>

definition kind_of :: "uint32 \<Rightarrow> nat" where
  "kind_of t = (if t = 1 then 1 else if t = 2 then 2 else 0)"

definition next_ids :: "(nat \<Rightarrow> nat) \<Rightarrow> MetricStore \<Rightarrow> bool" where
  "next_ids n ms \<longleftrightarrow> ms_next_counter_id ms = of_nat (4 * n 0) \<and> ms_next_gauge_id ms = of_nat (4 * n 1 + 1) \<and>
    ms_next_histogram_id ms = of_nat (4 * n 2 + 2)"

definition metric_inv :: "(nat \<Rightarrow> nat) \<Rightarrow> MetricStore \<Rightarrow> bool" where
  "metric_inv n ms \<longleftrightarrow> next_ids n ms \<and> n 0 + n 1 + n 2 = length (ms_metrics ms) \<and>
    distinct (map fst (ms_metrics ms)) \<and> distinct (map (me_name \<circ> snd) (ms_metrics ms)) \<and>
    (\<forall>(i, e)\<in>set (ms_metrics ms). \<exists>k<n (kind_of (me_type e)). i = of_nat (4 * k + kind_of (me_type e)))"

lemma kind_less: "kind_of t < 3"
  by (simp add: kind_of_def)

lemma next_id_eq: "next_ids n ms \<Longrightarrow> nextIdForType t ms = of_nat (4 * n (kind_of t) + kind_of t)"
  by (simp add: next_ids_def nextIdForType_def kind_of_def)

lemma bump_ids: "next_ids n ms \<Longrightarrow> next_ids (n(kind_of t := Suc (n (kind_of t)))) (bumpIdForType t ms)"
  by (auto simp: next_ids_def bumpIdForType_def kind_of_def kIdIncrement_def algebra_simps)

lemma word_unat_of_nat_32: "n < 2 ^ 32 \<Longrightarrow> unat (of_nat n :: uint32) = n"
  by (simp add: unat_of_nat take_bit_nat_eq_self)

lemma id_inj:
  assumes "(of_nat (4 * a + x) :: uint32) = of_nat (4 * b + y)" "x < 4" "y < 4" "a < 2 ^ 30" "b < 2 ^ 30"
  shows "a = b \<and> x = y"
proof -
  have "4 * a + x < 2 ^ 32" "4 * b + y < 2 ^ 32" using assms(2-5) by simp_all
  then have "4 * a + x = 4 * b + y" using assms(1) by (metis word_unat_of_nat_32)
  then show ?thesis using assms(2,3) by presburger
qed

lemma find_name:
  "find (\<lambda>(i, e). me_name e = name) ms = None \<longleftrightarrow> name \<notin> set (map (me_name \<circ> snd) ms)"
  by (induction ms) auto

lemma set_value_fst [simp]: "map fst (set_value i f ms) = map fst ms" "length (set_value i f ms) = length ms"
  by (induction ms) (auto simp: set_value_def)

lemma set_value_names:
  assumes "\<And>e. g (f e) = g e"
  shows "map (g \<circ> snd) (set_value i f ms) = map (g \<circ> snd) ms"
  using assms by (induction ms) (auto simp: set_value_def)

lemma metric_inv_value:
  assumes "metric_inv n ms" "\<And>e. me_name (f e) = me_name e \<and> me_type (f e) = me_type e"
  shows "metric_inv n (ms\<lparr>ms_metrics := set_value i f (ms_metrics ms)\<rparr>)"
proof -
  have "(\<exists>k<n (kind_of (me_type e)). j = of_nat (4 * k + kind_of (me_type e)))" if "(j, e) \<in> set (set_value i f (ms_metrics ms))" for j e
  proof -
    from that obtain e0 where "(j, e0) \<in> set (ms_metrics ms)" "e = (if j = i then f e0 else e0)" by (auto simp: set_value_def)
    then show ?thesis using assms by (fastforce simp: metric_inv_def)
  qed
  then show ?thesis using assms(1) set_value_names [of me_name f i "ms_metrics ms"] assms(2)
    by (auto simp: metric_inv_def next_ids_def)
qed

lemma metric_fresh:
  assumes inv: "metric_inv n ms" and len: "length (ms_metrics ms) < 2 ^ 30"
  shows "nextIdForType t ms \<notin> fst ` set (ms_metrics ms)"
proof
  assume "nextIdForType t ms \<in> fst ` set (ms_metrics ms)"
  then obtain e where e: "(nextIdForType t ms, e) \<in> set (ms_metrics ms)" by force
  let ?x = "kind_of t" and ?y = "kind_of (me_type e)"
  from e inv obtain k where k: "k < n ?y" "nextIdForType t ms = of_nat (4 * k + ?y)" by (auto simp: metric_inv_def)
  have "n ?x \<le> length (ms_metrics ms)" "n ?y \<le> length (ms_metrics ms)"
    using inv by (auto simp: metric_inv_def kind_of_def)
  then have b: "n ?x < 2 ^ 30" "k < 2 ^ 30" using len k(1) by simp_all
  have "(of_nat (4 * n ?x + ?x) :: uint32) = of_nat (4 * k + ?y)"
    using k(2) next_id_eq [of n ms t] inv by (simp add: metric_inv_def)
  from id_inj [OF this _ _ b] kind_less [of t] kind_less [of "me_type e"] k(1) show False by auto
qed

lemma distinct_map_insort: "distinct (map g (insort_key f p xs)) \<longleftrightarrow> distinct (map g (p # xs))"
  by (induction xs) (auto simp: set_insort_key)

lemma metric_new:
  assumes inv: "metric_inv n ms" and len: "length (ms_metrics ms) < 2 ^ 30" and name: "name \<notin> set (map (me_name \<circ> snd) (ms_metrics ms))"
  shows "metric_define t name ms = (Ok, Some (nextIdForType t ms), (bumpIdForType t ms)\<lparr>ms_metrics :=
      insort_key fst (nextIdForType t ms, \<lparr>me_name = name, me_type = t, me_value = 0\<rparr>) (ms_metrics ms)\<rparr>)"
    "metric_inv (n(kind_of t := Suc (n (kind_of t)))) (snd (snd (metric_define t name ms)))"
proof -
  let ?i = "nextIdForType t ms" and ?e = "\<lparr>me_name = name, me_type = t, me_value = 0\<rparr>" and ?x = "kind_of t"
  have m: "ms_metrics (bumpIdForType t ms) = ms_metrics ms" by (simp add: bumpIdForType_def)
  show eq: "metric_define t name ms = (Ok, Some ?i, (bumpIdForType t ms)\<lparr>ms_metrics := insort_key fst (?i, ?e) (ms_metrics ms)\<rparr>)"
    using name metric_fresh [OF inv len] by (simp add: metric_define_def find_name [THEN iffD2] emplace_def m Let_def)
  have b: "next_ids (n(?x := Suc (n ?x))) (bumpIdForType t ms)" using inv by (intro bump_ids) (simp add: metric_inv_def)
  have d: "distinct (map fst (insort_key fst (?i, ?e) (ms_metrics ms)))" "distinct (map (me_name \<circ> snd) (insort_key fst (?i, ?e) (ms_metrics ms)))"
    using inv name metric_fresh [OF inv len, of t] by (simp_all add: metric_inv_def distinct_map_insort)
  have "\<exists>k<(n(?x := Suc (n ?x))) (kind_of (me_type e)). j = of_nat (4 * k + kind_of (me_type e))"
    if "(j, e) \<in> set (insort_key fst (?i, ?e) (ms_metrics ms))" for j e
  proof (cases "(j, e) = (?i, ?e)")
    case True
    then show ?thesis using next_id_eq [of n ms t] inv by (intro exI [of _ "n ?x"]) (simp add: metric_inv_def)
  next
    case False
    then have "(j, e) \<in> set (ms_metrics ms)" using that by (auto simp: set_insort_key)
    then obtain k where "k < n (kind_of (me_type e))" "j = of_nat (4 * k + kind_of (me_type e))" using inv by (auto simp: metric_inv_def)
    then show ?thesis by (intro exI [of _ k]) auto
  qed
  moreover have "(n(?x := Suc (n ?x))) 0 + (n(?x := Suc (n ?x))) 1 + (n(?x := Suc (n ?x))) 2 = Suc (length (ms_metrics ms))"
    using inv by (auto simp: metric_inv_def kind_of_def)
  moreover have "next_ids (n(?x := Suc (n ?x))) ((bumpIdForType t ms)\<lparr>ms_metrics := x\<rparr>)" for x
    using b by (simp add: next_ids_def)
  ultimately show "metric_inv (n(?x := Suc (n ?x))) (snd (snd (metric_define t name ms)))"
    using d unfolding eq metric_inv_def by (simp del: fun_upd_apply) blast
qed

lemma metric_known:
  assumes "find (\<lambda>(i, e). me_name e = name) (ms_metrics ms) = Some (i, e)"
  shows "(i, e) \<in> set (ms_metrics ms) \<and> me_name e = name"
proof -
  have "find P xs = Some x \<Longrightarrow> x \<in> set xs \<and> P x" for P and x :: "uint32 \<times> MetricEntry" and xs
    by (induction xs) (auto split: if_splits)
  from this [OF assms] show ?thesis by simp
qed

lemma metric_call_inv:
  assumes inv: "metric_inv n ms" and len: "length (ms_metrics ms) < 2 ^ 30"
  shows "\<exists>n'. metric_inv n' (do_metric c ms) \<and> length (ms_metrics (do_metric c ms)) \<le> Suc (length (ms_metrics ms))"
proof (cases c)
  case (Define t name)
  show ?thesis
  proof (cases "name \<in> set (map (me_name \<circ> snd) (ms_metrics ms))")
    case True
    then have "do_metric c ms = ms" using Define find_name [of name "ms_metrics ms"]
      by (auto simp: metric_define_def split: option.splits)
    then show ?thesis using inv by auto
  next
    case False
    from metric_new [OF inv len False, of t] Define show ?thesis by auto
  qed
next
  case (Increment i offset)
  then show ?thesis using inv metric_inv_value [OF inv, of "\<lambda>e. e\<lparr>me_value := me_value e + offset\<rparr>" i]
    by (auto simp: metric_increment_def split: option.split)
next
  case (Record i val)
  then show ?thesis using inv metric_inv_value [OF inv, of "\<lambda>e. e\<lparr>me_value := (if me_type e = 1 then val else me_value e + val)\<rparr>" i]
    by (auto simp: metric_record_def split: option.split)
qed

lemma metric_calls_inv:
  assumes "length cs < 2 ^ 30"
  shows "\<exists>n. metric_inv n (metric_calls cs new_metrics) \<and> length (ms_metrics (metric_calls cs new_metrics)) \<le> length cs"
  using assms
proof (induction cs rule: rev_induct)
  case Nil
  show ?case by (intro exI [of _ "\<lambda>_. 0"]) (simp add: metric_calls_def new_metrics_def metric_inv_def next_ids_def)
next
  case (snoc c cs)
  then obtain n where n: "metric_inv n (metric_calls cs new_metrics)" "length (ms_metrics (metric_calls cs new_metrics)) \<le> length cs" by auto
  then have "length (ms_metrics (metric_calls cs new_metrics)) < 2 ^ 30" using snoc.prems by simp
  from metric_call_inv [OF n(1) this, of c] obtain n' where "metric_inv n' (do_metric c (metric_calls cs new_metrics))"
    "length (ms_metrics (do_metric c (metric_calls cs new_metrics))) \<le> Suc (length (ms_metrics (metric_calls cs new_metrics)))" by blast
  then show ?case using n(2) by (intro exI [of _ n']) (simp add: metric_calls_def)
qed

lemma map_of_insort: "fst p \<notin> fst ` set ms \<Longrightarrow> map_of (insort_key fst p ms) = (map_of ms)(fst p \<mapsto> snd p)"
  by (induction ms) (auto simp: fun_eq_iff)

lemma lookup_set_value: "map_of (set_value i f ms) j = (if j = i then map_option f (map_of ms j) else map_of ms j)"
  by (induction ms) (auto simp: set_value_def)

lemma lookup_increment:
  "metric_lookup j (snd (metric_increment i offset ms)) =
    (if j = i then map_option (\<lambda>e. e\<lparr>me_value := me_value e + offset\<rparr>) (metric_lookup j ms) else metric_lookup j ms)"
  by (simp add: metric_increment_def metric_lookup_def lookup_set_value split: option.split)

lemma lookup_record:
  "metric_lookup j (snd (metric_record i val ms)) =
    (if j = i then map_option (\<lambda>e. e\<lparr>me_value := (if me_type e = 1 then val else me_value e + val)\<rparr>) (metric_lookup j ms)
     else metric_lookup j ms)"
  by (simp add: metric_record_def metric_lookup_def lookup_set_value split: option.split)

lemma id_kind:
  assumes "k < 2 ^ 30" "x < 4"
  shows "unat (of_nat (4 * k + x) :: uint32) mod 4 = x"
proof -
  have "4 * k + x < 2 ^ 32" using assms by simp
  then show ?thesis using assms(2) word_unat_of_nat_32 [of "4 * k + x"] by (simp only:) presburger
qed

text \<open>
  C14. The metric store after any sequence of fewer than \<open>2 ^ 30\<close> calls: no two metrics share an
  identifier or a name. \<open>define\<close> of a known name returns its identifier when the type is the
  same, refuses it otherwise, and changes nothing; \<open>define\<close> of a new name returns an identifier
  that was not in use, whose low two bits tell the kind, with a metric of value 0 under it and
  the others unchanged. \<open>increment\<close> adds to one metric only, modulo \<open>2 ^ 64\<close>; \<open>record\<close> replaces
  the value of a gauge and adds to any other.
\<close>
theorem metric_store_correct:
  assumes "length cs < 2 ^ 30"
  shows "let ms = metric_calls cs new_metrics in
    distinct (map fst (ms_metrics ms)) \<and> distinct (map (me_name \<circ> snd) (ms_metrics ms)) \<and>
    (case find (\<lambda>(i, e). me_name e = name) (ms_metrics ms) of
       Some (i, e) \<Rightarrow> metric_lookup i ms = Some e \<and> me_name e = name \<and>
         metric_define t name ms = (if me_type e = t then (Ok, Some i, ms) else (BadArgument, None, ms))
     | None \<Rightarrow> (\<exists>i ms'. metric_define t name ms = (Ok, Some i, ms') \<and> metric_lookup i ms = None \<and> unat i mod 4 = kind_of t \<and>
         metric_lookup i ms' = Some \<lparr>me_name = name, me_type = t, me_value = 0\<rparr> \<and>
         (\<forall>j. j \<noteq> i \<longrightarrow> metric_lookup j ms' = metric_lookup j ms))) \<and>
    (\<forall>j. metric_lookup j (snd (metric_increment i offset ms)) =
       (if j = i then map_option (\<lambda>e. e\<lparr>me_value := me_value e + offset\<rparr>) (metric_lookup j ms) else metric_lookup j ms)) \<and>
    (\<forall>j. metric_lookup j (snd (metric_record i val ms)) =
       (if j = i then map_option (\<lambda>e. e\<lparr>me_value := (if me_type e = 1 then val else me_value e + val)\<rparr>) (metric_lookup j ms)
        else metric_lookup j ms))"
proof -
  let ?ms = "metric_calls cs new_metrics"
  obtain n where inv: "metric_inv n ?ms" and "length (ms_metrics ?ms) \<le> length cs" using metric_calls_inv [OF assms] by blast
  then have len: "length (ms_metrics ?ms) < 2 ^ 30" using assms by simp
  have d: "distinct (map fst (ms_metrics ?ms))" "distinct (map (me_name \<circ> snd) (ms_metrics ?ms))" using inv by (simp_all add: metric_inv_def)
  have known: "metric_lookup i ?ms = Some e \<and> me_name e = name \<and>
      metric_define t name ?ms = (if me_type e = t then (Ok, Some i, ?ms) else (BadArgument, None, ?ms))"
    if "find (\<lambda>(i, e). me_name e = name) (ms_metrics ?ms) = Some (i, e)" for i e
    using metric_known [OF that] that d(1) by (simp add: metric_lookup_def metric_define_def)
  have new: "\<exists>i ms'. metric_define t name ?ms = (Ok, Some i, ms') \<and> metric_lookup i ?ms = None \<and> unat i mod 4 = kind_of t \<and>
      metric_lookup i ms' = Some \<lparr>me_name = name, me_type = t, me_value = 0\<rparr> \<and>
      (\<forall>j. j \<noteq> i \<longrightarrow> metric_lookup j ms' = metric_lookup j ?ms)"
    if "find (\<lambda>(i, e). me_name e = name) (ms_metrics ?ms) = None"
  proof -
    have name: "name \<notin> set (map (me_name \<circ> snd) (ms_metrics ?ms))" using that by (simp only: find_name not_False_eq_True)
    let ?i = "nextIdForType t ?ms"
    have fresh: "?i \<notin> fst ` set (ms_metrics ?ms)" by (rule metric_fresh [OF inv len])
    have "n (kind_of t) \<le> length (ms_metrics ?ms)" using inv by (auto simp: metric_inv_def kind_of_def)
    then have "unat ?i mod 4 = kind_of t"
      using next_id_eq [of n ?ms t] id_kind [of "n (kind_of t)" "kind_of t"] kind_less [of t] len inv by (simp add: metric_inv_def)
    moreover have "metric_lookup ?i ?ms = None" using fresh by (simp add: metric_lookup_def map_of_eq_None_iff)
    ultimately show ?thesis using fresh
      by (auto simp: metric_new(1) [OF inv len name] metric_lookup_def map_of_insort)
  qed
  show ?thesis unfolding Let_def
  proof (intro conjI allI lookup_increment lookup_record d, cases "find (\<lambda>(i, e). me_name e = name) (ms_metrics ?ms)")
    case None
    then show "case find (\<lambda>(i, e). me_name e = name) (ms_metrics ?ms) of
       Some (i, e) \<Rightarrow> metric_lookup i ?ms = Some e \<and> me_name e = name \<and>
         metric_define t name ?ms = (if me_type e = t then (Ok, Some i, ?ms) else (BadArgument, None, ?ms))
     | None \<Rightarrow> (\<exists>i ms'. metric_define t name ?ms = (Ok, Some i, ms') \<and> metric_lookup i ?ms = None \<and> unat i mod 4 = kind_of t \<and>
         metric_lookup i ms' = Some \<lparr>me_name = name, me_type = t, me_value = 0\<rparr> \<and>
         (\<forall>j. j \<noteq> i \<longrightarrow> metric_lookup j ms' = metric_lookup j ?ms))"
      using new by (simp only: option.case)
  next
    case (Some p)
    then show "case find (\<lambda>(i, e). me_name e = name) (ms_metrics ?ms) of
       Some (i, e) \<Rightarrow> metric_lookup i ?ms = Some e \<and> me_name e = name \<and>
         metric_define t name ?ms = (if me_type e = t then (Ok, Some i, ?ms) else (BadArgument, None, ?ms))
     | None \<Rightarrow> (\<exists>i ms'. metric_define t name ?ms = (Ok, Some i, ms') \<and> metric_lookup i ?ms = None \<and> unat i mod 4 = kind_of t \<and>
         metric_lookup i ms' = Some \<lparr>me_name = name, me_type = t, me_value = 0\<rparr> \<and>
         (\<forall>j. j \<noteq> i \<longrightarrow> metric_lookup j ms' = metric_lookup j ?ms))"
      using known by (cases p) (simp only: option.case prod.case)
  qed
qed

theorem metric_store_correct_witness:
  "\<exists>i ms'. metric_define 1 (ascii ''b'') (metric_calls [Define 0 (ascii ''a'')] new_metrics) = (Ok, Some i, ms') \<and>
    unat i mod 4 = 1 \<and> metric_lookup i (metric_calls [Define 0 (ascii ''a'')] new_metrics) = None"
proof -
  have "find (\<lambda>(i, e). me_name e = ascii ''b'') (ms_metrics (metric_calls [Define 0 (ascii ''a'')] new_metrics)) = None"
    by (simp add: metric_calls_def metric_define_def new_metrics_def nextIdForType_def bumpIdForType_def emplace_def ascii_def Let_def)
  moreover note metric_store_correct [where cs = "[Define 0 (ascii ''a'')]" and name = "ascii ''b''" and t = 1 and i = 0 and offset = 0 and val = 0]
  ultimately show ?thesis unfolding Let_def by (auto simp: kind_of_def)
qed

end
