(* ===== verification/Module_Manager.thy ===== *)
theory Module_Manager
  imports Metric_Store "HOL-Library.List_Lexorder"
begin

text \<open>
  \<open>WasmModuleManager\<close> and its \<open>RequestScope\<close> (wasm_module_manager.cc and .h): loading a module,
  the registry of loaded modules, and the stream context that a request gets from one of them.
  The proxy-wasm library is a record of functions on an abstract state \<open>'v\<close> of the virtual
  machines; each of them may throw. The reader-writer lock makes each operation one step.
\<close>

subsection \<open>The library\<close>

datatype AbiVersion = Unknown | ProxyWasm_0_1_0 | ProxyWasm_0_2_0 | ProxyWasm_0_2_1

text \<open>The runtime the program was built with.\<close>

datatype wasm_runtime = Wasmtime | V8 | WasmEdge | Wamr | No_runtime

type_synonym wasm_envs = "str \<rightharpoonup> str"

record PluginBase =
  pb_name :: str
  pb_root_id :: str
  pb_vm_id :: str
  pb_engine :: str
  pb_plugin_configuration :: str
  pb_fail_open :: bool
  pb_key :: str

text \<open>The arguments of the constructor of \<open>LsWasm\<close> for a base VM.\<close>

record LsWasm =
  lw_runtime :: wasm_runtime
  lw_envs :: wasm_envs
  lw_vm_id :: str
  lw_vm_configuration :: str
  lw_vm_key :: str
  lw_metrics :: MetricStore

text \<open>The callbacks of a stream context: what \<open>ContextBase\<close> forwards to the module.\<close>

datatype wasm_callback = OnCreate | OnRequestHeaders nat bool | OnRequestBody nat bool | OnRequestTrailers nat
  | OnResponseHeaders nat bool | OnResponseBody nat bool | OnResponseTrailers nat | OnDone | OnDelete

text \<open>
  \<open>'h\<close> is a handle of a VM, \<open>'s\<close> a response sink; \<open>pw_isFailed\<close> also tells that a handle has no VM. \<open>pw_callback\<close> runs a callback of the module of
  a plugin on a context; the host functions that it calls change the context and the sink.
  \<open>None\<close> is a callback that does not return.
\<close>

record ('v, 'h, 's) proxy_wasm =
  pw_getAbiVersion :: "str \<Rightarrow> 'v \<Rightarrow> (str + AbiVersion option) \<times> 'v"
  pw_makeVmKey :: "str \<Rightarrow> str \<Rightarrow> str \<Rightarrow> str"
  pw_createWasm :: "str \<Rightarrow> str \<Rightarrow> PluginBase \<Rightarrow> (str \<Rightarrow> LsWasm option) \<Rightarrow> bool \<Rightarrow> 'v \<Rightarrow> (str + 'h option) \<times> 'v"
  pw_is_LsWasm :: "'h \<Rightarrow> 'v \<Rightarrow> bool"
  pw_start :: "'h \<Rightarrow> PluginBase \<Rightarrow> 'v \<Rightarrow> (str + nat option) \<times> 'v"
  pw_configure :: "'h \<Rightarrow> nat \<Rightarrow> PluginBase \<Rightarrow> 'v \<Rightarrow> (str + bool) \<times> 'v"
  pw_getOrCreateThreadLocalPlugin :: "'h \<Rightarrow> PluginBase \<Rightarrow> 'v \<Rightarrow> 'h option \<times> 'v"
  pw_isFailed :: "'h \<Rightarrow> 'v \<Rightarrow> bool"
  pw_getRootContext :: "'h \<Rightarrow> PluginBase \<Rightarrow> 'v \<Rightarrow> nat option"
  pw_callback :: "PluginBase \<Rightarrow> wasm_callback \<Rightarrow> LsWasmContext \<Rightarrow> 's \<Rightarrow> 'v \<Rightarrow> (LsWasmContext \<times> 's \<times> 'v) option"

subsection \<open>The registry\<close>

record 'h ModuleState =
  mst_base_handle :: 'h
  mst_plugin :: PluginBase

text \<open>\<open>modules_\<close> is a \<open>std::map\<close>: an association list sorted by name.\<close>

record 'h WasmModuleManager =
  mm_modules :: "(str \<times> 'h ModuleState) list"
  mm_envs :: wasm_envs

definition new_manager :: "'h WasmModuleManager" where
  "new_manager = \<lparr>mm_modules = [], mm_envs = Map.empty\<rparr>"

definition setEnvironmentVariables :: "wasm_envs \<Rightarrow> 'h WasmModuleManager \<Rightarrow> 'h WasmModuleManager" where
  "setEnvironmentVariables envs mm = mm\<lparr>mm_envs := envs\<rparr>"

definition hasModule :: "str \<Rightarrow> 'h WasmModuleManager \<Rightarrow> bool" where
  "hasModule module_name mm \<longleftrightarrow> map_of (mm_modules mm) module_name \<noteq> None"

definition getLoadedModules :: "'h WasmModuleManager \<Rightarrow> str list" where
  "getLoadedModules mm = map fst (mm_modules mm)"

definition unloadModule :: "str \<Rightarrow> 'h WasmModuleManager \<Rightarrow> bool \<times> 'h WasmModuleManager" where
  "unloadModule module_name mm =
    (if map_of (mm_modules mm) module_name = None then (False, mm)
     else (True, mm\<lparr>mm_modules := filter (\<lambda>(n, _). n \<noteq> module_name) (mm_modules mm)\<rparr>))"

text \<open>\<open>modules_[module_name] = state\<close>\<close>

definition set_module :: "str \<Rightarrow> 'h ModuleState \<Rightarrow> 'h WasmModuleManager \<Rightarrow> 'h WasmModuleManager" where
  "set_module module_name st mm =
    mm\<lparr>mm_modules := insort_key fst (module_name, st) (filter (\<lambda>(n, _). n \<noteq> module_name) (mm_modules mm))\<rparr>"

fun engine_name :: "wasm_runtime \<Rightarrow> str" where
  "engine_name Wasmtime = ascii ''wasmtime''"
| "engine_name V8 = ascii ''v8''"
| "engine_name WasmEdge = ascii ''wasmedge''"
| "engine_name Wamr = ascii ''wamr''"
| "engine_name No_runtime = []"

definition make_plugin :: "wasm_runtime \<Rightarrow> str \<Rightarrow> PluginBase" where
  "make_plugin rt module_name =
    \<lparr>pb_name = module_name, pb_root_id = [], pb_vm_id = module_name, pb_engine = engine_name rt,
     pb_plugin_configuration = [], pb_fail_open = False, pb_key = module_name\<rparr>"

definition wasm_handle_factory :: "wasm_runtime \<Rightarrow> wasm_envs \<Rightarrow> str \<Rightarrow> LsWasm option" where
  "wasm_handle_factory rt envs vm_key =
    (if rt = No_runtime then None
     else Some \<lparr>lw_runtime = rt, lw_envs = envs, lw_vm_id = vm_key, lw_vm_configuration = [], lw_vm_key = vm_key,
                lw_metrics = new_metrics\<rparr>)"

text \<open>A call inside the \<open>try\<close> block: an exception ends the load with \<open>false\<close>.\<close>

definition attempt ::
  "(str + 'a) \<times> 'v \<Rightarrow> 'm \<Rightarrow> ('a \<Rightarrow> 'v \<Rightarrow> bool \<times> 'm \<times> 'v) \<Rightarrow> bool \<times> 'm \<times> 'v" where
  "attempt r mm k = (case r of (Inl what, v) \<Rightarrow> (False, mm, v) | (Inr x, v) \<Rightarrow> k x v)"

definition loadModuleFromMemory ::
  "('v, 'h, 's) proxy_wasm \<Rightarrow> wasm_runtime \<Rightarrow> str \<Rightarrow> str \<Rightarrow> 'h WasmModuleManager \<Rightarrow> 'v \<Rightarrow> bool \<times> 'h WasmModuleManager \<times> 'v" where
  "loadModuleFromMemory pw rt code module_name mm v =
    (if map_of (mm_modules mm) module_name \<noteq> None then (False, mm, v)
     else attempt (pw_getAbiVersion pw code v) mm (\<lambda>abi v.
       case abi of
         None \<Rightarrow> (False, mm, v)
       | Some Unknown \<Rightarrow> (False, mm, v)
       | Some _ \<Rightarrow>
         (let plugin = make_plugin rt module_name; envs = mm_envs mm; vm_key = pw_makeVmKey pw module_name [] code
          in attempt (pw_createWasm pw vm_key code plugin (wasm_handle_factory rt envs) False v) mm (\<lambda>base_handle v.
            case base_handle of
              None \<Rightarrow> (False, mm, v)
            | Some h \<Rightarrow>
              if \<not> pw_is_LsWasm pw h v then (False, mm, v)
              else attempt (pw_start pw h plugin v) mm (\<lambda>root_context v.
                case root_context of
                  None \<Rightarrow> (False, mm, v)
                | Some root \<Rightarrow> attempt (pw_configure pw h root plugin v) mm (\<lambda>ok v.
                    if \<not> ok then (False, mm, v)
                    else (True, set_module module_name \<lparr>mst_base_handle = h, mst_plugin = plugin\<rparr> mm, v)))))))"

text \<open>The file: \<open>None\<close> when it cannot be opened, \<open>Some None\<close> when reading it fails.\<close>

definition loadModule ::
  "('v, 'h, 's) proxy_wasm \<Rightarrow> wasm_runtime \<Rightarrow> (str \<Rightarrow> str option option) \<Rightarrow> str \<Rightarrow> str \<Rightarrow> 'h WasmModuleManager \<Rightarrow> 'v \<Rightarrow>
    bool \<times> 'h WasmModuleManager \<times> 'v" where
  "loadModule pw rt read_file module_path module_name mm v =
    (case read_file module_path of
       None \<Rightarrow> (False, mm, v)
     | Some None \<Rightarrow> (False, mm, v)
     | Some (Some code) \<Rightarrow> loadModuleFromMemory pw rt code module_name mm v)"

subsection \<open>The stream context of a request\<close>

text \<open>The context pointer, with the plugin that its base class holds, and whether there is a plugin handle.\<close>

record RequestScope =
  rs_ctx :: "(PluginBase \<times> LsWasmContext) option"
  rs_plugin_handle :: bool
  rs_context_id :: nat

definition new_scope :: RequestScope where
  "new_scope = \<lparr>rs_ctx = None, rs_plugin_handle = False, rs_context_id = 0\<rparr>"

definition valid_scope :: "RequestScope \<Rightarrow> bool" where
  "valid_scope scope \<longleftrightarrow> rs_ctx scope \<noteq> None"

text \<open>\<open>LsWasm::createContext\<close>\<close>

definition createContext :: "PluginBase \<Rightarrow> LsWasmContext" where
  "createContext plugin =
    new_context\<lparr>lc_plugin_configuration := Some (pb_plugin_configuration plugin), lc_root_id := pb_root_id plugin\<rparr>"

definition scope_init ::
  "('v, 'h, 's) proxy_wasm \<Rightarrow> 'h ModuleState \<Rightarrow> nat \<Rightarrow> RequestScope \<Rightarrow> 's \<Rightarrow> 'v \<Rightarrow> (bool \<times> RequestScope \<times> 's \<times> 'v) option" where
  "scope_init pw st context_id scope s v =
    (case pw_getOrCreateThreadLocalPlugin pw (mst_base_handle st) (mst_plugin st) v of
       (None, v) \<Rightarrow> Some (False, scope\<lparr>rs_plugin_handle := False\<rparr>, s, v)
     | (Some h, v) \<Rightarrow>
       let scope = scope\<lparr>rs_plugin_handle := True\<rparr>
       in if pw_isFailed pw h v then Some (False, scope, s, v)
          else case pw_getRootContext pw h (mst_plugin st) v of
            None \<Rightarrow> Some (False, scope, s, v)
          | Some root \<Rightarrow> do {
              let c = setParentContext (Some root) (createContext (mst_plugin st));
              (c, s, v) \<leftarrow> pw_callback pw (mst_plugin st) OnCreate c s v;
              let c = resetHeaderMaps (resetLocalResponse c);
              Some (True, scope\<lparr>rs_ctx := Some (mst_plugin st, c), rs_context_id := context_id\<rparr>, s, v) })"

definition createRequestScope ::
  "('v, 'h, 's) proxy_wasm \<Rightarrow> 'h WasmModuleManager \<Rightarrow> str \<Rightarrow> nat \<Rightarrow> RequestScope \<Rightarrow> 's \<Rightarrow> 'v \<Rightarrow> (bool \<times> RequestScope \<times> 's \<times> 'v) option" where
  "createRequestScope pw mm module_name context_id scope s v =
    (case map_of (mm_modules mm) module_name of
       None \<Rightarrow> Some (False, scope, s, v)
     | Some st \<Rightarrow> scope_init pw st context_id scope s v)"

text \<open>The destructor of a scope.\<close>

definition destroy_scope ::
  "('v, 'h, 's) proxy_wasm \<Rightarrow> RequestScope \<Rightarrow> 's \<Rightarrow> 'v \<Rightarrow> ('s \<times> 'v) option" where
  "destroy_scope pw scope s v =
    (case rs_ctx scope of
       Some (plugin, c) \<Rightarrow> do {
         (c, s, v) \<leftarrow> pw_callback pw plugin OnDone c s v;
         (c, s, v) \<leftarrow> pw_callback pw plugin OnDelete c s v;
         Some (s, v) }
     | None \<Rightarrow> Some (s, v))"

subsection \<open>What the registry promises\<close>

text \<open>
  The contract of a registry of named items: \<open>names\<close> lists what \<open>find\<close> knows, in order and
  without repetition, and adding or removing an item changes one name only.
\<close>

locale registry =
  fixes items :: "'r \<Rightarrow> 'n::linorder \<rightharpoonup> 'm" and names :: "'r \<Rightarrow> 'n list"
    and put :: "'n \<Rightarrow> 'm \<Rightarrow> 'r \<Rightarrow> 'r" and del :: "'n \<Rightarrow> 'r \<Rightarrow> 'r" and ok :: "'r \<Rightarrow> bool"
  assumes names_items: "ok r \<Longrightarrow> sorted (names r) \<and> distinct (names r) \<and> set (names r) = dom (items r)"
    and put_items: "ok r \<Longrightarrow> ok (put n x r) \<and> items (put n x r) = (items r)(n \<mapsto> x)"
    and del_items: "ok r \<Longrightarrow> ok (del n r) \<and> items (del n r) = (items r)(n := None)"
begin

lemma names_eq: "ok r \<Longrightarrow> names r = sorted_list_of_set (dom (items r))"
  using names_items [of r] sorted_list_of_set.idem_if_sorted_distinct [of "names r"] by simp

lemma names_put: "ok r \<Longrightarrow> names (put n x r) = sorted_list_of_set (insert n (set (names r)))"
  using names_eq [of "put n x r"] put_items [of r n x] names_items [of r] by simp

lemma names_del: "ok r \<Longrightarrow> names (del n r) = remove1 n (names r)"
proof -
  assume r: "ok r"
  have "sorted (remove1 n (names r))" "distinct (remove1 n (names r))" "set (remove1 n (names r)) = set (names r) - {n}"
    using names_items [OF r] by (simp_all add: sorted_remove1)
  then have "remove1 n (names r) = sorted_list_of_set (set (names r) - {n})"
    using sorted_list_of_set.idem_if_sorted_distinct [of "remove1 n (names r)"] by simp
  also have "set (names r) - {n} = dom (items (del n r))" using names_items [OF r] del_items [OF r, of n] by auto
  finally show ?thesis using names_eq [of "del n r"] del_items [OF r, of n] by simp
qed

end

abbreviation module_map :: "'h WasmModuleManager \<Rightarrow> str \<rightharpoonup> 'h ModuleState" where
  "module_map mm \<equiv> map_of (mm_modules mm)"

definition manager_ok :: "'h WasmModuleManager \<Rightarrow> bool" where
  "manager_ok mm \<longleftrightarrow> sorted (map fst (mm_modules mm)) \<and> distinct (map fst (mm_modules mm))"

lemma filter_names: "map fst (filter (\<lambda>(n, _). n \<noteq> k) ps) = filter (\<lambda>n. n \<noteq> k) (map fst ps)"
  by (induction ps) auto

lemma map_of_filter_name: "map_of (filter (\<lambda>(n, _). n \<noteq> k) ps) = (map_of ps)(k := None)"
  by (induction ps) auto

lemma map_of_insort_new: "k \<notin> fst ` set ps \<Longrightarrow> map_of (insort_key fst (k, x) ps) = (map_of ps)(k \<mapsto> x)"
  by (induction ps) (auto simp: fun_upd_twist)

lemma names_insort: "set (map fst (insort_key fst (k, x) ps)) = insert k (set (map fst ps))"
  by (induction ps) auto

lemma distinct_names_insort: "k \<notin> fst ` set ps \<Longrightarrow> distinct (map fst ps) \<Longrightarrow> distinct (map fst (insort_key fst (k, x) ps))"
proof (induction ps)
  case (Cons p ps)
  then show ?case using names_insort [of k x ps] by auto
qed simp

interpretation modules: registry module_map getLoadedModules set_module "\<lambda>n mm. snd (unloadModule n mm)" manager_ok
proof (unfold_locales, goal_cases)
  case (1 r)
  then show ?case by (simp add: manager_ok_def getLoadedModules_def dom_map_of_conv_image_fst)
next
  case (2 r n x)
  let ?ps = "filter (\<lambda>(m, _). m \<noteq> n) (mm_modules r)"
  have ps: "sorted (map fst ?ps)" "distinct (map fst ?ps)" using 2 unfolding filter_names manager_ok_def
    by (simp_all add: sorted_filter [of id, simplified])
  have "n \<notin> fst ` set ?ps" by auto
  then show ?case using ps
    by (simp add: manager_ok_def set_module_def sorted_insort_key distinct_names_insort map_of_insort_new map_of_filter_name)
next
  case (3 r n)
  then show ?case
    by (auto simp: manager_ok_def unloadModule_def filter_names map_of_filter_name fun_upd_idem_iff
        sorted_filter [of id, simplified])
qed


subsection \<open>Sequences of loads and unloads\<close>

datatype manager_call = Load str str | Unload str

fun do_manager :: "('v, 'h, 's) proxy_wasm \<Rightarrow> wasm_runtime \<Rightarrow> manager_call \<Rightarrow> 'h WasmModuleManager \<times> 'v \<Rightarrow> 'h WasmModuleManager \<times> 'v" where
  "do_manager pw rt (Load code module_name) (mm, v) = snd (loadModuleFromMemory pw rt code module_name mm v)"
| "do_manager pw rt (Unload module_name) (mm, v) = (snd (unloadModule module_name mm), v)"

definition manager_calls ::
  "('v, 'h, 's) proxy_wasm \<Rightarrow> wasm_runtime \<Rightarrow> manager_call list \<Rightarrow> 'h WasmModuleManager \<times> 'v \<Rightarrow> 'h WasmModuleManager \<times> 'v" where
  "manager_calls pw rt cs st = foldl (\<lambda>st c. do_manager pw rt c st) st cs"

lemma attempt_cases:
  assumes "attempt r mm k = (ok, mm', v')"
  shows "(\<exists>x v. r = (Inr x, v) \<and> k x v = (ok, mm', v')) \<or> (\<not> ok \<and> mm' = mm)"
  using assms unfolding attempt_def by (auto split: prod.splits sum.splits)

lemma load_cases:
  assumes "loadModuleFromMemory pw rt code name mm v = (ok, mm', v')"
  shows "if ok then \<not> hasModule name mm \<and>
      (\<exists>abi v1. pw_getAbiVersion pw code v = (Inr (Some abi), v1) \<and> abi \<noteq> Unknown) \<and>
      (\<exists>h. mm' = set_module name \<lparr>mst_base_handle = h, mst_plugin = make_plugin rt name\<rparr> mm)
    else mm' = mm"
  using assms unfolding loadModuleFromMemory_def Let_def hasModule_def
  by (auto split: if_splits option.splits AbiVersion.splits dest!: attempt_cases; blast)

lemma manager_calls_ok: "manager_ok mm \<Longrightarrow> manager_ok (fst (manager_calls pw rt cs (mm, v)))"
proof (induction cs arbitrary: mm v)
  case (Cons c cs)
  obtain mm1 v1 where c: "do_manager pw rt c (mm, v) = (mm1, v1)" by fastforce
  have "manager_ok mm1"
  proof (cases c)
    case (Load code name)
    obtain ok where "loadModuleFromMemory pw rt code name mm v = (ok, mm1, v1)" using c Load by (cases "loadModuleFromMemory pw rt code name mm v") auto
    from load_cases [OF this] show ?thesis using modules.put_items [OF Cons.prems] Cons.prems by (auto split: if_splits)
  next
    case (Unload name)
    then show ?thesis using c modules.del_items [OF Cons.prems, of name] by auto
  qed
  from Cons.IH [OF this, of v1] c show ?case by (simp add: manager_calls_def)
qed (simp add: manager_calls_def)

text \<open>
  C40. The registry of modules after any sequence of loads and unloads, whatever the library
  answers or throws. \<open>getLoadedModules\<close> lists the loaded names in order, each once. A load that
  fails leaves the registry as it was; a load that succeeds was of a new name and of bytecode
  with a known ABI version, and adds exactly that name with its plugin. Unloading succeeds for
  the loaded names and removes one. A name that is not loaded gets no request scope.
\<close>
theorem module_registry:
  fixes pw :: "('v, 'h, 's) proxy_wasm"
  shows "let (mm, v) = manager_calls pw rt cs (new_manager\<lparr>mm_envs := envs\<rparr>, v0) in
    getLoadedModules mm = sorted_list_of_set {n. hasModule n mm} \<and>
    (case loadModuleFromMemory pw rt code name mm v of (ok, mm', v') \<Rightarrow>
      if ok then \<not> hasModule name mm \<and> (\<exists>abi. fst (pw_getAbiVersion pw code v) = Inr (Some abi) \<and> abi \<noteq> Unknown) \<and>
        getLoadedModules mm' = sorted_list_of_set (insert name (set (getLoadedModules mm))) \<and>
        (\<exists>h. module_map mm' = (module_map mm)(name \<mapsto> \<lparr>mst_base_handle = h, mst_plugin = make_plugin rt name\<rparr>))
      else mm' = mm) \<and>
    fst (unloadModule name mm) = hasModule name mm \<and>
    getLoadedModules (snd (unloadModule name mm)) = remove1 name (getLoadedModules mm) \<and>
    (if hasModule name mm then True else createRequestScope pw mm name i scope s v = Some (False, scope, s, v))"
proof -
  obtain mm v where mm: "manager_calls pw rt cs (new_manager\<lparr>mm_envs := envs\<rparr>, v0) = (mm, v)" by fastforce
  have "manager_ok (new_manager\<lparr>mm_envs := envs\<rparr>)" by (simp add: manager_ok_def new_manager_def)
  from manager_calls_ok [OF this, of pw rt cs v0] have ok: "manager_ok mm" using mm by simp
  obtain b mm' v' where l: "loadModuleFromMemory pw rt code name mm v = (b, mm', v')" by (cases "loadModuleFromMemory pw rt code name mm v") auto
  have names: "getLoadedModules mm = sorted_list_of_set {n. hasModule n mm}"
    using modules.names_eq [OF ok] by (simp add: hasModule_def dom_def)
  have load: "if b then \<not> hasModule name mm \<and> (\<exists>abi. fst (pw_getAbiVersion pw code v) = Inr (Some abi) \<and> abi \<noteq> Unknown) \<and>
      getLoadedModules mm' = sorted_list_of_set (insert name (set (getLoadedModules mm))) \<and>
      (\<exists>h. module_map mm' = (module_map mm)(name \<mapsto> \<lparr>mst_base_handle = h, mst_plugin = make_plugin rt name\<rparr>)) else mm' = mm"
    using load_cases [OF l] modules.names_put [OF ok, of name] modules.put_items [OF ok, of name] by (auto split: if_splits)
  show ?thesis unfolding Let_def mm prod.case l using names load modules.names_del [OF ok, of name]
    by (auto simp: unloadModule_def hasModule_def createRequestScope_def)
qed

end
