(* ===== verification/Http_Filter.thy ===== *)
theory Http_Filter
  imports Module_Manager Http_Parse
begin

text \<open>
  \<open>HttpFilterContext\<close> (http_filter.h): the phases of a request, each run through the modules of
  the filter chain in their order until one of them sends a local response. The state of the
  worker is the \<open>HttpData\<close> that the context points to, the context itself, the response sink
  and the virtual machines.
\<close>

subsection \<open>State\<close>

text \<open>\<open>scopes_\<close> is a \<open>std::map\<close>: an association list sorted by name.\<close>

record HttpFilterContext =
  fc_context_id :: nat
  fc_sink :: bool
  fc_module_order :: "str list"
  fc_scopes :: "(str \<times> RequestScope) list"

record ('s, 'v) filter_state =
  fs_data :: HttpData
  fs_ctx :: HttpFilterContext
  fs_sink :: 's
  fs_vm :: 'v

definition new_filter :: "nat \<Rightarrow> HttpFilterContext" where
  "new_filter context_id = \<lparr>fc_context_id = context_id, fc_sink = False, fc_module_order = [], fc_scopes = []\<rparr>"

definition filter_setResponseSink :: "bool \<Rightarrow> HttpFilterContext \<Rightarrow> HttpFilterContext" where
  "filter_setResponseSink sink fc = fc\<lparr>fc_sink := sink\<rparr>"

definition scope_test :: "(LsWasmContext \<Rightarrow> bool) \<Rightarrow> HttpFilterContext \<Rightarrow> bool" where
  "scope_test P fc = list_ex (\<lambda>(name, scope). case rs_ctx scope of Some (_, c) \<Rightarrow> P c | None \<Rightarrow> False) (fc_scopes fc)"

definition filter_hasStreamingResponse :: "HttpFilterContext \<Rightarrow> bool" where
  "filter_hasStreamingResponse fc = scope_test hasStreamingResponse fc"

definition filter_isStreamingFinished :: "HttpFilterContext \<Rightarrow> bool" where
  "filter_isStreamingFinished fc = scope_test isStreamingFinished fc"

subsection \<open>Headers for the modules, and local responses\<close>

definition has_name :: "str \<Rightarrow> HeaderPairs \<Rightarrow> bool" where
  "has_name name hdrs = list_ex (\<lambda>p. header_name_eq (fst p) name) hdrs"

definition synthesizePseudoHeaders :: "HttpData \<Rightarrow> HttpData" where
  "synthesizePseudoHeaders d =
    (let hdrs = hd_request_headers d;
         pseudo =
           (if \<not> has_name (ascii '':method'') hdrs \<and> hd_method d \<noteq> [] then [(ascii '':method'', hd_method d)] else []) @
           (if \<not> has_name (ascii '':path'') hdrs \<and> hd_path d \<noteq> [] then [(ascii '':path'', hd_path d)] else []) @
           (if \<not> has_name (ascii '':scheme'') hdrs then [(ascii '':scheme'', ascii ''http'')] else []) @
           (if \<not> has_name (ascii '':authority'') hdrs
            then [(ascii '':authority'', case first_value (ascii ''Host'') hdrs of Some h \<Rightarrow> h | None \<Rightarrow> ascii ''localhost'')] else [])
     in if pseudo = [] then d else d\<lparr>hd_request_headers := pseudo @ hdrs\<rparr>)"

definition checkLocalResponse :: "RequestScope \<Rightarrow> HttpData \<Rightarrow> HttpData" where
  "checkLocalResponse scope d =
    (case rs_ctx scope of
       Some (_, c) \<Rightarrow>
         if lc_has_local_response c
         then d\<lparr>hd_has_local_response := True, hd_local_response_code := lc_local_response_code c,
                hd_local_response_body := lc_local_response_body c,
                hd_local_response_additional_headers := lc_local_response_headers c\<rparr>
         else d
     | None \<Rightarrow> d)"

subsection \<open>Request headers\<close>

definition emplace_scope ::
  "('v, 'h, 's) proxy_wasm \<Rightarrow> str \<Rightarrow> RequestScope \<Rightarrow> ('s, 'v) filter_state \<Rightarrow> ('s, 'v) filter_state option" where
  "emplace_scope pw m scope fs =
    (if map_of (fc_scopes (fs_ctx fs)) m \<noteq> None
     then do { (s, v) \<leftarrow> destroy_scope pw scope (fs_sink fs) (fs_vm fs); Some (fs\<lparr>fs_sink := s, fs_vm := v\<rparr>) }
     else Some (fs\<lparr>fs_ctx := (fs_ctx fs)\<lparr>fc_scopes := insort_key fst (m, scope) (fc_scopes (fs_ctx fs))\<rparr>\<rparr>))"

text \<open>The loop over the loaded modules.\<close>

fun start_modules ::
  "('v, 'h, 's) proxy_wasm \<Rightarrow> 'h WasmModuleManager \<Rightarrow> bool \<Rightarrow> str list \<Rightarrow> ('s, 'v) filter_state \<Rightarrow> ('s, 'v) filter_state option" where
  "start_modules pw mm end_of_stream [] fs = Some fs"
| "start_modules pw mm end_of_stream (m # ms) fs = do {
    (ok, scope, s, v) \<leftarrow> createRequestScope pw mm m (fc_context_id (fs_ctx fs)) new_scope (fs_sink fs) (fs_vm fs);
    (if \<not> ok then start_modules pw mm end_of_stream ms (fs\<lparr>fs_sink := s, fs_vm := v\<rparr>)
     else do {
       (plugin, c) \<leftarrow> rs_ctx scope;
       let c = setResponseSink (fc_sink (fs_ctx fs)) c;
       let c = setHeaderMap RequestHeaders (hd_request_headers (fs_data fs)) c;
       (c, s, v) \<leftarrow> pw_callback pw plugin (OnRequestHeaders 0 end_of_stream) c s v;
       let scope = scope\<lparr>rs_ctx := Some (plugin, c)\<rparr>;
       let d = (fs_data fs)\<lparr>hd_request_headers := getHeaderMapOwned RequestHeaders c\<rparr>;
       let d = checkLocalResponse scope d;
       let fc = (fs_ctx fs)\<lparr>fc_module_order := fc_module_order (fs_ctx fs) @ [m]\<rparr>;
       fs \<leftarrow> emplace_scope pw m scope \<lparr>fs_data = d, fs_ctx = fc, fs_sink = s, fs_vm = v\<rparr>;
       (if hd_has_local_response (fs_data fs) then Some fs else start_modules pw mm end_of_stream ms fs) }) }"

text \<open>\<open>mm = None\<close> when there is no module manager.\<close>

definition onRequestHeaders ::
  "('v, 'h, 's) proxy_wasm \<Rightarrow> 'h WasmModuleManager option \<Rightarrow> bool \<Rightarrow> ('s, 'v) filter_state \<Rightarrow> ('s, 'v) filter_state option" where
  "onRequestHeaders pw mm end_of_stream fs =
    (let fs = fs\<lparr>fs_data := synthesizePseudoHeaders (fs_data fs)\<rparr>
     in case mm of Some mm \<Rightarrow> start_modules pw mm end_of_stream (getLoadedModules mm) fs | None \<Rightarrow> Some fs)"

subsection \<open>The later phases\<close>

text \<open>
  The loop that the later phases share: \<open>before\<close> prepares the context, \<open>after\<close> takes back from it
  what the phase lets a module change, and a local response is looked for.
\<close>

definition leave_module ::
  "(LsWasmContext \<Rightarrow> HttpData \<Rightarrow> HttpData) \<Rightarrow> str \<Rightarrow> RequestScope \<Rightarrow> LsWasmContext \<Rightarrow> 's \<Rightarrow> 'v \<Rightarrow> ('s, 'v) filter_state \<Rightarrow> ('s, 'v) filter_state" where
  "leave_module after m scope c s v fs =
    \<lparr>fs_data = checkLocalResponse scope (after c (fs_data fs)),
     fs_ctx = (fs_ctx fs)\<lparr>fc_scopes := map (\<lambda>(n, sc). if n = m then (n, scope) else (n, sc)) (fc_scopes (fs_ctx fs))\<rparr>,
     fs_sink = s, fs_vm = v\<rparr>"

definition run_module ::
  "('v, 'h, 's) proxy_wasm \<Rightarrow> wasm_callback \<Rightarrow> (HttpData \<Rightarrow> LsWasmContext \<Rightarrow> LsWasmContext) \<Rightarrow> (LsWasmContext \<Rightarrow> HttpData \<Rightarrow> HttpData) \<Rightarrow>
    str \<Rightarrow> ('s, 'v) filter_state \<Rightarrow> ('s, 'v) filter_state option" where
  "run_module pw cb before after m fs =
    (case map_of (fc_scopes (fs_ctx fs)) m of
       None \<Rightarrow> Some fs
     | Some scope \<Rightarrow>
       case rs_ctx scope of
         None \<Rightarrow> Some fs
       | Some (plugin, c) \<Rightarrow> do {
           let c = before (fs_data fs) c;
           (c, s, v) \<leftarrow> pw_callback pw plugin cb c (fs_sink fs) (fs_vm fs);
           Some (leave_module after m (scope\<lparr>rs_ctx := Some (plugin, c)\<rparr>) c s v fs) })"

fun run_modules ::
  "(str \<Rightarrow> ('s, 'v) filter_state \<Rightarrow> ('s, 'v) filter_state option) \<Rightarrow> str list \<Rightarrow> ('s, 'v) filter_state \<Rightarrow> ('s, 'v) filter_state option" where
  "run_modules run [] fs = Some fs"
| "run_modules run (m # ms) fs =
    (if hd_has_local_response (fs_data fs) then Some fs
     else do { fs \<leftarrow> run m fs; run_modules run ms fs })"

definition run_phase ::
  "('v, 'h, 's) proxy_wasm \<Rightarrow> wasm_callback \<Rightarrow> (HttpData \<Rightarrow> LsWasmContext \<Rightarrow> LsWasmContext) \<Rightarrow> (LsWasmContext \<Rightarrow> HttpData \<Rightarrow> HttpData) \<Rightarrow>
    ('s, 'v) filter_state \<Rightarrow> ('s, 'v) filter_state option" where
  "run_phase pw cb before after fs = run_modules (run_module pw cb before after) (fc_module_order (fs_ctx fs)) fs"

definition onRequestBody :: "('v, 'h, 's) proxy_wasm \<Rightarrow> bool \<Rightarrow> ('s, 'v) filter_state \<Rightarrow> ('s, 'v) filter_state option" where
  "onRequestBody pw end_of_stream fs =
    run_phase pw (OnRequestBody (length (hd_request_body (fs_data fs))) end_of_stream)
      (\<lambda>d c. setEndOfStream end_of_stream (setRequestBody (hd_request_body d) c)) (\<lambda>c d. d) fs"

definition onRequestTrailers :: "('v, 'h, 's) proxy_wasm \<Rightarrow> ('s, 'v) filter_state \<Rightarrow> ('s, 'v) filter_state option" where
  "onRequestTrailers pw fs = run_phase pw (OnRequestTrailers 0) (\<lambda>d c. c) (\<lambda>c d. d) fs"

abbreviation take_response_headers :: "LsWasmContext \<Rightarrow> HttpData \<Rightarrow> HttpData" where
  "take_response_headers c d \<equiv> d\<lparr>hd_response_headers := getHeaderMapOwned ResponseHeaders c\<rparr>"

definition onResponseHeaders :: "('v, 'h, 's) proxy_wasm \<Rightarrow> ('s, 'v) filter_state \<Rightarrow> ('s, 'v) filter_state option" where
  "onResponseHeaders pw fs =
    run_phase pw (OnResponseHeaders 0 (hd_response_body (fs_data fs) = []))
      (\<lambda>d c. setHeaderMap ResponseHeaders (hd_response_headers d) c) take_response_headers fs"

definition onResponseBody :: "('v, 'h, 's) proxy_wasm \<Rightarrow> ('s, 'v) filter_state \<Rightarrow> ('s, 'v) filter_state option" where
  "onResponseBody pw fs =
    run_phase pw (OnResponseBody (length (hd_response_body (fs_data fs))) True)
      (\<lambda>d c. setEndOfStream True (setResponseBody (hd_response_body d) (setHeaderMap ResponseHeaders (hd_response_headers d) c)))
      take_response_headers fs"

definition onResponseTrailers :: "('v, 'h, 's) proxy_wasm \<Rightarrow> ('s, 'v) filter_state \<Rightarrow> ('s, 'v) filter_state option" where
  "onResponseTrailers pw fs =
    run_phase pw (OnResponseTrailers 0) (\<lambda>d c. setHeaderMap ResponseHeaders (hd_response_headers d) c) take_response_headers fs"

text \<open>The destructor: the scopes of the map are destroyed.\<close>

fun destroy_scopes :: "('v, 'h, 's) proxy_wasm \<Rightarrow> (str \<times> RequestScope) list \<Rightarrow> 's \<Rightarrow> 'v \<Rightarrow> ('s \<times> 'v) option" where
  "destroy_scopes pw [] s v = Some (s, v)"
| "destroy_scopes pw ((n, scope) # scopes) s v = do {
    (s, v) \<leftarrow> destroy_scope pw scope s v;
    destroy_scopes pw scopes s v }"

definition destroy_filter :: "('v, 'h, 's) proxy_wasm \<Rightarrow> ('s, 'v) filter_state \<Rightarrow> ('s \<times> 'v) option" where
  "destroy_filter pw fs = destroy_scopes pw (fc_scopes (fs_ctx fs)) (fs_sink fs) (fs_vm fs)"

end
