(* ===== verification/Handle_Request.thy ===== *)
theory Handle_Request
  imports Http_Filter
begin

text \<open>
  \<open>handle_request\<close> of main.cpp: what a worker of the thread pool does with a connection. It
  parses the request, runs it through the phases of the filter chain, and writes the response.
  The worker's end of the connection is in the \<open>HttpResponseSink\<close> that points to it.
\<close>

subsection \<open>Reading the body\<close>

text \<open>
  What the event loop does to the connection in the meantime: it feeds body bytes or an error,
  and lets the worker run. A worker waits in \<open>readBodyChunk\<close> until its condition holds when it
  runs; without further events it waits for ever unless the condition holds.
\<close>

datatype loop_event = Feed str bool | Feed_error | Resume

fun await_body :: "nat \<Rightarrow> loop_event list \<Rightarrow> ConnectionIO \<Rightarrow> (BodyReadResult \<times> loop_event list \<times> ConnectionIO) option" where
  "await_body want [] c = map_option (\<lambda>(r, c). (r, [], c)) (readBodyChunk want c)"
| "await_body want (Feed data eof # es) c = await_body want es (feedBody data eof c)"
| "await_body want (Feed_error # es) c = await_body want es (feedError c)"
| "await_body want (Resume # es) c =
    (case readBodyChunk want c of Some (r, c) \<Rightarrow> Some (r, es, c) | None \<Rightarrow> await_body want es c)"

type_synonym 'v http_state = "(HttpResponseSink, 'v) filter_state"

definition on_conn :: "(ConnectionIO \<Rightarrow> ConnectionIO) \<Rightarrow> 'v http_state \<Rightarrow> 'v http_state" where
  "on_conn f fs = fs\<lparr>fs_sink := (fs_sink fs)\<lparr>hs_conn := map_option f (hs_conn (fs_sink fs))\<rparr>\<rparr>"

text \<open>The loop; its first result is false when the request was given up.\<close>

function http_body_loop ::
  "('v, 'h, HttpResponseSink) proxy_wasm \<Rightarrow> nat \<Rightarrow> nat \<Rightarrow> loop_event list \<Rightarrow> 'v http_state \<Rightarrow> (bool \<times> 'v http_state) option" where
  "http_body_loop pw content_length body_consumed es fs =
    (if body_consumed < content_length \<and> \<not> hd_has_local_response (fs_data fs)
     then do {
       conn \<leftarrow> hs_conn (fs_sink fs);
       (r, es, conn) \<leftarrow> await_body (min (content_length - body_consumed) BODY_CHUNK_SIZE) es conn;
       let fs = on_conn (\<lambda>_. conn) fs;
       (if brr_status r = Error then Some (False, on_conn setError fs)
        else if brr_status r = Truncated then Some (False, on_conn setError fs)
        else if brr_data r = [] then Some (False, on_conn setError fs)
        else do {
          let body_consumed = body_consumed + length (brr_data r);
          fs \<leftarrow> onRequestBody pw (content_length \<le> body_consumed) (fs\<lparr>fs_data := (fs_data fs)\<lparr>hd_request_body := brr_data r\<rparr>\<rparr>);
          http_body_loop pw content_length body_consumed es fs }) }
     else Some (True, fs))"
  by pat_completeness auto
termination
  by (relation "measure (\<lambda>(_, content_length, body_consumed, _, _). content_length - body_consumed)")
    (auto simp: diff_less_mono2)

declare http_body_loop.simps [simp del]

definition http_stream_body ::
  "('v, 'h, HttpResponseSink) proxy_wasm \<Rightarrow> loop_event list \<Rightarrow> 'v http_state \<Rightarrow> (bool \<times> 'v http_state) option" where
  "http_stream_body pw es fs = do {
    conn \<leftarrow> hs_conn (fs_sink fs);
    let content_length = cio_content_length conn;
    (if content_length > 0
     then do {
       let pre = cio_body_prefix conn;
       fs \<leftarrow> (if pre \<noteq> []
              then onRequestBody pw (content_length \<le> length pre) (fs\<lparr>fs_data := (fs_data fs)\<lparr>hd_request_body := pre\<rparr>\<rparr>)
              else Some fs);
       http_body_loop pw content_length (length pre) es fs }
     else Some (True, fs)) }"

subsection \<open>The response\<close>

text \<open>Calls of \<open>writeData\<close> one after the other, then \<open>finish\<close>.\<close>

definition write_and_finish :: "str list \<Rightarrow> 'v http_state \<Rightarrow> 'v http_state" where
  "write_and_finish ds fs = on_conn conn_finish (fs\<lparr>fs_sink := foldl (\<lambda>s d. sink_write d s) (fs_sink fs) ds\<rparr>)"

definition send_local_response :: "'v http_state \<Rightarrow> 'v http_state" where
  "send_local_response fs = write_and_finish (write_chunked (build_local_response (fs_data fs))) fs"

text \<open>A streamed response has been written by the module; it must be finished.\<close>

definition end_streaming :: "'v http_state \<Rightarrow> 'v http_state" where
  "end_streaming fs =
    (if \<not> filter_isStreamingFinished (fs_ctx fs) then on_conn setError fs else on_conn conn_finish fs)"

definition with_content_length :: "HttpData \<Rightarrow> HeaderPairs" where
  "with_content_length d =
    drop_name (ascii ''Content-Length'') (hd_response_headers d) @
      [(ascii ''Content-Length'', number 10 (length (hd_response_body d)))]"

definition default_response ::
  "('v, 'h, HttpResponseSink) proxy_wasm \<Rightarrow> (HttpData \<Rightarrow> str) option \<Rightarrow> 'v http_state \<Rightarrow> 'v http_state option" where
  "default_response pw pacifier fs = do {
    let d = fs_data fs;
    let d = d\<lparr>hd_response_body := (case pacifier of Some body \<Rightarrow> body d | None \<Rightarrow> [])\<rparr>;
    let d = d\<lparr>hd_response_headers :=
      [(ascii ''Content-Type'', ascii ''text/plain''), (ascii ''Connection'', ascii ''close'')]\<rparr>;
    fs \<leftarrow> onResponseHeaders pw (fs\<lparr>fs_data := d\<rparr>);
    fs \<leftarrow> onResponseBody pw fs;
    fs \<leftarrow> onResponseTrailers pw fs;
    Some
      (if hd_has_local_response (fs_data fs)
       then if filter_hasStreamingResponse (fs_ctx fs) then on_conn setError fs else send_local_response fs
       else if filter_hasStreamingResponse (fs_ctx fs) then end_streaming fs
       else write_and_finish
         (serialize_headers 200 (with_content_length (fs_data fs)) # write_chunked (hd_response_body (fs_data fs))) fs) }"

definition process_request ::
  "('v, 'h, HttpResponseSink) proxy_wasm \<Rightarrow> 'h WasmModuleManager option \<Rightarrow> (HttpData \<Rightarrow> str) option \<Rightarrow> loop_event list \<Rightarrow>
    bool \<Rightarrow> 'v http_state \<Rightarrow> 'v http_state option" where
  "process_request pw mm pacifier es has_body fs = do {
    fs \<leftarrow> onRequestHeaders pw mm (\<not> has_body) fs;
    (if hd_has_local_response (fs_data fs) then Some (send_local_response fs)
     else do {
       (ok, fs) \<leftarrow> http_stream_body pw es fs;
       (if \<not> ok then Some fs
        else do {
          fs \<leftarrow> (if \<not> hd_has_local_response (fs_data fs) then onRequestTrailers pw fs else Some fs);
          (if hd_has_local_response (fs_data fs) then Some (send_local_response fs)
           else if filter_hasStreamingResponse (fs_ctx fs) then Some (end_streaming fs)
           else default_response pw pacifier fs) }) }) }"

text \<open>
  \<open>pacifier\<close> is the body to build when \<open>g_body_pacifier\<close> is set, \<open>ctx_id\<close> the number drawn from
  \<open>g_next_context_id\<close>. The result is the worker's end of the connection when the function and the
  destructors of its locals have run.
\<close>

definition handle_request ::
  "('v, 'h, HttpResponseSink) proxy_wasm \<Rightarrow> 'h WasmModuleManager option \<Rightarrow> (HttpData \<Rightarrow> str) option \<Rightarrow> nat \<Rightarrow> loop_event list \<Rightarrow>
    ConnectionIO \<Rightarrow> 'v \<Rightarrow> (HttpResponseSink \<times> 'v) option" where
  "handle_request pw mm pacifier ctx_id es conn v =
    (let sink = \<lparr>hs_conn = Some conn, hs_streaming = False, hs_error = False, hs_peer = []\<rparr>
     in case parse_request (cio_header_data conn) new_http_data of
       (False, d) \<Rightarrow> Some (sink\<lparr>hs_conn := Some (setError conn)\<rparr>, v)
     | (True, d) \<Rightarrow> do {
         let fs = \<lparr>fs_data = d, fs_ctx = filter_setResponseSink True (new_filter ctx_id), fs_sink = sink, fs_vm = v\<rparr>;
         fs \<leftarrow> process_request pw mm pacifier es (cio_content_length conn > 0) fs;
         destroy_filter pw fs })"

end
