(* ===== verification/Handle_Request_Correct.thy ===== *)
theory Handle_Request_Correct
  imports Handle_Request
begin

text \<open>
  Correctness of \<open>handle_request\<close>: whatever a module does through the host functions, the client
  gets one complete response with unambiguous length, or the connection is marked as failed.
\<close>

subsection \<open>What a module can do\<close>

text \<open>
  A callback changes its context and the sink only through the functions of the host: one step
  of the relation is one call. The other host functions change neither.
\<close>

inductive host_step :: "'s sink_ops \<Rightarrow> LsWasmContext \<times> 's \<Rightarrow> LsWasmContext \<times> 's \<Rightarrow> bool" for ops where
  host_foreign: "foreign_function ops f c s = Some (r, c', s') \<Longrightarrow> host_step ops (c, s) (c', s')"
| host_log: "context_log level msg c = (r, c') \<Longrightarrow> host_step ops (c, s) (c', s)"
| host_local: "sendLocalResponse code body hs details c = (r, c') \<Longrightarrow> host_step ops (c, s) (c', s)"
| host_set: "setHeaderMapPairs t hs c = (r, c') \<Longrightarrow> host_step ops (c, s) (c', s)"
| host_add: "addHeaderMapValue t k x c = (r, c') \<Longrightarrow> host_step ops (c, s) (c', s)"
| host_replace: "replaceHeaderMapValue t k x c = (r, c') \<Longrightarrow> host_step ops (c, s) (c', s)"
| host_remove: "removeHeaderMapValue t k c = (r, c') \<Longrightarrow> host_step ops (c, s) (c', s)"

abbreviation host_run :: "'s sink_ops \<Rightarrow> LsWasmContext \<times> 's \<Rightarrow> LsWasmContext \<times> 's \<Rightarrow> bool" where
  "host_run ops \<equiv> (host_step ops)\<^sup>*\<^sup>*"

text \<open>The callbacks of modules return, and run host functions only.\<close>

definition well_hosted :: "('v, 'h, HttpResponseSink) proxy_wasm \<Rightarrow> bool" where
  "well_hosted pw \<longleftrightarrow> (\<forall>p cb c s v. \<exists>c' s' v'. pw_callback pw p cb c s v = Some (c', s', v') \<and> host_run http_sink_ops (c, s) (c', s'))"

subsection \<open>The sink, with or without its error flag\<close>

definition sink_ok :: "HttpResponseSink \<Rightarrow> bool" where
  "sink_ok s \<longleftrightarrow> http_open (s\<lparr>hs_error := False\<rparr>)"

lemma sink_write_error: "sink_write d (s\<lparr>hs_error := e\<rparr>) = (sink_write d s)\<lparr>hs_error := e\<rparr>"
  by (auto simp: sink_write_def split: option.splits prod.splits)

lemma output_error [simp]: "http_output (s\<lparr>hs_error := e\<rparr>) = http_output s" "http_output (s\<lparr>hs_streaming := b\<rparr>) = http_output s"
  by (simp_all add: http_output_def)

lemma sink_ok_flags [simp]: "sink_ok (s\<lparr>hs_error := e\<rparr>) = sink_ok s" "sink_ok (s\<lparr>hs_streaming := b\<rparr>) = sink_ok s"
  by (simp_all add: sink_ok_def http_open_def)

lemma sink_ok_open: "\<not> hs_error s \<Longrightarrow> http_open s = sink_ok s"
  by (simp add: sink_ok_def http_open_def)

lemma sink_open_ok: "http_open s \<Longrightarrow> sink_ok s \<and> \<not> hs_error s"
  by (simp add: sink_ok_def http_open_def)

lemma sink_ok_conn: "sink_ok s \<Longrightarrow> \<exists>c. hs_conn s = Some c \<and> write_open c"
  by (auto simp: sink_ok_def http_open_def split: option.splits)

lemma sink_write_ok:
  assumes "sink_ok s"
  shows "sink_ok (sink_write d s)" "http_output (sink_write d s) = http_output s @ d"
  using sink_write_spec [OF assms [unfolded sink_ok_def], of d] unfolding sink_write_error by (simp_all add: sink_ok_def)

lemma sink_write_flag: "hs_error (sink_write d s) = hs_error s"
  by (auto simp: sink_write_def split: option.splits prod.splits)

lemma sink_writes_ok:
  "sink_ok s \<Longrightarrow> sink_ok (foldl (\<lambda>s d. sink_write d s) s ds) \<and>
    http_output (foldl (\<lambda>s d. sink_write d s) s ds) = http_output s @ concat ds"
proof (induction ds arbitrary: s)
  case (Cons d ds)
  from Cons.IH [OF sink_write_ok(1) [OF Cons.prems], of d] sink_write_ok(2) [OF Cons.prems, of d] show ?case by simp
qed simp

subsection \<open>The streamed response of one context\<close>

definition stream_inv :: "HttpResponseSink \<Rightarrow> LsWasmContext \<Rightarrow> HttpResponseSink \<Rightarrow> bool" where
  "stream_inv s0 c s \<longleftrightarrow> sink_ok s \<and>
    (case lc_streaming_state c of
       Idle \<Rightarrow> http_output s = http_output s0
     | HeadersSent \<Rightarrow> hs_error s \<or> (\<exists>st hs b. http_accepts hs True \<and> http_carries s0 st hs True s b)
     | Finished \<Rightarrow> (\<exists>st hs b. http_accepts hs True \<and> http_delivered s0 st hs True s b))"

lemma stream_inv_ok: "stream_inv s0 c s \<Longrightarrow> sink_ok s"
  by (simp add: stream_inv_def)

lemma stream_inv_cong: "lc_streaming_state c' = lc_streaming_state c \<Longrightarrow> stream_inv s0 c' s = stream_inv s0 c s"
  by (simp add: stream_inv_def)

lemma carries_base: "http_output s1 = http_output s0 \<Longrightarrow> http_carries s1 st hs b s x = http_carries s0 st hs b s x"
  by (simp add: http_carries_def)

lemma send_headers_inv:
  assumes inv: "stream_inv s0 c s" and ev: "streamingSendHeaders http_sink_ops st hs c s = Some (r, c', s')"
  shows "stream_inv s0 c' s'"
proof (cases "lc_sink c \<and> lc_streaming_state c = Idle")
  case False
  then have "c' = c \<and> s' = s" using ev by (auto simp: streamingSendHeaders_def split: if_splits)
  then show ?thesis using inv by simp
next
  case True
  then have ok: "sink_ok s" and out: "http_output s = http_output s0" using inv by (simp_all add: stream_inv_def)
  then have conn: "hs_conn s \<noteq> None" using sink_ok_conn by fastforce
  obtain b s1 where sh: "http_sendHeaders st hs True s = (b, s1)" by fastforce
  have c': "c' = (if b then c\<lparr>lc_streaming_state := HeadersSent\<rparr> else c)" "s' = s1"
    using ev True sh by (auto simp: streamingSendHeaders_def http_sink_ops_def split: if_splits)
  show ?thesis
  proof (cases "http_accepts hs True")
    case False
    then have n: "normalize_headers hs [] False = None"
      by (cases "normalize_headers hs [] False") (auto simp: http_accepts_def)
    then have "b = False" "s1 = s\<lparr>hs_streaming := True, hs_error := True\<rparr>"
      using sh conn by (auto simp: http_sendHeaders_def Let_def)
    then show ?thesis using c' True ok out by (simp add: stream_inv_def)
  next
    case acc: True
    then obtain n w where n: "normalize_headers hs [] False = Some (n, w)" by (auto simp: http_accepts_def)
    show ?thesis
    proof (cases "hs_error s")
      case True
      have b: "b" "\<exists>d. s1 = sink_write d (s\<lparr>hs_streaming := True\<rparr>)" using sh conn n by (auto simp: http_sendHeaders_def Let_def)
      then have "sink_ok s1 \<and> hs_error s1" using sink_write_ok(1) [of "s\<lparr>hs_streaming := True\<rparr>"] ok True by (auto simp: sink_write_flag)
      then show ?thesis using c' b by (simp add: stream_inv_def)
    next
      case False
      from http_sendHeaders_spec [of s hs True st] False ok acc sh have "b" "http_carries s st hs True s1 []" by (auto simp: sink_ok_open)
      then have "b" "http_carries s0 st hs True s1 []" using carries_base [OF out] by simp_all
      moreover from this have "sink_ok s1" using sink_open_ok [of s1] by (simp add: http_carries_def)
      ultimately show ?thesis using c' acc by (auto simp: stream_inv_def)
    qed
  qed
qed

lemma write_chunk_inv:
  assumes inv: "stream_inv s0 c s" and ev: "streamingWriteChunk http_sink_ops d c s = Some (r, c', s')"
  shows "stream_inv s0 c' s'"
proof (cases "lc_sink c \<and> lc_streaming_state c = HeadersSent \<and> d \<noteq> [] \<and> \<not> hs_error s")
  case False
  then have "c' = c \<and> s' = s" using ev
    by (auto simp: streamingWriteChunk_def http_sink_ops_def http_writeBody_def split: if_splits prod.splits)
  then show ?thesis using inv by simp
next
  case True
  then obtain st hs b where c: "http_accepts hs True" "http_carries s0 st hs True s b" using inv by (auto simp: stream_inv_def)
  from http_writeBody_spec [OF c(2), of d] obtain s1 where s1: "http_writeBody d s = (True, s1)" "http_carries s0 st hs True s1 (b @ d)" by blast
  then have "c' = c \<and> s' = s1" using ev True by (simp add: streamingWriteChunk_def http_sink_ops_def)
  moreover have "sink_ok s1" using s1(2) sink_open_ok [of s1] by (simp add: http_carries_def)
  ultimately show ?thesis using True c(1) s1(2) by (auto simp: stream_inv_def)
qed

lemma finishBody_ok: "sink_ok s \<Longrightarrow> sink_ok (snd (http_finishBody s))"
  by (simp add: http_finishBody_def sink_write_ok)

lemma finish_inv:
  assumes inv: "stream_inv s0 c s" and ev: "streamingFinish http_sink_ops c s = Some (r, c', s')"
  shows "stream_inv s0 c' s'"
proof (cases "lc_sink c \<and> lc_streaming_state c = HeadersSent \<and> \<not> hs_error s")
  case False
  then have "c' = c \<and> s' = s" using ev
    by (auto simp: streamingFinish_def http_sink_ops_def http_finishBody_def split: if_splits prod.splits)
  then show ?thesis using inv by simp
next
  case True
  then obtain st hs b where c: "http_accepts hs True" "http_carries s0 st hs True s b" using inv by (auto simp: stream_inv_def)
  from http_finishBody_spec [OF c(2)] obtain s1 where s1: "http_finishBody s = (True, s1)" "http_delivered s0 st hs True s1 b" by blast
  then have "c' = c\<lparr>lc_streaming_state := Finished\<rparr> \<and> s' = s1" using ev True by (simp add: streamingFinish_def http_sink_ops_def)
  moreover have "sink_ok s1" using finishBody_ok [OF stream_inv_ok [OF inv]] s1 by simp
  ultimately show ?thesis using c(1) s1(2) by (auto simp: stream_inv_def)
qed

lemma foreign_inv:
  "stream_inv s0 c s \<Longrightarrow> foreign_function http_sink_ops f c s = Some (r, c', s') \<Longrightarrow> stream_inv s0 c' s'"
  by (cases f) (auto split: if_splits intro: send_headers_inv write_chunk_inv finish_inv)

lemma host_step_inv:
  assumes "host_step http_sink_ops (c, s) (c', s')" "stream_inv s0 c s"
  shows "stream_inv s0 c' s'"
  using assms
proof cases
  case (host_foreign f r)
  then show ?thesis using foreign_inv assms(2) by blast
next
  case (host_remove t k r)
  then have "lc_streaming_state c' = lc_streaming_state c" by (auto simp: removeHeaderMapValue_def split: option.splits)
  then show ?thesis using host_remove assms(2) stream_inv_cong by blast
qed (auto simp: context_log_def sendLocalResponse_def setHeaderMapPairs_def addHeaderMapValue_def replaceHeaderMapValue_def stream_inv_def)

lemma host_run_inv:
  assumes "host_run http_sink_ops x y" "stream_inv s0 (fst x) (snd x)"
  shows "stream_inv s0 (fst y) (snd y)"
  using assms(1) by (induction rule: rtranclp_induct) (use assms(2) in \<open>auto intro: host_step_inv\<close>)

text \<open>Writing does not touch what the worker reads of the connection.\<close>

definition read_view :: "HttpResponseSink \<Rightarrow> (nat \<times> str \<times> str \<times> nat \<times> bool \<times> bool) option" where
  "read_view s =
    map_option (\<lambda>c. (cio_content_length c, cio_body_prefix c, cio_read_chunk c, cio_body_bytes_fed c, cio_read_eof c, cio_read_error c)) (hs_conn s)"

lemma read_view_flags [simp]: "read_view (s\<lparr>hs_error := e\<rparr>) = read_view s" "read_view (s\<lparr>hs_streaming := b\<rparr>) = read_view s"
  by (simp_all add: read_view_def)

lemma read_view_writeData:
  "writeData d c = Some c' \<Longrightarrow> cio_content_length c' = cio_content_length c \<and> cio_body_prefix c' = cio_body_prefix c \<and> cio_read_chunk c' = cio_read_chunk c \<and>
    cio_body_bytes_fed c' = cio_body_bytes_fed c \<and> cio_read_eof c' = cio_read_eof c \<and> cio_read_error c' = cio_read_error c"
  by (auto simp: writeData_def signal_eventfd_def split: if_splits)

lemma read_view_drain:
  "conn_drain n c = (sent, c') \<Longrightarrow> cio_content_length c' = cio_content_length c \<and> cio_body_prefix c' = cio_body_prefix c \<and> cio_read_chunk c' = cio_read_chunk c \<and>
    cio_body_bytes_fed c' = cio_body_bytes_fed c \<and> cio_read_eof c' = cio_read_eof c \<and> cio_read_error c' = cio_read_error c"
  by (auto simp: conn_drain_def advanceWrite_def Let_def split: if_splits)

lemma read_view_write:
  assumes "sink_ok s"
  shows "read_view (sink_write d s) = read_view s"
proof -
  obtain c where c: "hs_conn s = Some c" "write_open c" using sink_ok_conn [OF assms] by blast
  obtain c' where c': "hs_conn (sink_write d s) = Some c'" using sink_ok_conn [OF sink_write_ok(1) [OF assms, of d]] by blast
  show ?thesis
  proof (cases "writeData d c")
    case (Some c1)
    then show ?thesis using c read_view_writeData [OF Some] by (simp add: sink_write_def read_view_def)
  next
    case None
    obtain sent c1 where d: "conn_drain (length (pendingWriteData c)) c = (sent, c1)" by fastforce
    then have "writeData d c1 = Some c'" using c c' None by (simp add: sink_write_def)
    from read_view_writeData [OF this] read_view_drain [OF d] c c' show ?thesis by (simp add: read_view_def)
  qed
qed

lemma read_view_foreign:
  assumes "sink_ok s" "foreign_function http_sink_ops f c s = Some (r, c', s')"
  shows "read_view s' = read_view s"
  using assms read_view_write sink_ok_flags(2)
  by (cases f)
    (auto simp: streamingSendHeaders_def streamingWriteChunk_def streamingFinish_def http_sink_ops_def http_sendHeaders_def
      http_writeBody_def http_finishBody_def Let_def split: if_splits option.splits prod.splits)

lemma host_run_view:
  assumes "host_run http_sink_ops x y" "stream_inv s0 (fst x) (snd x)"
  shows "read_view (snd y) = read_view (snd x)"
  using assms(1)
proof (induction rule: rtranclp_induct)
  case (step y z)
  then have "sink_ok (snd y)" using host_run_inv [OF step.hyps(1) assms(2)] stream_inv_ok by blast
  with step.hyps(2) have "read_view (snd z) = read_view (snd y)" by cases (auto dest: read_view_foreign)
  with step.IH show ?case by simp
qed simp

lemma callback_inv:
  assumes "well_hosted pw" "stream_inv s0 c s" "pw_callback pw p cb c s v = Some (c', s', v')"
  shows "stream_inv s0 c' s' \<and> read_view s' = read_view s"
proof -
  from assms(1) obtain c1 s1 v1 where "pw_callback pw p cb c s v = Some (c1, s1, v1)" "host_run http_sink_ops (c, s) (c1, s1)"
    unfolding well_hosted_def by blast
  with assms(3) have "host_run http_sink_ops (c, s) (c', s')" by simp
  from host_run_inv [OF this, of s0] host_run_view [OF this, of s0] assms(2) show ?thesis by simp
qed

text \<open>Without a sink nothing is streamed.\<close>

lemma host_run_no_sink:
  assumes "host_run ops x y" "\<not> lc_sink (fst x)"
  shows "\<not> lc_sink (fst y) \<and> lc_streaming_state (fst y) = lc_streaming_state (fst x)"
  using assms(1)
proof (induction rule: rtranclp_induct)
  case (step y z)
  from step.hyps(2) step.IH show ?case
  proof cases
    case (host_foreign f c s r c' s')
    then show ?thesis using step.IH
      by (cases f) (auto simp: streamingSendHeaders_def streamingWriteChunk_def streamingFinish_def split: if_splits)
  qed (auto simp: context_log_def sendLocalResponse_def setHeaderMapPairs_def addHeaderMapValue_def replaceHeaderMapValue_def
      removeHeaderMapValue_def split: option.splits)
qed (use assms(2) in simp)

lemma callback_no_sink:
  assumes "well_hosted pw" "pw_callback pw p cb c s v = Some (c', s', v')" "\<not> lc_sink c"
  shows "lc_streaming_state c' = lc_streaming_state c"
proof -
  from assms(1) obtain c1 s1 v1 where "pw_callback pw p cb c s v = Some (c1, s1, v1)" "host_run http_sink_ops (c, s) (c1, s1)"
    unfolding well_hosted_def by blast
  with assms(2,3) host_run_no_sink [OF this(2)] show ?thesis by simp
qed

lemma callback_returns: "well_hosted pw \<Longrightarrow> \<exists>c' s' v'. pw_callback pw p cb c s v = Some (c', s', v')"
  unfolding well_hosted_def by blast

subsection \<open>The filter chain of one module\<close>

definition chain_inv :: "HttpResponseSink \<Rightarrow> 'v http_state \<Rightarrow> bool" where
  "chain_inv s0 fs \<longleftrightarrow> sink_ok (fs_sink fs) \<and>
    (fc_scopes (fs_ctx fs) = [] \<and> http_output (fs_sink fs) = http_output s0 \<or>
     (\<exists>n scope p c. fc_scopes (fs_ctx fs) = [(n, scope)] \<and> rs_ctx scope = Some (p, c) \<and> stream_inv s0 c (fs_sink fs)))"

text \<open>Every phase keeps what one module keeps.\<close>

lemma run_phase_rule:
  assumes hosted: "well_hosted pw" and init: "Q fs"
    and step: "\<And>fs m scope p c c' s v. Q fs \<Longrightarrow> \<not> hd_has_local_response (fs_data fs) \<Longrightarrow> map_of (fc_scopes (fs_ctx fs)) m = Some scope \<Longrightarrow>
      rs_ctx scope = Some (p, c) \<Longrightarrow> pw_callback pw p cb (before (fs_data fs) c) (fs_sink fs) (fs_vm fs) = Some (c', s, v) \<Longrightarrow>
      Q (leave_module after m (scope\<lparr>rs_ctx := Some (p, c')\<rparr>) c' s v fs)"
  shows "\<exists>fs'. run_phase pw cb before after fs = Some fs' \<and> Q fs'"
proof -
  have one: "\<exists>fs'. run_module pw cb before after m fs = Some fs' \<and> Q fs'" if "Q fs" "\<not> hd_has_local_response (fs_data fs)" for m fs
  proof (cases "map_of (fc_scopes (fs_ctx fs)) m")
    case None
    then show ?thesis using that by (simp add: run_module_def)
  next
    case (Some scope)
    show ?thesis
    proof (cases "rs_ctx scope")
      case None
      then show ?thesis using that Some by (simp add: run_module_def)
    next
      case (Some pc)
      obtain p c where pc: "pc = (p, c)" by fastforce
      from callback_returns [OF hosted] obtain c' s v where
        "pw_callback pw p cb (before (fs_data fs) c) (fs_sink fs) (fs_vm fs) = Some (c', s, v)" by blast
      with step [OF that \<open>map_of _ m = Some scope\<close> _ this] \<open>map_of _ m = Some scope\<close> Some pc show ?thesis
        by (simp add: run_module_def)
    qed
  qed
  have "\<exists>fs'. run_modules (run_module pw cb before after) ms fs = Some fs' \<and> Q fs'" if "Q fs" for ms fs
    using that
  proof (induction ms arbitrary: fs)
    case (Cons m ms)
    show ?case
    proof (cases "hd_has_local_response (fs_data fs)")
      case False
      from one [OF Cons.prems this, of m] Cons.IH False show ?thesis by auto
    qed (use Cons.prems in simp)
  qed simp
  with init show ?thesis by (simp add: run_phase_def)
qed

lemma leave_module_fields:
  "fs_sink (leave_module after m scope c s v fs) = s"
  "fc_scopes (fs_ctx (leave_module after m scope c s v fs)) = map (\<lambda>(n, sc). if n = m then (n, scope) else (n, sc)) (fc_scopes (fs_ctx fs))"
  "fs_data (leave_module after m scope c s v fs) = checkLocalResponse scope (after c (fs_data fs))"
  by (simp_all add: leave_module_def)

lemma leave_module_chain:
  assumes "well_hosted pw" "chain_inv s0 fs" "map_of (fc_scopes (fs_ctx fs)) m = Some scope" "rs_ctx scope = Some (p, c)"
    "pw_callback pw p cb c1 (fs_sink fs) (fs_vm fs) = Some (c', s, v)" "lc_streaming_state c1 = lc_streaming_state c"
  shows "chain_inv s0 (leave_module after m (scope\<lparr>rs_ctx := Some (p, c')\<rparr>) c' s v fs) \<and> read_view s = read_view (fs_sink fs) \<and>
    fc_scopes (fs_ctx (leave_module after m (scope\<lparr>rs_ctx := Some (p, c')\<rparr>) c' s v fs)) = [(m, scope\<lparr>rs_ctx := Some (p, c')\<rparr>)] \<and>
    fc_scopes (fs_ctx fs) = [(m, scope)]"
proof -
  have sc: "fc_scopes (fs_ctx fs) = [(m, scope)]" and "stream_inv s0 c (fs_sink fs)"
    using assms(2-4) by (auto simp: chain_inv_def split: if_splits)
  then have "stream_inv s0 c1 (fs_sink fs)" using assms(6) stream_inv_cong by blast
  from callback_inv [OF assms(1) this assms(5)] sc show ?thesis
    by (auto simp: chain_inv_def leave_module_fields dest: stream_inv_ok)
qed

text \<open>
  Two conditions on modules. \<open>exclusive\<close>: in a request phase, a module that sends a local
  response has not begun to stream (the context of the first phase is new). \<open>quiet\<close> modules never
  stream.
\<close>

fun request_callback :: "wasm_callback \<Rightarrow> bool" where
  "request_callback (OnRequestHeaders n e) = True"
| "request_callback (OnRequestBody n e) = True"
| "request_callback (OnRequestTrailers n) = True"
| "request_callback _ = False"

definition exclusive :: "('v, 'h, HttpResponseSink) proxy_wasm \<Rightarrow> bool" where
  "exclusive pw \<longleftrightarrow> (\<forall>p cb c s v c' s' v'. pw_callback pw p cb c s v = Some (c', s', v') \<longrightarrow>
    request_callback cb \<longrightarrow> (\<forall>n e. cb = OnRequestHeaders n e \<longrightarrow> lc_streaming_state c = Idle) \<longrightarrow>
    \<not> lc_has_local_response c \<longrightarrow> lc_has_local_response c' \<longrightarrow> lc_streaming_state c' = Idle)"

definition quiet :: "('v, 'h, HttpResponseSink) proxy_wasm \<Rightarrow> bool" where
  "quiet pw \<longleftrightarrow> (\<forall>p cb c s v c' s' v'. pw_callback pw p cb c s v = Some (c', s', v') \<longrightarrow> lc_streaming_state c' = lc_streaming_state c)"

definition request_inv :: "('v, 'h, HttpResponseSink) proxy_wasm \<Rightarrow> HttpResponseSink \<Rightarrow> 'v http_state \<Rightarrow> bool" where
  "request_inv pw s0 fs \<longleftrightarrow> chain_inv s0 fs \<and>
    (hd_has_local_response (fs_data fs) \<longrightarrow> \<not> filter_hasStreamingResponse (fs_ctx fs)) \<and>
    (scope_test lc_has_local_response (fs_ctx fs) \<longrightarrow> hd_has_local_response (fs_data fs)) \<and>
    (quiet pw \<longrightarrow> \<not> filter_hasStreamingResponse (fs_ctx fs))"

definition response_inv :: "('v, 'h, HttpResponseSink) proxy_wasm \<Rightarrow> HttpResponseSink \<Rightarrow> 'v http_state \<Rightarrow> bool" where
  "response_inv pw s0 fs \<longleftrightarrow> chain_inv s0 fs \<and> (quiet pw \<longrightarrow> \<not> filter_hasStreamingResponse (fs_ctx fs))"

lemma one_scope_streaming:
  "fc_scopes fc = [(n, scope\<lparr>rs_ctx := Some (p, c)\<rparr>)] \<Longrightarrow> filter_hasStreamingResponse fc = (lc_streaming_state c \<noteq> Idle)"
  "fc_scopes fc = [(n, scope)] \<Longrightarrow> rs_ctx scope = Some (p, c) \<Longrightarrow> filter_hasStreamingResponse fc = (lc_streaming_state c \<noteq> Idle)"
  by (simp_all add: filter_hasStreamingResponse_def scope_test_def hasStreamingResponse_def)

lemma one_scope_local:
  "fc_scopes fc = [(n, scope\<lparr>rs_ctx := Some (p, c)\<rparr>)] \<Longrightarrow> scope_test lc_has_local_response fc = lc_has_local_response c"
  "fc_scopes fc = [(n, scope)] \<Longrightarrow> rs_ctx scope = Some (p, c) \<Longrightarrow> scope_test lc_has_local_response fc = lc_has_local_response c"
  by (simp_all add: scope_test_def)

lemma check_local: "rs_ctx scope = Some (p, c) \<Longrightarrow> hd_has_local_response (checkLocalResponse scope d) = (lc_has_local_response c \<or> hd_has_local_response d)"
  by (simp add: checkLocalResponse_def)

lemma quiet_step:
  assumes "quiet pw" "fc_scopes fc = [(n, scope)]" "rs_ctx scope = Some (p, c)" "\<not> filter_hasStreamingResponse fc"
    "pw_callback pw p cb c1 s v = Some (c', s', v')" "lc_streaming_state c1 = lc_streaming_state c"
    "fc_scopes fc' = [(n, scope\<lparr>rs_ctx := Some (p, c')\<rparr>)]"
  shows "\<not> filter_hasStreamingResponse fc'"
proof -
  have "lc_streaming_state c' = lc_streaming_state c1" using assms(1,5) unfolding quiet_def by blast
  then show ?thesis using assms(4,6) one_scope_streaming(2) [OF assms(2,3)] one_scope_streaming(1) [OF assms(7)] by simp
qed

lemma request_phase:
  assumes hosted: "well_hosted pw" and excl: "quiet pw \<or> exclusive pw" and inv: "request_inv pw s0 fs"
    and cb: "request_callback cb" "\<And>n e. cb \<noteq> OnRequestHeaders n e"
    and before: "\<And>d c. lc_streaming_state (before d c) = lc_streaming_state c"
      "\<And>d c. lc_has_local_response (before d c) = lc_has_local_response c"
    and after: "\<And>c d. hd_has_local_response (after c d) = hd_has_local_response d"
  shows "\<exists>fs'. run_phase pw cb before after fs = Some fs' \<and> request_inv pw s0 fs' \<and> read_view (fs_sink fs') = read_view (fs_sink fs)"
proof (rule run_phase_rule [OF hosted, where Q = "\<lambda>fs'. request_inv pw s0 fs' \<and> read_view (fs_sink fs') = read_view (fs_sink fs)"])
  fix fs' :: "'a http_state" and m scope p c c' s v
  assume q: "request_inv pw s0 fs' \<and> read_view (fs_sink fs') = read_view (fs_sink fs)" and n: "\<not> hd_has_local_response (fs_data fs')"
    and m: "map_of (fc_scopes (fs_ctx fs')) m = Some scope" "rs_ctx scope = Some (p, c)"
    and run: "pw_callback pw p cb (before (fs_data fs') c) (fs_sink fs') (fs_vm fs') = Some (c', s, v)"
  let ?fs = "leave_module after m (scope\<lparr>rs_ctx := Some (p, c')\<rparr>) c' s v fs'"
  from q have "chain_inv s0 fs'" by (simp add: request_inv_def)
  from leave_module_chain [OF hosted this m run before(1), of after] have
    l: "chain_inv s0 ?fs" "read_view s = read_view (fs_sink fs')" "fc_scopes (fs_ctx ?fs) = [(m, scope\<lparr>rs_ctx := Some (p, c')\<rparr>)]"
      "fc_scopes (fs_ctx fs') = [(m, scope)]" by blast+
  have local: "hd_has_local_response (fs_data ?fs) = lc_has_local_response c'" using n after by (simp add: leave_module_fields checkLocalResponse_def)
  have quiet: "lc_streaming_state c' = Idle" if "quiet pw"
    using quiet_step [OF that l(4) m(2) _ run before(1) l(3)] that q one_scope_streaming(1) [OF l(3)] by (simp add: request_inv_def)
  have "\<not> lc_has_local_response c" using q n one_scope_local(2) [OF l(4) m(2)] by (simp add: request_inv_def)
  then have "lc_streaming_state c' = Idle" if "lc_has_local_response c'"
    using that excl quiet run cb before(2) unfolding exclusive_def by blast
  then show "request_inv pw s0 ?fs \<and> read_view (fs_sink ?fs) = read_view (fs_sink fs)"
    using l(1,2) q local quiet one_scope_streaming(1) [OF l(3)] one_scope_local(1) [OF l(3)]
    by (simp add: request_inv_def leave_module_fields(1))
qed (use inv in simp)

lemma setHeaderMap_streaming: "lc_streaming_state (setHeaderMap t hs c) = lc_streaming_state c"
  by (simp add: setHeaderMap_def)

lemma setEndOfStream_streaming: "lc_streaming_state (setEndOfStream e c) = lc_streaming_state c"
  by (simp add: setEndOfStream_def)

lemma setResponseBody_streaming: "lc_streaming_state (setResponseBody b c) = lc_streaming_state c"
  by (simp add: setResponseBody_def)

lemma response_phase:
  assumes hosted: "well_hosted pw" and inv: "response_inv pw s0 fs"
    and before: "\<And>d c. lc_streaming_state (before d c) = lc_streaming_state c"
  shows "\<exists>fs'. run_phase pw cb before after fs = Some fs' \<and> response_inv pw s0 fs'"
proof (rule run_phase_rule [OF hosted, where Q = "response_inv pw s0"])
  fix fs' :: "'a http_state" and m scope p c c' s v
  assume q: "response_inv pw s0 fs'" and m: "map_of (fc_scopes (fs_ctx fs')) m = Some scope" "rs_ctx scope = Some (p, c)"
    and cb: "pw_callback pw p cb (before (fs_data fs') c) (fs_sink fs') (fs_vm fs') = Some (c', s, v)"
  let ?fs = "leave_module after m (scope\<lparr>rs_ctx := Some (p, c')\<rparr>) c' s v fs'"
  from q have "chain_inv s0 fs'" by (simp add: response_inv_def)
  from leave_module_chain [OF hosted this m cb before, of after] have
    l: "chain_inv s0 ?fs" "fc_scopes (fs_ctx ?fs) = [(m, scope\<lparr>rs_ctx := Some (p, c')\<rparr>)]" "fc_scopes (fs_ctx fs') = [(m, scope)]" by blast+
  have "\<not> filter_hasStreamingResponse (fs_ctx ?fs)" if "quiet pw"
    using quiet_step [OF that l(3) m(2) _ cb before l(2)] that q by (simp add: response_inv_def)
  then show "response_inv pw s0 ?fs" using l(1) by (simp add: response_inv_def)
qed (use inv in simp)

subsection \<open>Reading the body\<close>

text \<open>\<open>delivers k es\<close>: the events bring the \<open>k\<close> missing bytes before they end the body.\<close>

fun delivers :: "nat \<Rightarrow> loop_event list \<Rightarrow> bool" where
  "delivers k [] \<longleftrightarrow> k = 0"
| "delivers k (Feed d eof # es) \<longleftrightarrow> k \<le> length d \<or> \<not> eof \<and> delivers (k - length d) es"
| "delivers k (Feed_error # es) \<longleftrightarrow> k = 0"
| "delivers k (Resume # es) \<longleftrightarrow> delivers k es"

fun closing :: "loop_event \<Rightarrow> bool" where
  "closing (Feed d eof) = eof"
| "closing Feed_error = True"
| "closing Resume = False"

definition body_arrives :: "loop_event list \<Rightarrow> ConnectionIO \<Rightarrow> bool" where
  "body_arrives es c \<longleftrightarrow> delivers (cio_content_length c - cio_body_bytes_fed c) es \<and>
    (cio_content_length c \<le> cio_body_bytes_fed c \<or> \<not> cio_read_eof c \<and> \<not> cio_read_error c)"

text \<open>The body arrives, or the connection ends or fails: the worker does not wait for ever.\<close>

definition body_ends :: "loop_event list \<Rightarrow> ConnectionIO \<Rightarrow> bool" where
  "body_ends es c \<longleftrightarrow> body_arrives es c \<or> cio_read_eof c \<or> cio_read_error c \<or> list_ex closing es"

lemma delivers_0 [simp]: "delivers 0 es"
  by (induction "0 :: nat" es rule: delivers.induct) auto

lemma feed_arrives:
  "body_arrives (Feed d eof # es) c \<Longrightarrow> body_arrives es (feedBody d eof c)"
  "body_arrives (Feed_error # es) c \<Longrightarrow> body_arrives es (feedError c)"
  "body_arrives (Resume # es) c = body_arrives es c"
  by (auto simp: body_arrives_def feedBody_def feedError_def Let_def)

lemma feed_ends:
  "body_ends (Feed d eof # es) c \<Longrightarrow> body_ends es (feedBody d eof c)"
  "body_ends (Feed_error # es) c \<Longrightarrow> body_ends es (feedError c)"
  "body_ends (Resume # es) c \<Longrightarrow> body_ends es c"
  using feed_arrives(1) [of d eof es c] feed_arrives(2) [of es c] feed_arrives(3) [of es c]
  by (auto simp: body_ends_def feedBody_def feedError_def Let_def)

definition write_view :: "ConnectionIO \<Rightarrow> str \<times> nat \<times> bool \<times> bool \<times> bool" where
  "write_view c = (cio_write_buffer c, cio_write_cursor c, cio_write_pending c, cio_finished c, cio_write_error c)"

lemma write_view_feed [simp]: "write_view (feedBody d eof c) = write_view c" "write_view (feedError c) = write_view c"
  by (simp_all add: write_view_def feedBody_def feedError_def Let_def)

lemma feed_fields [simp]:
  "cio_content_length (feedBody d eof c) = cio_content_length c" "cio_content_length (feedError c) = cio_content_length c"
  "cio_body_bytes_fed (feedError c) = cio_body_bytes_fed c" "cio_read_chunk (feedError c) = cio_read_chunk c"
  by (simp_all add: feedBody_def feedError_def Let_def)

lemma feed_balance:
  "cio_body_bytes_fed c = n + length (cio_read_chunk c) \<Longrightarrow>
    cio_body_bytes_fed (feedBody d eof c) = n + length (cio_read_chunk (feedBody d eof c))"
  by (simp add: feedBody_def Let_def)

definition read_post :: "nat \<Rightarrow> nat \<Rightarrow> bool \<Rightarrow> loop_event list \<Rightarrow> ConnectionIO \<Rightarrow> BodyReadResult \<Rightarrow> ConnectionIO \<Rightarrow> bool" where
  "read_post want n arrives es c r c' \<longleftrightarrow> write_view c' = write_view c \<and> cio_content_length c' = cio_content_length c \<and>
    length (brr_data r) \<le> want \<and> body_ends es c' \<and>
    cio_body_bytes_fed c' = n + length (brr_data r) + length (cio_read_chunk c') \<and>
    (arrives \<longrightarrow> body_arrives es c' \<and> brr_status r \<noteq> Error \<and> brr_status r \<noteq> Truncated \<and> brr_data r \<noteq> [])"

lemma read_post_ready:
  assumes "readBodyChunk want c = Some (r, c')" "0 < want" "want \<le> cio_content_length c - n"
    "cio_body_bytes_fed c = n + length (cio_read_chunk c)" "body_ends es c"
  shows "read_post want n (body_arrives es c) es c r c'"
proof -
  have e: "body_ends es c'" "body_arrives es c \<Longrightarrow> body_arrives es c'"
    using assms(1,5)
    by (auto simp: readBodyChunk_def take_chunk_def body_ends_def body_arrives_def Let_def split: if_splits)
  show ?thesis
    using assms(1-4) e
    by (auto simp: read_post_def readBodyChunk_def read_ready_def take_chunk_def chunk_status_def bodyCompleteLocked_def write_view_def
        body_arrives_def Let_def split: if_splits)
qed

lemma await_body_post:
  assumes "0 < want" "want \<le> cio_content_length c - n" "cio_body_bytes_fed c = n + length (cio_read_chunk c)" "body_ends es c"
  shows "\<exists>r es' c'. await_body want es c = Some (r, es', c') \<and> read_post want n (body_arrives es c) es' c r c'"
  using assms
proof (induction want es c rule: await_body.induct)
  case (1 want c)
  have "read_ready want c"
    using "1.prems" by (auto simp: body_ends_def body_arrives_def read_ready_def bodyCompleteLocked_def)
  then have "readBodyChunk want c \<noteq> None" by (simp add: readBodyChunk_def split: prod.splits)
  then obtain r c' where r: "readBodyChunk want c = Some (r, c')" by auto
  then show ?case using read_post_ready [OF r "1.prems"] by simp
next
  case (2 want data eof es c)
  from "2.IH" "2.prems" feed_ends(1) [OF "2.prems"(4)] feed_balance [OF "2.prems"(3)] obtain r es' c' where
    "await_body want es (feedBody data eof c) = Some (r, es', c')"
    "read_post want n (body_arrives es (feedBody data eof c)) es' (feedBody data eof c) r c'" by fastforce
  then show ?case using feed_arrives(1) [of data eof es c] by (auto simp: read_post_def)
next
  case (3 want es c)
  from "3.IH" "3.prems" feed_ends(2) [OF "3.prems"(4)] obtain r es' c' where
    "await_body want es (feedError c) = Some (r, es', c')"
    "read_post want n (body_arrives es (feedError c)) es' (feedError c) r c'" by fastforce
  then show ?case using feed_arrives(2) [of es c] by (auto simp: read_post_def)
next
  case (4 want es c)
  have ends: "body_ends es c" by (rule feed_ends(3) [OF "4.prems"(4)])
  show ?case
  proof (cases "readBodyChunk want c")
    case None
    then show ?thesis using "4.IH" [OF None "4.prems"(1-3) ends] feed_arrives(3) [of es c] by simp
  next
    case (Some rc)
    obtain r c' where rc: "rc = (r, c')" by fastforce
    show ?thesis using read_post_ready [OF Some [unfolded rc] "4.prems"(1-3) ends] Some rc feed_arrives(3) [of es c] by simp
  qed
qed

lemma write_view_sink:
  assumes "hs_conn s = Some c" "write_view c' = write_view c"
  shows "sink_ok (s\<lparr>hs_conn := Some c'\<rparr>) = sink_ok s" "http_output (s\<lparr>hs_conn := Some c'\<rparr>) = http_output s"
  using assms by (auto simp: write_view_def sink_ok_def http_open_def http_output_def pendingWriteData_def write_wf_def)

lemma write_view_stream:
  assumes "hs_conn s = Some c" "write_view c' = write_view c"
  shows "stream_inv s0 k (s\<lparr>hs_conn := Some c'\<rparr>) = stream_inv s0 k s"
proof -
  have "http_open (s\<lparr>hs_conn := Some c'\<rparr>) = http_open s"
    using assms by (auto simp: write_view_def http_open_def write_wf_def)
  then show ?thesis using write_view_sink [OF assms]
    by (simp add: stream_inv_def http_carries_def http_delivered_def split: StreamingResponseState.split)
qed

lemma request_inv_conn:
  assumes "request_inv pw s0 fs" "hs_conn (fs_sink fs) = Some c" "write_view c' = write_view c"
  shows "request_inv pw s0 (on_conn (\<lambda>_. c') fs)"
  using assms(1) write_view_sink [OF assms(2,3)] write_view_stream [OF assms(2,3), of s0]
  by (auto simp: request_inv_def chain_inv_def on_conn_def assms(2))

lemma request_inv_data:
  "hd_has_local_response d = hd_has_local_response (fs_data fs) \<Longrightarrow> request_inv pw s0 (fs\<lparr>fs_data := d\<rparr>) = request_inv pw s0 fs"
  by (simp add: request_inv_def chain_inv_def)

definition failed :: "HttpResponseSink \<Rightarrow> bool" where
  "failed s \<longleftrightarrow> (\<exists>c. hs_conn s = Some c \<and> cio_write_error c \<and> cio_finished c)"

lemma failed_setError: "hs_conn (fs_sink fs) = Some c \<Longrightarrow> failed (fs_sink (on_conn setError fs))"
  by (simp add: failed_def on_conn_def setError_def signal_eventfd_def)

definition read_state :: "nat \<Rightarrow> nat \<Rightarrow> loop_event list \<Rightarrow> ConnectionIO \<Rightarrow> bool" where
  "read_state len n es c \<longleftrightarrow> cio_content_length c = len \<and> cio_body_bytes_fed c = n + length (cio_read_chunk c) \<and> body_ends es c"

lemma read_view_state:
  assumes "read_view s' = read_view s" "hs_conn s = Some c" "read_state len n es c"
  shows "\<exists>c'. hs_conn s' = Some c' \<and> read_state len n es c' \<and> cio_body_prefix c' = cio_body_prefix c \<and> (body_arrives es c' = body_arrives es c)"
  using assms by (auto simp: read_view_def read_state_def body_ends_def body_arrives_def)

lemma on_conn_sink: "hs_conn (fs_sink fs) = Some c \<Longrightarrow> hs_conn (fs_sink (on_conn f fs)) = Some (f c)"
  by (simp add: on_conn_def)

lemma request_body_phase:
  assumes "well_hosted pw" "quiet pw \<or> exclusive pw" "request_inv pw s0 fs" "hs_conn (fs_sink fs) = Some c" "read_state len n es c"
  shows "\<exists>fs' c'. onRequestBody pw e (fs\<lparr>fs_data := (fs_data fs)\<lparr>hd_request_body := b\<rparr>\<rparr>) = Some fs' \<and> request_inv pw s0 fs' \<and>
    hs_conn (fs_sink fs') = Some c' \<and> read_state len n es c' \<and> (body_arrives es c' = body_arrives es c)"
proof -
  let ?fs = "fs\<lparr>fs_data := (fs_data fs)\<lparr>hd_request_body := b\<rparr>\<rparr>"
  have "request_inv pw s0 ?fs" using assms(3) by (simp add: request_inv_data)
  then have "\<exists>fs'. onRequestBody pw e ?fs = Some fs' \<and> request_inv pw s0 fs' \<and> read_view (fs_sink fs') = read_view (fs_sink ?fs)"
    unfolding onRequestBody_def by (rule request_phase [OF assms(1,2)]) (use assms(2) in \<open>simp_all add: setEndOfStream_def setRequestBody_def\<close>)
  then obtain fs' where "onRequestBody pw e ?fs = Some fs'" "request_inv pw s0 fs'" "read_view (fs_sink fs') = read_view (fs_sink ?fs)"
    by blast
  with read_view_state [of "fs_sink fs'" "fs_sink ?fs" c len n es] assms(4,5) show ?thesis by auto
qed

lemma http_body_loop_ok:
  assumes hosted: "well_hosted pw" and excl: "quiet pw \<or> exclusive pw"
    and "request_inv pw s0 fs" "hs_conn (fs_sink fs) = Some c" "read_state len n es c"
  shows "\<exists>ok fs'. http_body_loop pw len n es fs = Some (ok, fs') \<and> (if ok then request_inv pw s0 fs' else failed (fs_sink fs')) \<and>
    (body_arrives es c \<longrightarrow> ok)"
  using assms(3-)
proof (induction "len - n" arbitrary: n es fs c rule: less_induct)
  case less
  show ?case
  proof (cases "n < len \<and> \<not> hd_has_local_response (fs_data fs)")
    case False
    then show ?thesis using less.prems by (subst http_body_loop.simps) auto
  next
    case True
    let ?want = "min (len - n) BODY_CHUNK_SIZE"
    have w: "0 < ?want" "?want \<le> cio_content_length c - n" using True less.prems(3) by (simp_all add: BODY_CHUNK_SIZE_def read_state_def)
    from await_body_post [OF this] less.prems(3) obtain r es' c' where
      a: "await_body ?want es c = Some (r, es', c')" and post: "read_post ?want n (body_arrives es c) es' c r c'"
      unfolding read_state_def by blast
    let ?fs = "on_conn (\<lambda>_. c') fs"
    have inv: "request_inv pw s0 ?fs" using request_inv_conn [OF less.prems(1,2)] post by (simp add: read_post_def)
    have conn: "hs_conn (fs_sink ?fs) = Some c'" using less.prems(2) by (simp add: on_conn_def)
    show ?thesis
    proof (cases "brr_status r = Error \<or> brr_status r = Truncated \<or> brr_data r = []")
      case bad: True
      then have "http_body_loop pw len n es fs = Some (False, on_conn setError ?fs)"
        using True less.prems(2) a by (subst http_body_loop.simps) (auto simp: Let_def)
      moreover have "\<not> body_arrives es c" using bad post by (auto simp: read_post_def)
      ultimately show ?thesis using failed_setError [OF conn] by (intro exI [of _ False] exI [of _ "on_conn setError ?fs"]) simp
    next
      case good: False
      let ?n = "n + length (brr_data r)"
      have st: "read_state len ?n es' c'" using post less.prems(3) by (simp add: read_post_def read_state_def)
      from request_body_phase [OF hosted excl inv conn st, of "len \<le> ?n" "brr_data r"] obtain fs2 c2 where
        b: "onRequestBody pw (len \<le> ?n) (?fs\<lparr>fs_data := (fs_data ?fs)\<lparr>hd_request_body := brr_data r\<rparr>\<rparr>) = Some fs2"
          "request_inv pw s0 fs2" "hs_conn (fs_sink fs2) = Some c2" "read_state len ?n es' c2" "body_arrives es' c2 = body_arrives es' c'"
        by blast
      have loop: "http_body_loop pw len n es fs = http_body_loop pw len ?n es' fs2"
        using True good less.prems(2) a b(1) by (subst http_body_loop.simps) (simp add: Let_def)
      have "0 < length (brr_data r)" using good by simp
      then have lt: "len - ?n < len - n" using True by linarith
      have arr: "body_arrives es c \<longrightarrow> body_arrives es' c2" using post b(5) by (simp add: read_post_def)
      from less.hyps [OF lt b(2-4)] obtain ok fs' where "http_body_loop pw len ?n es' fs2 = Some (ok, fs')"
        "if ok then request_inv pw s0 fs' else failed (fs_sink fs')" "body_arrives es' c2 \<longrightarrow> ok" by blast
      with arr show ?thesis unfolding loop by blast
    qed
  qed
qed

subsection \<open>The response\<close>

text \<open>
  A response whose end the client can tell: one \<open>Content-Length\<close>, which is the length of what
  follows the headers, or the chunked encoding with its terminator.
\<close>

definition fixed_response :: "str \<Rightarrow> bool" where
  "fixed_response out \<longleftrightarrow> (\<exists>code hs body. out = serialize_headers code hs @ body \<and>
    filter (\<lambda>h. header_name_eq (fst h) (ascii ''Content-Length'')) hs = [(ascii ''Content-Length'', number 10 (length body))])"

definition chunked_response :: "str \<Rightarrow> bool" where
  "chunked_response out \<longleftrightarrow> (\<exists>code hs ds. out = serialize_headers code (sent_headers hs True) @ concat (map http_chunk ds) @ ascii ''0'' @ CRLF @ CRLF \<and>
    http_accepts hs True \<and> list_all (\<lambda>d. d \<noteq> []) ds)"

definition answered :: "(str \<Rightarrow> bool) \<Rightarrow> HttpResponseSink \<Rightarrow> bool" where
  "answered R s \<longleftrightarrow> (\<exists>c. hs_conn s = Some c \<and> cio_finished c \<and> \<not> cio_write_error c) \<and> R (http_output s)"

lemma CL_eq: "header_name_eq (ascii ''Content-Length'') (ascii ''Content-Length'')"
  by (simp add: header_name_eq_def ascii_def tolower_def)

lemma with_content_length_fixed:
  "fixed_response (serialize_headers code (with_content_length d) @ hd_response_body d)"
proof -
  have "filter (\<lambda>h. header_name_eq (fst h) (ascii ''Content-Length'')) (with_content_length d) =
      [(ascii ''Content-Length'', number 10 (length (hd_response_body d)))]"
    by (simp add: with_content_length_def drop_name_def CL_eq filter_empty_conv)
  then show ?thesis unfolding fixed_response_def by blast
qed

lemma local_response_fixed: "fixed_response (build_local_response d)"
proof -
  let ?add = "filter (\<lambda>h. \<not> (header_name_eq (fst h) (ascii ''Content-Length'') \<or> header_name_eq (fst h) (ascii ''Content-Type'') \<or>
    header_name_eq (fst h) (ascii ''Connection''))) (hd_local_response_additional_headers d)"
  let ?hs = "[(ascii ''Content-Type'', ascii ''text/plain''), (ascii ''X-Powered-By'', ascii ''lswasm/proxy-wasm''),
    (ascii ''Connection'', ascii ''close'')] @ ?add @ [(ascii ''Content-Length'', number 10 (length (hd_local_response_body d)))]"
  have n: "\<not> header_name_eq (ascii ''Content-Type'') (ascii ''Content-Length'')"
    "\<not> header_name_eq (ascii ''X-Powered-By'') (ascii ''Content-Length'')" "\<not> header_name_eq (ascii ''Connection'') (ascii ''Content-Length'')"
    by (simp_all add: header_name_eq_def ascii_def tolower_def)
  have "filter (\<lambda>h. header_name_eq (fst h) (ascii ''Content-Length'')) ?add = []" by (auto simp: filter_empty_conv)
  then have "filter (\<lambda>h. header_name_eq (fst h) (ascii ''Content-Length'')) ?hs =
      [(ascii ''Content-Length'', number 10 (length (hd_local_response_body d)))]" using n by (simp add: CL_eq)
  then show ?thesis unfolding fixed_response_def build_local_response_def Let_def by blast
qed

lemma finish_sink:
  assumes "sink_ok (fs_sink fs)" "R (http_output (fs_sink fs))"
  shows "answered R (fs_sink (on_conn conn_finish fs))"
proof -
  obtain c where c: "hs_conn (fs_sink fs) = Some c" "write_open c" using sink_ok_conn [OF assms(1)] by blast
  have "http_output (fs_sink (on_conn conn_finish fs)) = http_output (fs_sink fs)"
    using c by (simp add: on_conn_def http_output_def conn_finish_def signal_eventfd_def pendingWriteData_def)
  then show ?thesis using c assms(2) by (simp add: answered_def on_conn_def conn_finish_def signal_eventfd_def)
qed

lemma chain_sink: "chain_inv s0 fs \<Longrightarrow> sink_ok (fs_sink fs)"
  by (simp add: chain_inv_def)

lemma chain_conn: "chain_inv s0 fs \<Longrightarrow> \<exists>c. hs_conn (fs_sink fs) = Some c"
  using chain_sink sink_ok_conn by blast

lemma chain_quiet_output:
  assumes "chain_inv s0 fs" "\<not> filter_hasStreamingResponse (fs_ctx fs)"
  shows "http_output (fs_sink fs) = http_output s0"
  using assms(1)
proof (unfold chain_inv_def, elim conjE disjE exE)
  fix n scope p c
  assume a: "fc_scopes (fs_ctx fs) = [(n, scope)]" "rs_ctx scope = Some (p, c)" "stream_inv s0 c (fs_sink fs)"
  with assms(2) one_scope_streaming(2) [OF a(1,2)] show ?thesis by (simp add: stream_inv_def)
qed

lemma write_and_finish_answered:
  assumes "chain_inv s0 fs" "\<not> filter_hasStreamingResponse (fs_ctx fs)" "http_output s0 = []" "R (concat ds)"
  shows "answered R (fs_sink (write_and_finish ds fs))"
proof -
  let ?s = "foldl (\<lambda>s d. sink_write d s) (fs_sink fs) ds"
  have "sink_ok ?s" "http_output ?s = concat ds"
    using sink_writes_ok [OF chain_sink [OF assms(1)], of ds] chain_quiet_output [OF assms(1,2)] assms(3) by simp_all
  then show ?thesis using finish_sink [of "fs\<lparr>fs_sink := ?s\<rparr>" R] assms(4) by (simp add: write_and_finish_def)
qed

lemma send_local_answered:
  assumes "chain_inv s0 fs" "\<not> filter_hasStreamingResponse (fs_ctx fs)" "http_output s0 = []"
  shows "answered fixed_response (fs_sink (send_local_response fs))"
  unfolding send_local_response_def
  by (rule write_and_finish_answered [OF assms]) (simp add: write_chunked_concat local_response_fixed)

lemma end_streaming_answered:
  assumes "chain_inv s0 fs" "http_output s0 = []"
  shows "answered chunked_response (fs_sink (end_streaming fs)) \<or> failed (fs_sink (end_streaming fs))"
proof (cases "filter_isStreamingFinished (fs_ctx fs)")
  case False
  then show ?thesis using failed_setError chain_conn [OF assms(1)] by (auto simp: end_streaming_def)
next
  case True
  with assms(1) obtain c where c: "stream_inv s0 c (fs_sink fs)" "lc_streaming_state c = Finished"
    by (auto simp: chain_inv_def filter_isStreamingFinished_def scope_test_def isStreamingFinished_def)
  then obtain st hs b where "http_accepts hs True" "http_delivered s0 st hs True (fs_sink fs) b" by (auto simp: stream_inv_def)
  then have "chunked_response (http_output (fs_sink fs))" using assms(2) unfolding http_delivered_def chunked_response_def by auto
  from finish_sink [OF chain_sink [OF assms(1)], of chunked_response, OF this] True show ?thesis by (simp add: end_streaming_def)
qed

subsection \<open>The whole request\<close>

text \<open>A module does not write a response while its context is torn down.\<close>

definition silent_end :: "('v, 'h, HttpResponseSink) proxy_wasm \<Rightarrow> bool" where
  "silent_end pw \<longleftrightarrow> (\<forall>p c s v c' s' v'. (pw_callback pw p OnDone c s v = Some (c', s', v') \<or> pw_callback pw p OnDelete c s v = Some (c', s', v')) \<longrightarrow> s' = s)"

lemma scope_created:
  assumes hosted: "well_hosted pw" and s: "sink_ok s" "http_output s = http_output s0"
  shows "\<exists>ok scope s' v'. createRequestScope pw mm m i new_scope s v = Some (ok, scope, s', v') \<and> read_view s' = read_view s \<and>
    (if ok then \<exists>p c. rs_ctx scope = Some (p, c) \<and> stream_inv s0 c s' \<and> lc_streaming_state c = Idle \<and> \<not> lc_has_local_response c else s' = s)"
proof (cases "map_of (mm_modules mm) m")
  case None
  then show ?thesis by (intro exI [of _ False] exI [of _ new_scope] exI [of _ s] exI [of _ v]) (simp add: createRequestScope_def)
next
  case (Some st)
  let ?p = "mst_plugin st"
  obtain h v1 where h: "pw_getOrCreateThreadLocalPlugin pw (mst_base_handle st) ?p v = (h, v1)" by fastforce
  show ?thesis
  proof (cases "\<exists>h' root. h = Some h' \<and> \<not> pw_isFailed pw h' v1 \<and> pw_getRootContext pw h' ?p v1 = Some root")
    case False
    then show ?thesis using h Some
      by (cases h; cases "pw_getRootContext pw (the h) ?p v1") (auto simp: createRequestScope_def scope_init_def Let_def)
  next
    case True
    then obtain h' root where hr: "h = Some h'" "\<not> pw_isFailed pw h' v1" "pw_getRootContext pw h' ?p v1 = Some root" by blast
    let ?c = "setParentContext (Some root) (createContext ?p)"
    have c: "stream_inv s0 ?c s" "lc_streaming_state ?c = Idle"
      using s by (simp_all add: stream_inv_def setParentContext_def createContext_def new_context_def)
    obtain c' s' v' where cb: "pw_callback pw ?p OnCreate ?c s v1 = Some (c', s', v')" using callback_returns [OF hosted] by blast
    have r: "lc_streaming_state (resetHeaderMaps (resetLocalResponse c')) = lc_streaming_state c'"
      by (simp add: resetHeaderMaps_def resetLocalResponse_def)
    have q: "lc_streaming_state c' = Idle" using callback_no_sink [OF hosted cb] c(2)
      by (simp add: setParentContext_def createContext_def new_context_def)
    have l: "\<not> lc_has_local_response (resetHeaderMaps (resetLocalResponse c'))" by (simp add: resetHeaderMaps_def resetLocalResponse_def)
    let ?scope = "new_scope\<lparr>rs_plugin_handle := True, rs_ctx := Some (?p, resetHeaderMaps (resetLocalResponse c')), rs_context_id := i\<rparr>"
    have "createRequestScope pw mm m i new_scope s v = Some (True, ?scope, s', v')"
      using h hr Some cb by (simp add: createRequestScope_def scope_init_def Let_def)
    then show ?thesis using callback_inv [OF hosted c(1) cb] stream_inv_cong [OF r] r q l
      by (intro exI [of _ True] exI [of _ ?scope] exI [of _ s'] exI [of _ v']) simp
  qed
qed

lemma start_one_module:
  assumes hosted: "well_hosted pw" and excl: "quiet pw \<or> exclusive pw" and inv: "request_inv pw s0 fs"
    and none: "fc_scopes (fs_ctx fs) = []" "\<not> hd_has_local_response (fs_data fs)"
  shows "\<exists>fs'. start_modules pw mm eos [m] fs = Some fs' \<and> request_inv pw s0 fs' \<and> read_view (fs_sink fs') = read_view (fs_sink fs)"
proof -
  have s: "sink_ok (fs_sink fs)" "http_output (fs_sink fs) = http_output s0" using inv none by (auto simp: request_inv_def chain_inv_def)
  from scope_created [OF hosted s, of mm m "fc_context_id (fs_ctx fs)" "fs_vm fs"] obtain ok scope s1 v1 where
    cr: "createRequestScope pw mm m (fc_context_id (fs_ctx fs)) new_scope (fs_sink fs) (fs_vm fs) = Some (ok, scope, s1, v1)"
      "read_view s1 = read_view (fs_sink fs)"
      "if ok then \<exists>p c. rs_ctx scope = Some (p, c) \<and> stream_inv s0 c s1 \<and> lc_streaming_state c = Idle \<and> \<not> lc_has_local_response c else s1 = fs_sink fs" by blast
  show ?thesis
  proof (cases ok)
    case False
    then show ?thesis using cr inv by (simp add: request_inv_def chain_inv_def)
  next
    case True
    then obtain p c where pc: "rs_ctx scope = Some (p, c)" "stream_inv s0 c s1" "lc_streaming_state c = Idle" "\<not> lc_has_local_response c" using cr(3) by auto
    let ?c = "setHeaderMap RequestHeaders (hd_request_headers (fs_data fs)) (setResponseSink (fc_sink (fs_ctx fs)) c)"
    have c: "lc_streaming_state ?c = lc_streaming_state c" "lc_has_local_response ?c = lc_has_local_response c"
      by (simp_all add: setHeaderMap_def setResponseSink_def)
    obtain c' s' v' where cb: "pw_callback pw p (OnRequestHeaders 0 eos) ?c s1 v1 = Some (c', s', v')" using callback_returns [OF hosted] by blast
    have post: "stream_inv s0 c' s'" "read_view s' = read_view s1" using callback_inv [OF hosted _ cb] pc(2) stream_inv_cong [OF c(1)] by blast+
    let ?scope = "scope\<lparr>rs_ctx := Some (p, c')\<rparr>"
    let ?d = "checkLocalResponse ?scope ((fs_data fs)\<lparr>hd_request_headers := getHeaderMapOwned RequestHeaders c'\<rparr>)"
    let ?fs = "\<lparr>fs_data = ?d, fs_ctx = (fs_ctx fs)\<lparr>fc_module_order := fc_module_order (fs_ctx fs) @ [m], fc_scopes := [(m, ?scope)]\<rparr>, fs_sink = s', fs_vm = v'\<rparr>"
    have run: "start_modules pw mm eos [m] fs = Some ?fs" using cr(1) True pc(1) cb none(1) by (simp add: emplace_scope_def Let_def)
    have str: "filter_hasStreamingResponse (fs_ctx ?fs) = (lc_streaming_state c' \<noteq> Idle)" by (rule one_scope_streaming(1)) simp
    have loc: "scope_test lc_has_local_response (fs_ctx ?fs) = lc_has_local_response c'" by (rule one_scope_local(1)) simp
    have d: "hd_has_local_response ?d = lc_has_local_response c'" using none(2) by (simp add: checkLocalResponse_def)
    have q: "lc_streaming_state c' = Idle" if "quiet pw" using that cb pc(3) c(1) unfolding quiet_def by metis
    have "lc_streaming_state c' = Idle" if "lc_has_local_response c'"
      using excl
    proof
      assume "exclusive pw"
      moreover have "request_callback (OnRequestHeaders 0 eos)" by simp
      ultimately show ?thesis using cb c pc(3,4) that unfolding exclusive_def by metis
    qed (rule q)
    then have "request_inv pw s0 ?fs" using post stream_inv_ok str loc d q by (auto simp: request_inv_def chain_inv_def)
    then show ?thesis using run post cr(2) by simp
  qed
qed

lemma request_headers_phase:
  assumes "well_hosted pw" "quiet pw \<or> exclusive pw" "request_inv pw s0 fs"
    "fc_scopes (fs_ctx fs) = []" "\<not> hd_has_local_response (fs_data fs)" "\<forall>m. mm = Some m \<longrightarrow> length (getLoadedModules m) \<le> 1"
  shows "\<exists>fs'. onRequestHeaders pw mm eos fs = Some fs' \<and> request_inv pw s0 fs' \<and> read_view (fs_sink fs') = read_view (fs_sink fs)"
proof -
  let ?fs = "fs\<lparr>fs_data := synthesizePseudoHeaders (fs_data fs)\<rparr>"
  have l: "hd_has_local_response (synthesizePseudoHeaders (fs_data fs)) = hd_has_local_response (fs_data fs)"
    by (simp add: synthesizePseudoHeaders_def Let_def)
  then have inv: "request_inv pw s0 ?fs" using assms(3) request_inv_data by blast
  show ?thesis
  proof (cases "\<exists>m k. mm = Some m \<and> getLoadedModules m = [k]")
    case True
    then obtain m k where "mm = Some m" "getLoadedModules m = [k]" by blast
    then have "onRequestHeaders pw mm eos fs = start_modules pw m eos [k] ?fs" by (simp only: onRequestHeaders_def Let_def option.case)
    then show ?thesis using start_one_module [OF assms(1,2) inv, where mm = m and m = k and eos = eos] assms(4,5) l by (simp del: start_modules.simps)
  next
    case False
    then have "onRequestHeaders pw mm eos fs = Some ?fs"
      using assms(6) by (cases mm; cases "getLoadedModules (the mm)") (auto simp: onRequestHeaders_def)
    then show ?thesis using inv by simp
  qed
qed

lemma default_response_ok:
  assumes hosted: "well_hosted pw" and inv: "response_inv pw s0 fs" and out: "http_output s0 = []"
  shows "\<exists>fs'. default_response pw pacifier fs = Some fs' \<and>
    (failed (fs_sink fs') \<or> answered fixed_response (fs_sink fs') \<or> answered chunked_response (fs_sink fs')) \<and>
    (quiet pw \<longrightarrow> answered fixed_response (fs_sink fs'))"
proof -
  let ?d = "(fs_data fs)\<lparr>hd_response_body := (case pacifier of Some body \<Rightarrow> body (fs_data fs) | None \<Rightarrow> []),
    hd_response_headers := [(ascii ''Content-Type'', ascii ''text/plain''), (ascii ''Connection'', ascii ''close'')]\<rparr>"
  let ?fs = "fs\<lparr>fs_data := ?d\<rparr>"
  have "response_inv pw s0 ?fs" using inv by (simp add: response_inv_def chain_inv_def)
  then obtain fs1 where 1: "onResponseHeaders pw ?fs = Some fs1" "response_inv pw s0 fs1"
    using response_phase [OF hosted] unfolding onResponseHeaders_def by (metis (no_types, lifting) setHeaderMap_streaming)
  obtain fs2 where 2: "onResponseBody pw fs1 = Some fs2" "response_inv pw s0 fs2"
    using response_phase [OF hosted 1(2)] unfolding onResponseBody_def
    by (metis (no_types, lifting) setHeaderMap_streaming setEndOfStream_streaming setResponseBody_streaming)
  obtain fs3 where 3: "onResponseTrailers pw fs2 = Some fs3" "response_inv pw s0 fs3"
    using response_phase [OF hosted 2(2)] unfolding onResponseTrailers_def by (metis (no_types, lifting) setHeaderMap_streaming)
  have inv3: "chain_inv s0 fs3" "quiet pw \<longrightarrow> \<not> filter_hasStreamingResponse (fs_ctx fs3)" using 3(2) by (simp_all add: response_inv_def)
  let ?r = "if hd_has_local_response (fs_data fs3)
       then if filter_hasStreamingResponse (fs_ctx fs3) then on_conn setError fs3 else send_local_response fs3
       else if filter_hasStreamingResponse (fs_ctx fs3) then end_streaming fs3
       else write_and_finish
         (serialize_headers 200 (with_content_length (fs_data fs3)) # write_chunked (hd_response_body (fs_data fs3))) fs3"
  have run: "default_response pw pacifier fs = Some ?r" using 1(1) 2(1) 3(1) by (simp add: default_response_def Let_def)
  have "answered fixed_response (fs_sink ?r)" if "\<not> filter_hasStreamingResponse (fs_ctx fs3)"
    using that send_local_answered [OF inv3(1) that out]
      write_and_finish_answered [OF inv3(1) that out, of fixed_response
        "serialize_headers 200 (with_content_length (fs_data fs3)) # write_chunked (hd_response_body (fs_data fs3))"]
    by (simp add: write_chunked_concat with_content_length_fixed)
  moreover have "failed (fs_sink ?r) \<or> answered chunked_response (fs_sink ?r)" if "filter_hasStreamingResponse (fs_ctx fs3)"
    using that end_streaming_answered [OF inv3(1) out] failed_setError chain_conn [OF inv3(1)] by auto
  ultimately show ?thesis using run inv3(2) by blast
qed

lemma http_stream_body_ok:
  assumes hosted: "well_hosted pw" and excl: "quiet pw \<or> exclusive pw"
    and inv: "request_inv pw s0 fs" and conn: "hs_conn (fs_sink fs) = Some c" and st: "read_state len (length (cio_body_prefix c)) es c"
  shows "\<exists>ok fs'. http_stream_body pw es fs = Some (ok, fs') \<and> (if ok then request_inv pw s0 fs' else failed (fs_sink fs')) \<and>
    (body_arrives es c \<longrightarrow> ok)"
proof -
  let ?pre = "cio_body_prefix c"
  have len: "cio_content_length c = len" using st by (simp add: read_state_def)
  show ?thesis
  proof (cases "len > 0")
    case False
    then have "http_stream_body pw es fs = Some (True, fs)" using conn len by (simp add: http_stream_body_def)
    then show ?thesis using inv by (intro exI [of _ True] exI [of _ fs]) simp
  next
    case True
    obtain fs1 c1 where 1: "(if ?pre \<noteq> [] then onRequestBody pw (len \<le> length ?pre) (fs\<lparr>fs_data := (fs_data fs)\<lparr>hd_request_body := ?pre\<rparr>\<rparr>) else Some fs) = Some fs1"
      "request_inv pw s0 fs1" "hs_conn (fs_sink fs1) = Some c1" "read_state len (length ?pre) es c1" "body_arrives es c1 = body_arrives es c"
      using request_body_phase [OF hosted excl inv conn st, of "len \<le> length ?pre" ?pre] inv conn st by (cases "?pre = []") auto
    have "http_stream_body pw es fs = http_body_loop pw len (length ?pre) es fs1"
      using True conn len 1(1) by (cases "?pre = []") (simp_all add: http_stream_body_def Let_def)
    then show ?thesis using http_body_loop_ok [OF hosted excl 1(2-4)] 1(5) by simp
  qed
qed

lemma destroy_silent:
  assumes "well_hosted pw" "silent_end pw"
  shows "\<exists>v'. destroy_scopes pw scopes s v = Some (s, v')"
proof (induction scopes arbitrary: v)
  case (Cons nsc scopes)
  obtain n scope where nsc: "nsc = (n, scope)" by fastforce
  have "\<exists>v'. destroy_scope pw scope s v = Some (s, v')"
  proof (cases "rs_ctx scope")
    case (Some pc)
    obtain p c where pc: "pc = (p, c)" by fastforce
    obtain c1 s1 v1 where 1: "pw_callback pw p OnDone c s v = Some (c1, s1, v1)" using callback_returns [OF assms(1)] by blast
    obtain c2 s2 v2 where 2: "pw_callback pw p OnDelete c1 s v1 = Some (c2, s2, v2)" using callback_returns [OF assms(1)] by blast
    have "s1 = s" "s2 = s" using assms(2) 1 2 unfolding silent_end_def by blast+
    then show ?thesis using 1 2 Some pc by (simp add: destroy_scope_def)
  qed (simp add: destroy_scope_def)
  then show ?case using Cons.IH nsc by auto
qed simp

lemma process_request_ok:
  assumes hosted: "well_hosted pw" and excl: "quiet pw \<or> exclusive pw" and inv: "request_inv pw s0 fs"
    and new: "fc_scopes (fs_ctx fs) = []" "\<not> hd_has_local_response (fs_data fs)"
    and one: "\<forall>m. mm = Some m \<longrightarrow> length (getLoadedModules m) \<le> 1"
    and conn: "hs_conn (fs_sink fs) = Some c" and st: "read_state len (length (cio_body_prefix c)) es c" and out: "http_output s0 = []"
  shows "\<exists>fs'. process_request pw mm pacifier es has_body fs = Some fs' \<and>
    (failed (fs_sink fs') \<or> answered fixed_response (fs_sink fs') \<or> answered chunked_response (fs_sink fs')) \<and>
    (quiet pw \<and> body_arrives es c \<longrightarrow> answered fixed_response (fs_sink fs'))"
proof -
  let ?ok = "\<lambda>s. failed s \<or> answered fixed_response s \<or> answered chunked_response s"
  obtain fs1 where 1: "onRequestHeaders pw mm (\<not> has_body) fs = Some fs1" "request_inv pw s0 fs1" "read_view (fs_sink fs1) = read_view (fs_sink fs)"
    using request_headers_phase [OF hosted excl inv new one, of "\<not> has_body"] by blast
  have local: "answered fixed_response (fs_sink (send_local_response fs'))" if "request_inv pw s0 fs'" "hd_has_local_response (fs_data fs')" for fs'
    using that by (auto simp: request_inv_def intro: send_local_answered [OF _ _ out])
  show ?thesis
  proof (cases "hd_has_local_response (fs_data fs1)")
    case True
    then show ?thesis using 1 local [OF 1(2) True] by (simp add: process_request_def)
  next
    case n1: False
    from read_view_state [OF 1(3) conn st] obtain c1 where
      c1: "hs_conn (fs_sink fs1) = Some c1" "read_state len (length (cio_body_prefix c1)) es c1" "body_arrives es c1 = body_arrives es c" by auto
    from http_stream_body_ok [OF hosted excl 1(2) c1(1,2)] obtain ok fs2 where
      2: "http_stream_body pw es fs1 = Some (ok, fs2)" "if ok then request_inv pw s0 fs2 else failed (fs_sink fs2)" "body_arrives es c \<longrightarrow> ok"
      unfolding c1(3) by blast
    show ?thesis
    proof (cases ok)
      case False
      then show ?thesis using 1(1) 2 n1 by (simp add: process_request_def)
    next
      case ok: True
      then have inv2: "request_inv pw s0 fs2" using 2(2) by simp
      have "\<exists>fs3. onRequestTrailers pw fs2 = Some fs3 \<and> request_inv pw s0 fs3 \<and> read_view (fs_sink fs3) = read_view (fs_sink fs2)"
        unfolding onRequestTrailers_def by (rule request_phase [OF hosted excl inv2]) simp_all
      then obtain fs3 where 3: "(if \<not> hd_has_local_response (fs_data fs2) then onRequestTrailers pw fs2 else Some fs2) = Some fs3" "request_inv pw s0 fs3"
        using inv2 by (cases "hd_has_local_response (fs_data fs2)") auto
      let ?r = "if hd_has_local_response (fs_data fs3) then Some (send_local_response fs3)
        else if filter_hasStreamingResponse (fs_ctx fs3) then Some (end_streaming fs3) else default_response pw pacifier fs3"
      have run: "process_request pw mm pacifier es has_body fs = ?r"
        using 1(1) 2(1) n1 ok 3(1) by (simp add: process_request_def split del: if_split)
      have chain: "chain_inv s0 fs3" "response_inv pw s0 fs3" "quiet pw \<longrightarrow> \<not> filter_hasStreamingResponse (fs_ctx fs3)"
        using 3(2) by (simp_all add: request_inv_def response_inv_def)
      from default_response_ok [OF hosted chain(2) out, of pacifier] local [OF 3(2)] end_streaming_answered [OF chain(1) out] chain(3)
      show ?thesis unfolding run by auto
    qed
  qed
qed



text \<open>A module that refuses a request when it has seen its whole body.\<close>

definition refusing_module :: "(unit, unit, HttpResponseSink) proxy_wasm" where
  "refusing_module =
    \<lparr>pw_getAbiVersion = (\<lambda>_ v. (Inr (Some ProxyWasm_0_2_1), v)), pw_makeVmKey = (\<lambda>_ _ code. code),
     pw_createWasm = (\<lambda>_ _ _ _ _ v. (Inr (Some ()), v)), pw_is_LsWasm = (\<lambda>_ _. True), pw_start = (\<lambda>_ _ v. (Inr (Some 1), v)),
     pw_configure = (\<lambda>_ _ _ v. (Inr True, v)), pw_getOrCreateThreadLocalPlugin = (\<lambda>h _ v. (Some h, v)), pw_isFailed = (\<lambda>_ _. False),
     pw_getRootContext = (\<lambda>_ _ _. Some 1),
     pw_callback = (\<lambda>_ cb c s v. Some (if \<exists>n. cb = OnRequestBody n True then snd (sendLocalResponse 403 (ascii ''no'') [] [] c) else c, s, v))\<rparr>"

definition sample_conn :: ConnectionIO where
  "sample_conn = setHeaderData (ascii ''POST / HTTP/1.1'' @ CRLF @ CRLF) [7] 3 new_connection"

lemma refusing_module_hosted: "well_hosted refusing_module"
  unfolding well_hosted_def
proof (intro allI)
  fix p cb c s v
  obtain r c' where c': "sendLocalResponse 403 (ascii ''no'') [] [] c = (r, c')" by fastforce
  have "host_run http_sink_ops (c, s) (c', s)" by (rule r_into_rtranclp) (rule host_local [OF c'])
  then show "\<exists>c' s' v'. pw_callback refusing_module p cb c s v = Some (c', s', v') \<and> host_run http_sink_ops (c, s) (c', s')"
    using c' by (simp add: refusing_module_def)
qed


end
