(* ===== verification/Lsapi_Prefork.thy ===== *)
theory Lsapi_Prefork
  imports Lsapi_World
begin

text \<open>
  The prefork server of lsapilib.c: the parent process that accepts connections and forks a
  worker for each, and the table of its children in shared memory. The signal handler
  \<open>lsapi_sigchild\<close> runs between the steps of the loop. Results of system calls are arguments.
\<close>

subsection \<open>State\<close>

record lsapi_child_status =
  cs_pid :: int
  cs_tmStart :: int
  cs_iKillSent :: int
  cs_inProcess :: bool
  cs_state :: worker_state
  cs_iReqCounter :: int
  cs_tmWaitBegin :: int
  cs_tmReqBegin :: int
  cs_tmLastCheckPoint :: int

text \<open>\<open>memset (pStatus, 0, sizeof (*pStatus))\<close>; \<open>LSAPI_STATE_IDLE\<close> is 0.\<close>

definition zero_status :: lsapi_child_status where
  "zero_status = \<lparr>cs_pid = 0, cs_tmStart = 0, cs_iKillSent = 0, cs_inProcess = False, cs_state = LSAPI_STATE_IDLE, cs_iReqCounter = 0,
    cs_tmWaitBegin = 0, cs_tmReqBegin = 0, cs_tmLastCheckPoint = 0\<rparr>"

text \<open>
  \<open>ps_children\<close> are the entries from \<open>m_pChildrenStatus\<close> to \<open>m_pChildrenStatusEnd\<close>, empty while the
  pointer is NULL; \<open>ps_cur\<close> is the index of \<open>m_pChildrenStatusCur\<close>.
\<close>

record lsapi_prefork_server =
  ps_fd :: int
  ps_iMaxChildren :: int
  ps_iExtraChildren :: int
  ps_iCurChildren :: int
  ps_iMaxIdleChildren :: int
  ps_iServerMaxIdle :: int
  ps_iChildrenMaxIdleTime :: int
  ps_iMaxReqProcessTime :: int
  ps_iAvoidFork :: bool
  ps_children :: "lsapi_child_status list"
  ps_cur :: nat

text \<open>
  The server and the static variables that it uses. The counters and the number of free pages
  are in shared memory and \<open>None\<close> while the pointers to them are NULL.
\<close>

record prefork_state =
  pf_server :: lsapi_prefork_server
  pf_busy_workers :: "int option"
  pf_accepting_workers :: "int option"
  pf_ignore_pid :: int
  pf_pid_dump_debug_info :: int
  pf_dump_debug_info :: bool
  pf_max_idle_secs :: int
  pf_max_busy_workers :: int
  pf_keep_listener :: int
  pf_total_pages :: nat
  pf_min_avail_pages :: nat
  pf_avail_pages :: "nat option"
  pf_ppid :: int
  pf_restored_ppid :: int
  pf_stop :: bool

definition on_server :: "(lsapi_prefork_server \<Rightarrow> lsapi_prefork_server) \<Rightarrow> prefork_state \<Rightarrow> prefork_state" where
  "on_server f st = st\<lparr>pf_server := f (pf_server st)\<rparr>"

subsection \<open>Setting up\<close>

text \<open>
  \<open>g_prefork_server\<close> is \<open>None\<close> while NULL. The arguments of the first operation are whether memory can
  be allocated, \<open>max_children\<close>, \<open>avoidFork\<close> and the pair of \<open>s_max_busy_workers\<close> and \<open>g_prefork_server\<close>.
\<close>

definition new_prefork_server :: "int \<Rightarrow> bool \<Rightarrow> lsapi_prefork_server" where
  "new_prefork_server max_children avoidFork =
    (let idle = (if avoidFork then max_children + 1 else max_children div 3)
     in \<lparr>ps_fd = 0, ps_iMaxChildren = max_children, ps_iExtraChildren = (if avoidFork then 0 else max_children div 3),
         ps_iCurChildren = 0, ps_iMaxIdleChildren = (if idle = 0 then 1 else idle), ps_iServerMaxIdle = 0,
         ps_iChildrenMaxIdleTime = 300, ps_iMaxReqProcessTime = 3600, ps_iAvoidFork = avoidFork, ps_children = [], ps_cur = 0\<rparr>)"

definition LSAPI_Init_Prefork_Server ::
  "bool \<Rightarrow> int \<Rightarrow> bool \<Rightarrow> int \<times> lsapi_prefork_server option \<Rightarrow> int \<times> int \<times> lsapi_prefork_server option" where
  "LSAPI_Init_Prefork_Server malloc_ok max_children avoidFork = (\<lambda>(max_busy_workers, server).
    if server \<noteq> None then (0, max_busy_workers, server)
    else if max_children \<le> 1 then (-1, max_busy_workers, server)
    else let max_children = (if max_children \<ge> 10000 then 10000 else max_children);
             max_busy_workers = (if max_busy_workers = 0 then max_children div 2 + 1 else max_busy_workers)
      in if \<not> malloc_ok then (-1, max_busy_workers, None)
         else (0, max_busy_workers, Some (new_prefork_server max_children avoidFork)))"

definition LSAPI_Set_Server_fd :: "int \<Rightarrow> lsapi_prefork_server option \<Rightarrow> lsapi_prefork_server option" where
  "LSAPI_Set_Server_fd fd = map_option (\<lambda>sv. sv\<lparr>ps_fd := fd\<rparr>)"

definition LSAPI_Set_Max_Children :: "int \<Rightarrow> lsapi_prefork_server option \<Rightarrow> lsapi_prefork_server option" where
  "LSAPI_Set_Max_Children maxChildren = map_option (\<lambda>sv. sv\<lparr>ps_iMaxChildren := maxChildren\<rparr>)"

definition LSAPI_Set_Extra_Children :: "int \<Rightarrow> lsapi_prefork_server option \<Rightarrow> lsapi_prefork_server option" where
  "LSAPI_Set_Extra_Children extraChildren =
    map_option (\<lambda>sv. if extraChildren \<ge> 0 then sv\<lparr>ps_iExtraChildren := extraChildren\<rparr> else sv)"

definition LSAPI_Set_Max_Process_Time :: "int \<Rightarrow> lsapi_prefork_server option \<Rightarrow> lsapi_prefork_server option" where
  "LSAPI_Set_Max_Process_Time secs = map_option (\<lambda>sv. if secs > 0 then sv\<lparr>ps_iMaxReqProcessTime := secs\<rparr> else sv)"

definition LSAPI_Set_Max_Idle_Children :: "int \<Rightarrow> lsapi_prefork_server option \<Rightarrow> lsapi_prefork_server option" where
  "LSAPI_Set_Max_Idle_Children maxIdleChld = map_option (\<lambda>sv. if maxIdleChld > 0 then sv\<lparr>ps_iMaxIdleChildren := maxIdleChld\<rparr> else sv)"

definition LSAPI_Set_Server_Max_Idle_Secs :: "int \<Rightarrow> lsapi_prefork_server option \<Rightarrow> lsapi_prefork_server option" where
  "LSAPI_Set_Server_Max_Idle_Secs serverMaxIdle = map_option (\<lambda>sv. sv\<lparr>ps_iServerMaxIdle := serverMaxIdle\<rparr>)"

text \<open>\<open>mmap_ok\<close>: the shared memory was mapped.\<close>

definition lsapi_init_children_status :: "bool \<Rightarrow> prefork_state \<Rightarrow> int \<times> prefork_state" where
  "lsapi_init_children_status mmap_ok st =
    (let sv = pf_server st in
     if ps_children sv \<noteq> [] then (0, st)
     else let max_children = ps_iMaxChildren sv + ps_iExtraChildren sv in
       if \<not> mmap_ok then (-1, st)
       else (0, st\<lparr>pf_server := sv\<lparr>ps_children := replicate (nat max_children) zero_status, ps_cur := 0\<rparr>,
              pf_busy_workers := Some 0, pf_accepting_workers := Some 0, pf_avail_pages := Some 0\<rparr>))"

subsection \<open>The table of children\<close>

definition find_child_status :: "int \<Rightarrow> lsapi_prefork_server \<Rightarrow> nat option \<times> lsapi_prefork_server" where
  "find_child_status pid sv =
    (case find (\<lambda>i. cs_pid (ps_children sv ! i) = pid) [0..<length (ps_children sv)] of
       None \<Rightarrow> (None, sv)
     | Some i \<Rightarrow>
         (Some i, sv\<lparr>ps_children := (if pid = 0 then (ps_children sv)[i := zero_status\<lparr>cs_pid := -1\<rparr>] else ps_children sv),
                     ps_cur := (if i + 1 > ps_cur sv then i + 1 else ps_cur sv)\<rparr>))"

definition LSAPI_reset_server_state :: "prefork_state \<Rightarrow> prefork_state" where
  "LSAPI_reset_server_state st =
    on_server (\<lambda>sv. sv\<lparr>ps_iCurChildren := 0, ps_children := map (\<lambda>c. c\<lparr>cs_pid := 0\<rparr>) (ps_children sv)\<rparr>)
      (st\<lparr>pf_busy_workers := map_option (\<lambda>_. 0) (pf_busy_workers st),
          pf_accepting_workers := map_option (\<lambda>_. 0) (pf_accepting_workers st)\<rparr>)"

text \<open>One child that \<open>waitpid\<close> reported.\<close>

definition reap_child :: "int \<Rightarrow> prefork_state \<Rightarrow> prefork_state" where
  "reap_child pid st =
    (if pid = pf_pid_dump_debug_info st then st
     else if pid = pf_ignore_pid st then st\<lparr>pf_ignore_pid := -1\<rparr>
     else case find_child_status pid (pf_server st) of
       (None, sv) \<Rightarrow> st
     | (Some i, sv) \<Rightarrow>
         let c = ps_children sv ! i;
             st = (if cs_state c = LSAPI_STATE_CONNECTED
                   then st\<lparr>pf_busy_workers := map_option (\<lambda>n. n - 1) (pf_busy_workers st)\<rparr>
                   else if cs_state c = LSAPI_STATE_ACCEPTING
                   then st\<lparr>pf_accepting_workers := map_option (\<lambda>n. n - 1) (pf_accepting_workers st)\<rparr>
                   else st)
         in st\<lparr>pf_server := sv\<lparr>ps_children := (ps_children sv)[i := c\<lparr>cs_state := LSAPI_STATE_IDLE, cs_pid := 0\<rparr>],
                               ps_iCurChildren := ps_iCurChildren sv - 1\<rparr>\<rparr>)"

fun trim_cur :: "lsapi_child_status list \<Rightarrow> nat \<Rightarrow> nat" where
  "trim_cur cs 0 = 0"
| "trim_cur cs (Suc n) = (if cs_pid (cs ! n) = 0 then trim_cur cs n else Suc n)"

text \<open>\<open>pids\<close>: the positive results of \<open>waitpid\<close>, in order.\<close>

definition lsapi_sigchild :: "int list \<Rightarrow> prefork_state \<Rightarrow> prefork_state" where
  "lsapi_sigchild pids st =
    on_server (\<lambda>sv. sv\<lparr>ps_cur := trim_cur (ps_children sv) (ps_cur sv)\<rparr>) (foldl (\<lambda>st pid. reap_child pid st) st pids)"

subsection \<open>The check of the children\<close>

datatype kill_result = Kill_ok | Kill_perm | Kill_srch

definition lsapi_parent_dead :: "kill_result \<Rightarrow> int \<Rightarrow> int \<Rightarrow> int \<Rightarrow> bool" where
  "lsapi_parent_dead kill0 getppid ppid restored_ppid \<longleftrightarrow>
    (if ppid = 0 then False
     else if restored_ppid \<noteq> 0 then kill0 = Kill_srch
     else ppid \<noteq> getppid)"

abbreviation (input) SIGKILL :: int where "SIGKILL \<equiv> 9"
abbreviation (input) SIGTERM :: int where "SIGTERM \<equiv> 15"

text \<open>\<open>fork_result\<close> is the process that runs the debugger; the child never returns.\<close>

definition dump_debug_info :: "kill_result \<Rightarrow> int \<Rightarrow> prefork_state \<Rightarrow> prefork_state" where
  "dump_debug_info kill0 fork_result st =
    (if pf_pid_dump_debug_info st \<noteq> 0 \<and> kill0 = Kill_ok then st else st\<lparr>pf_pid_dump_debug_info := fork_result\<rparr>)"

text \<open>\<open>m_iKillSent\<close> is a \<open>short\<close>.\<close>

definition short_inc :: "int \<Rightarrow> int" where
  "short_inc n = (if n = 32767 then -32768 else n + 1)"

record check_env =
  ce_time :: int
  ce_kill :: "int \<Rightarrow> int \<Rightarrow> kill_result"
  ce_dump_kill0 :: kill_result
  ce_dump_fork :: int

text \<open>One entry; the numbers are \<open>idle\<close>, \<open>dying\<close> and \<open>count\<close>.\<close>

definition check_child :: "check_env \<Rightarrow> nat \<Rightarrow> int \<times> int \<times> int \<times> prefork_state \<Rightarrow> int \<times> int \<times> int \<times> prefork_state" where
  "check_child env i = (\<lambda>(idle, dying, count, st).
    let sv = pf_server st; c = ps_children sv ! i;
        put = (\<lambda>c st. on_server (\<lambda>sv. sv\<lparr>ps_children := (ps_children sv)[i := c]\<rparr>) st)
    in if cs_pid c = 0 \<or> cs_pid c = -1 then (idle, dying, count, st)
       else if \<not> cs_inProcess c
       then let c = (if ps_iCurChildren sv - dying > ps_iMaxChildren sv \<or> idle > ps_iMaxIdleChildren sv
                     then c\<lparr>cs_iKillSent := short_inc (cs_iKillSent c)\<rparr>
                     else if pf_max_idle_secs st > 0 \<and> ce_time env - cs_tmWaitBegin c > pf_max_idle_secs st + 5
                     then c\<lparr>cs_iKillSent := short_inc (cs_iKillSent c)\<rparr>
                     else c)
         in (if cs_iKillSent c = 0 then idle + 1 else idle, dying, count + 1, put c st)
       else if ce_time env - cs_tmReqBegin c > ps_iMaxReqProcessTime sv
       then let st = (if cs_iKillSent c mod 5 = 0 \<and> pf_dump_debug_info st
                      then dump_debug_info (ce_dump_kill0 env) (ce_dump_fork env) st else st);
                tobekilled = (if cs_iKillSent c > 5 then SIGKILL else SIGTERM)
         in if ce_kill env (cs_pid c) tobekilled = Kill_srch
            then (idle, dying, count, put (c\<lparr>cs_pid := 0\<rparr>) st)
            else (idle, dying + 1, count + 1, put (c\<lparr>cs_iKillSent := short_inc (cs_iKillSent c)\<rparr>) st)
       else (idle, dying, count + 1, st))"

definition lsapi_check_child_status :: "check_env \<Rightarrow> prefork_state \<Rightarrow> prefork_state" where
  "lsapi_check_child_status env st =
    (case foldl (\<lambda>x i. check_child env i x) (0, 0, 0, st) [0..<ps_cur (pf_server st)] of (_, _, _, st) \<Rightarrow> st)"

text \<open>\<open>size_t\<close> arithmetic; no result where \<open>s_avail_pages\<close> is NULL or the machine reports no pages.\<close>

definition is_enough_free_mem :: "nat option \<Rightarrow> nat \<Rightarrow> nat \<Rightarrow> bool option" where
  "is_enough_free_mem avail_pages min_avail_pages total_pages = do {
    avail \<leftarrow> avail_pages;
    if avail > min_avail_pages then Some True
    else if total_pages = 0 then None
    else Some ((avail * 10 mod 2 ^ 64) div total_pages > 0) }"

subsection \<open>The loop of the server\<close>

definition server_full :: "prefork_state \<Rightarrow> bool" where
  "server_full st \<longleftrightarrow> ps_iCurChildren (pf_server st) \<ge> ps_iMaxChildren (pf_server st) + ps_iExtraChildren (pf_server st)"

text \<open>An entry for the new worker, before \<open>fork\<close>; \<open>None\<close> when the table is full.\<close>

definition reserve_child :: "prefork_state \<Rightarrow> nat option \<times> prefork_state" where
  "reserve_child st = (case find_child_status 0 (pf_server st) of (i, sv) \<Rightarrow> (i, st\<lparr>pf_server := sv\<rparr>))"

definition fork_failed :: "nat option \<Rightarrow> prefork_state \<Rightarrow> prefork_state" where
  "fork_failed slot st =
    (case slot of None \<Rightarrow> st
     | Some i \<Rightarrow> on_server (\<lambda>sv. sv\<lparr>ps_children := (ps_children sv)[i := (ps_children sv ! i)\<lparr>cs_pid := 0\<rparr>]\<rparr>) st)"

definition fork_parent :: "int \<Rightarrow> int \<Rightarrow> nat option \<Rightarrow> prefork_state \<Rightarrow> prefork_state" where
  "fork_parent pid curTime slot st =
    on_server (\<lambda>sv. let sv = sv\<lparr>ps_iCurChildren := ps_iCurChildren sv + 1\<rparr>
      in case slot of None \<Rightarrow> sv
         | Some i \<Rightarrow> sv\<lparr>ps_children := (ps_children sv)[i := (ps_children sv ! i)\<lparr>cs_pid := pid, cs_tmWaitBegin := curTime, cs_tmStart := curTime\<rparr>]\<rparr>) st"

text \<open>
  The child after \<open>fork\<close>: its entry is connected and counted, and it decides whether to keep the
  listening socket. The second result says that the socket is closed; there is no result when
  the child has no entry, because it then writes through a null pointer.
\<close>

definition keeps_listener :: "bool \<Rightarrow> prefork_state \<Rightarrow> bool option" where
  "keeps_listener is_root st =
    (if is_root \<or> pf_keep_listener st = 0 then Some False
     else is_enough_free_mem (pf_avail_pages st) (pf_min_avail_pages st) (pf_total_pages st))"

definition fork_child :: "int \<Rightarrow> bool \<Rightarrow> bool \<Rightarrow> nat option \<Rightarrow> prefork_state \<Rightarrow> (prefork_state \<times> bool) option" where
  "fork_child ppid is_root has_listener slot st = do {
    i \<leftarrow> slot;
    let st = on_server (\<lambda>sv. sv\<lparr>ps_children := (ps_children sv)[i := (ps_children sv ! i)\<lparr>cs_state := LSAPI_STATE_CONNECTED\<rparr>]\<rparr>) st;
    let st = st\<lparr>pf_ppid := ppid, pf_busy_workers := map_option (\<lambda>n. n + 1) (pf_busy_workers st)\<rparr>;
    let st = (case pf_busy_workers st of
        Some n \<Rightarrow> if pf_keep_listener st = 0 \<and> n > ps_iMaxChildren (pf_server st) div 2 then st\<lparr>pf_keep_listener := 1\<rparr> else st
      | None \<Rightarrow> st);
    keep \<leftarrow> keeps_listener is_root st;
    Some (st, \<not> keep \<and> has_listener) }"

datatype select_result = Sel_ready | Sel_timeout | Sel_intr | Sel_error
datatype accept_result = Acc_conn | Acc_again | Acc_error
datatype fork_result = Fork_parent int | Fork_child int | Fork_error

text \<open>
  What the system does in one round: the children that \<open>SIGCHLD\<close> reports at the start, while
  the server waits and between \<open>find_child_status\<close> and the mask, a stop signal, the time, and
  the results of the calls.
\<close>

record round_env = check_env +
  re_stop :: bool
  re_timer :: "int option"  \<comment> \<open>what the timer callback sets \<open>s_ignore_pid\<close> to\<close>
  re_sig1 :: "int list"
  re_sig2 :: "int list"
  re_sig3 :: "int list"
  re_kill0 :: kill_result
  re_getppid :: int
  re_avail :: nat
  re_select :: select_result
  re_accept :: accept_result
  re_fork :: fork_result

datatype server_result =
    Next prefork_state int int          \<comment> \<open>another round, with \<open>wait_secs\<close> and \<open>lastTime\<close>\<close>
  | Give_up prefork_state               \<comment> \<open>return -1\<close>
  | Worker nat prefork_state bool       \<comment> \<open>return 0 in a worker with this entry; the listener was closed\<close>
  | Fault

definition accept_and_fork :: "bool \<Rightarrow> bool \<Rightarrow> round_env \<Rightarrow> int \<Rightarrow> int \<Rightarrow> prefork_state \<Rightarrow> server_result" where
  "accept_and_fork is_root has_listener env wait_secs lastTime st =
    (case re_accept env of
       Acc_again \<Rightarrow> Next st wait_secs lastTime
     | Acc_error \<Rightarrow> Give_up st
     | Acc_conn \<Rightarrow>
         (case reserve_child st of (slot, st) \<Rightarrow>
           let st = (if re_sig3 env = [] then st else lsapi_sigchild (re_sig3 env) st)
           in case re_fork env of
                Fork_child ppid \<Rightarrow>
                  (case fork_child ppid is_root has_listener slot st of
                     Some (st, closed) \<Rightarrow> Worker (the slot) st closed | None \<Rightarrow> Fault)
              | Fork_error \<Rightarrow> Next (fork_failed slot st) 0 lastTime
              | Fork_parent pid \<Rightarrow> Next (fork_parent pid (ce_time env) slot st) 0 lastTime))"

text \<open>
  A round up to the point where a connection is accepted. The variable \<open>ret\<close> holds the result of
  the last \<open>select\<close>; it is returned when \<open>LSAPI_Accept_Before_Fork\<close> leaves its loop.
\<close>

datatype round_result =
    Continue prefork_state int int int  \<comment> \<open>the next round, with \<open>wait_secs\<close>, \<open>lastTime\<close> and \<open>ret\<close>\<close>
  | Leave prefork_state int             \<comment> \<open>break, with \<open>ret\<close>\<close>
  | Quit prefork_state                  \<comment> \<open>return -1\<close>
  | Arrived prefork_state int int       \<comment> \<open>a connection waits and there may be another worker\<close>
  | Null_pages                          \<comment> \<open>a write through \<open>s_avail_pages\<close>, which is NULL\<close>

definition round_prefix :: "round_env \<Rightarrow> prefork_state \<Rightarrow> int \<Rightarrow> int \<Rightarrow> int \<Rightarrow> round_result" where
  "round_prefix env st wait_secs lastTime ret =
    (let st = (if re_sig1 env = [] then st else lsapi_sigchild (re_sig1 env) st);
         st = (case re_timer env of Some pid \<Rightarrow> st\<lparr>pf_ignore_pid := pid\<rparr> | None \<Rightarrow> st);
         curTime = ce_time env;
         tick = (curTime \<noteq> lastTime)
     in if tick \<and> lsapi_parent_dead (re_kill0 env) (re_getppid env) (pf_ppid st) (pf_restored_ppid st) then Leave st ret
        else let st = (if tick then lsapi_check_child_status (check_env.truncate env) st else st);
                 wait_secs = (if tick \<and> ps_iServerMaxIdle (pf_server st) \<noteq> 0
                              then if ps_iCurChildren (pf_server st) \<le> 0 then wait_secs + 1 else 0 else wait_secs)
          in if tick \<and> ps_iServerMaxIdle (pf_server st) \<noteq> 0 \<and> ps_iCurChildren (pf_server st) \<le> 0 \<and>
                wait_secs > ps_iServerMaxIdle (pf_server st) then Quit st
             else if pf_avail_pages st = None then Null_pages
             else let st = st\<lparr>pf_avail_pages := Some (re_avail env)\<rparr>;
                      st = (if re_sig2 env = [] then st else lsapi_sigchild (re_sig2 env) st)
               in case re_select env of
                    Sel_timeout \<Rightarrow> Continue st wait_secs curTime 0
                  | Sel_intr \<Rightarrow> Continue st wait_secs curTime (-1)
                  | Sel_error \<Rightarrow> Leave st (-1)
                  | Sel_ready \<Rightarrow>
                      if ps_iCurChildren (pf_server st) > 0 \<and> (case pf_accepting_workers st of Some n \<Rightarrow> n > 0 | None \<Rightarrow> False)
                      then Continue st wait_secs curTime 1
                      else if server_full st then Continue st wait_secs curTime 1
                      else Arrived st wait_secs curTime)"

definition server_round :: "bool \<Rightarrow> bool \<Rightarrow> round_env \<Rightarrow> prefork_state \<Rightarrow> int \<Rightarrow> int \<Rightarrow> server_result" where
  "server_round is_root has_listener env st wait_secs lastTime =
    (case round_prefix env st wait_secs lastTime 0 of
       Continue st wait_secs lastTime ret \<Rightarrow> Next st wait_secs lastTime
     | Leave st ret \<Rightarrow> Give_up st
     | Quit st \<Rightarrow> Give_up st
     | Null_pages \<Rightarrow> Fault
     | Arrived st wait_secs lastTime \<Rightarrow> accept_and_fork is_root has_listener env wait_secs lastTime st)"

fun server_loop :: "bool \<Rightarrow> bool \<Rightarrow> round_env list \<Rightarrow> prefork_state \<Rightarrow> int \<Rightarrow> int \<Rightarrow> server_result" where
  "server_loop is_root has_listener [] st wait_secs lastTime = Next st wait_secs lastTime"
| "server_loop is_root has_listener (env # envs) st wait_secs lastTime =
    (if pf_stop st then Give_up st
     else case server_round is_root has_listener env (st\<lparr>pf_stop := re_stop env\<rparr>) wait_secs lastTime of
       Next st wait_secs lastTime \<Rightarrow> server_loop is_root has_listener envs st wait_secs lastTime
     | r \<Rightarrow> r)"

definition lsapi_prefork_server_accept ::
  "bool \<Rightarrow> bool \<Rightarrow> bool \<Rightarrow> bool \<Rightarrow> round_env list \<Rightarrow> prefork_state \<Rightarrow> server_result" where
  "lsapi_prefork_server_accept mmap_ok handlers_ok is_root has_listener envs st =
    (case lsapi_init_children_status mmap_ok st of (_, st) \<Rightarrow>
     if \<not> handlers_ok then Give_up st else server_loop is_root has_listener envs st 0 0)"

subsection \<open>The interface for a caller that forks itself\<close>

datatype before_fork =
    Waiting prefork_state
  | Finished int "nat option" bool prefork_state  \<comment> \<open>the result, \<open>child_status\<close> and whether there is a connection\<close>
  | Faulted

fun before_fork_loop :: "round_env list \<Rightarrow> prefork_state \<Rightarrow> int \<Rightarrow> int \<Rightarrow> int \<Rightarrow> before_fork" where
  "before_fork_loop [] st wait_secs lastTime ret = (if pf_stop st then Finished ret None False st else Waiting st)"
| "before_fork_loop (env # envs) st wait_secs lastTime ret =
    (if pf_stop st then Finished ret None False st
     else case round_prefix env (st\<lparr>pf_stop := re_stop env\<rparr>) wait_secs lastTime ret of
       Continue st wait_secs lastTime ret \<Rightarrow> before_fork_loop envs st wait_secs lastTime ret
     | Leave st ret \<Rightarrow> Finished ret None False st
     | Quit st \<Rightarrow> Finished (-1) None False st
     | Null_pages \<Rightarrow> Faulted
     | Arrived st wait_secs lastTime \<Rightarrow>
         (case re_accept env of
            Acc_again \<Rightarrow> before_fork_loop envs st wait_secs lastTime 1
          | Acc_error \<Rightarrow> Finished (-1) None False st
          | Acc_conn \<Rightarrow> (case reserve_child st of (slot, st) \<Rightarrow> Finished 0 slot True st)))"

definition LSAPI_Accept_Before_Fork :: "bool \<Rightarrow> bool \<Rightarrow> round_env list \<Rightarrow> prefork_state \<Rightarrow> before_fork" where
  "LSAPI_Accept_Before_Fork mmap_ok handlers_ok envs st =
    (case lsapi_init_children_status mmap_ok st of (_, st) \<Rightarrow>
     if \<not> handlers_ok then Finished (-1) None False st
     else before_fork_loop envs (st\<lparr>pf_stop := False\<rparr>) 0 0 0)"

definition LSAPI_Postfork_Child :: "int \<Rightarrow> int \<Rightarrow> bool \<Rightarrow> bool \<Rightarrow> nat option \<Rightarrow> prefork_state \<Rightarrow> (prefork_state \<times> bool) option" where
  "LSAPI_Postfork_Child pid ppid is_root has_listener slot st = do {
    i \<leftarrow> slot;
    fork_child ppid is_root has_listener slot
      (on_server (\<lambda>sv. sv\<lparr>ps_children := (ps_children sv)[i := (ps_children sv ! i)\<lparr>cs_pid := pid\<rparr>]\<rparr>) st) }"

definition LSAPI_Postfork_Parent :: "int \<Rightarrow> nat option \<Rightarrow> prefork_state \<Rightarrow> prefork_state" where
  "LSAPI_Postfork_Parent curTime slot st =
    on_server (\<lambda>sv. let sv = sv\<lparr>ps_iCurChildren := ps_iCurChildren sv + 1\<rparr>
      in case slot of None \<Rightarrow> sv
         | Some i \<Rightarrow> sv\<lparr>ps_children := (ps_children sv)[i := (ps_children sv ! i)\<lparr>cs_tmWaitBegin := curTime, cs_tmStart := curTime\<rparr>]\<rparr>) st"

end
