(* ===== verification/Lsapi_Prefork_Correct.thy ===== *)
theory Lsapi_Prefork_Correct
  imports Lsapi_Prefork "HOL-Library.Multiset"
begin

text \<open>
  The parent process keeps track of its children: at every moment the table and the counter
  agree with the processes that are alive, whenever signals arrive, and a new worker always
  finds an entry.
\<close>

subsection \<open>Steps\<close>

text \<open>
  A configuration is the state of the parent, the set of its live workers, and the entry that
  is reserved while a \<open>fork\<close> is under way. The steps are the parts that
  \<open>lsapi_prefork_server_accept\<close> is made of; \<open>SIGCHLD\<close> is delivered between them, workers write to
  their entries and to the shared counters at any time. The system reports each dead child
  once, does not deny that a live one exists, and gives a new child an unused process number.
\<close>

type_synonym server_config = "prefork_state \<times> int set \<times> nat option option"

inductive server_step :: "server_config \<Rightarrow> server_config \<Rightarrow> bool" where
  step_sigchild: "distinct pids \<Longrightarrow> set pids \<subseteq> L \<union> {pf_pid_dump_debug_info st, pf_ignore_pid st} \<Longrightarrow>
    server_step (st, L, pend) (lsapi_sigchild pids st, L - set pids, pend)"
| step_check: "(\<forall>pid sig. pid \<in> L \<longrightarrow> ce_kill env pid sig \<noteq> Kill_srch) \<Longrightarrow> ce_dump_fork env \<notin> L \<Longrightarrow>
    server_step (st, L, pend) (lsapi_check_child_status env st, L, pend)"
| step_timer: "pid \<notin> L \<Longrightarrow> server_step (st, L, pend) (st\<lparr>pf_ignore_pid := pid\<rparr>, L, pend)"
| step_reserve: "\<not> server_full st \<Longrightarrow> reserve_child st = (slot, st') \<Longrightarrow> server_step (st, L, None) (st', L, Some slot)"
| step_forked: "0 < pid \<Longrightarrow> pid \<notin> L \<Longrightarrow> pid \<noteq> pf_pid_dump_debug_info st \<Longrightarrow> pid \<noteq> pf_ignore_pid st \<Longrightarrow>
    server_step (st, L, Some slot) (fork_parent pid t slot st, insert pid L, None)"
| step_fork_failed: "server_step (st, L, Some slot) (fork_failed slot st, L, None)"
| step_worker: "map cs_pid cs = map cs_pid (ps_children (pf_server st)) \<Longrightarrow>
    server_step (st, L, pend) (on_server (\<lambda>sv. sv\<lparr>ps_children := cs\<rparr>) (st\<lparr>pf_busy_workers := b, pf_accepting_workers := a\<rparr>), L, pend)"
| step_round: "server_step (st, L, pend) (st\<lparr>pf_avail_pages := n, pf_stop := s\<rparr>, L, pend)"

definition start_config :: "prefork_state \<Rightarrow> server_config" where
  "start_config st = (snd (lsapi_init_children_status True st), {}, None)"

subsection \<open>The invariant\<close>

abbreviation entry_pids :: "prefork_state \<Rightarrow> int list" where
  "entry_pids st \<equiv> map cs_pid (ps_children (pf_server st))"

definition reserved :: "nat option option \<Rightarrow> int multiset" where
  "reserved pend = (case pend of Some (Some _) \<Rightarrow> {#-1#} | _ \<Rightarrow> {#})"

fun server_inv :: "server_config \<Rightarrow> bool" where
  "server_inv (st, L, pend) \<longleftrightarrow>
    finite L \<and> (\<forall>p\<in>L. 0 < p) \<and> pf_pid_dump_debug_info st \<notin> L \<and> pf_ignore_pid st \<notin> L \<and>
    (\<exists>z. mset (entry_pids st) = mset_set L + reserved pend + replicate_mset z 0) \<and>
    ps_iCurChildren (pf_server st) = int (card L) \<and>
    int (length (entry_pids st)) = ps_iMaxChildren (pf_server st) + ps_iExtraChildren (pf_server st) \<and>
    (\<forall>i. ps_cur (pf_server st) \<le> i \<and> i < length (entry_pids st) \<longrightarrow> entry_pids st ! i = 0) \<and> ps_cur (pf_server st) \<le> length (entry_pids st) \<and>
    pend \<noteq> Some None \<and> (\<forall>i. pend = Some (Some i) \<longrightarrow> i < length (entry_pids st) \<and> entry_pids st ! i = -1)"

lemma find_pid:
  assumes "find (\<lambda>i. cs_pid (cs ! i) = pid) [0..<length cs] = Some i"
  shows "i < length cs" "map cs_pid cs ! i = pid"
  using assms by (auto simp: find_Some_iff)

lemma find_pid_None: "find (\<lambda>i. cs_pid (cs ! i) = pid) [0..<length cs] = None \<longleftrightarrow> pid \<notin> set (map cs_pid cs)"
  by (auto simp: find_None_iff in_set_conv_nth) (metis image_eqI nth_mem)

lemma map_pid_update: "map cs_pid (cs[i := c]) = (map cs_pid cs)[i := cs_pid c]"
  by (rule map_update)

lemma mset_pid_update:
  "i < length cs \<Longrightarrow> mset (map cs_pid (cs[i := c])) = add_mset (cs_pid c) (mset (map cs_pid cs) - {#map cs_pid cs ! i#})"
  unfolding map_pid_update by (simp add: mset_update)

lemma trim_cur_spec:
  assumes "n \<le> length cs" "\<forall>i. n \<le> i \<and> i < length cs \<longrightarrow> cs_pid (cs ! i) = 0"
  shows "trim_cur cs n \<le> length cs \<and> (\<forall>i. trim_cur cs n \<le> i \<and> i < length cs \<longrightarrow> cs_pid (cs ! i) = 0)"
  using assms
proof (induction n)
  case (Suc n)
  show ?case
  proof (cases "cs_pid (cs ! n) = 0")
    case True
    then have "\<forall>i. n \<le> i \<and> i < length cs \<longrightarrow> cs_pid (cs ! i) = 0" using Suc.prems(2) by (metis le_antisym not_less_eq_eq)
    with Suc.IH Suc.prems(1) True show ?thesis by simp
  qed (use Suc.prems in simp)
qed simp

lemma trim_inv: "server_inv (st, L, pend) \<Longrightarrow>
    server_inv (on_server (\<lambda>sv. sv\<lparr>ps_cur := trim_cur (ps_children sv) (ps_cur sv)\<rparr>) st, L, pend)"
  using trim_cur_spec [of "ps_cur (pf_server st)" "ps_children (pf_server st)"] by (auto simp: on_server_def)

subsection \<open>Every step keeps the invariant\<close>

text \<open>What a single write to an entry does to the multiset of process numbers.\<close>

lemma pids_reap:
  assumes "mset ps = mset_set L + R + replicate_mset z 0" "finite L" "i < length ps" "ps ! i \<in> L"
  shows "mset (ps[i := 0]) = mset_set (L - {ps ! i}) + R + replicate_mset (Suc z) 0"
proof -
  have "mset_set L = add_mset (ps ! i) (mset_set (L - {ps ! i}))"
    using assms(2,4) by (simp add: mset_set.remove)
  with assms(1,3) show ?thesis by (simp add: mset_update)
qed

lemma pids_reserve:
  assumes "mset ps = mset_set L + replicate_mset z 0" "i < length ps" "ps ! i = 0" "0 \<notin> L"
  shows "\<exists>z. mset (ps[i := -1]) = mset_set L + {#-1#} + replicate_mset z 0"
proof -
  have "0 \<in># mset ps" using assms(2,3) by (metis nth_mem_mset)
  then have "0 < z" using assms(1,4) by (cases "finite L") (auto split: if_splits)
  then obtain z' where "z = Suc z'" using gr0_conv_Suc by blast
  with assms(1-3) show ?thesis by (intro exI [of _ z']) (simp add: mset_update)
qed

lemma pids_forked:
  assumes "mset ps = mset_set L + {#-1#} + replicate_mset z 0" "i < length ps" "ps ! i = -1" "p \<notin> L" "finite L"
  shows "mset (ps[i := p]) = mset_set (insert p L) + replicate_mset z 0"
  using assms by (simp add: mset_update)

lemma pids_failed:
  assumes "mset ps = mset_set L + {#-1#} + replicate_mset z 0" "i < length ps" "ps ! i = -1"
  shows "mset (ps[i := 0]) = mset_set L + replicate_mset (Suc z) 0"
  using assms by (simp add: mset_update)

lemma reap_frame [simp]:
  "pf_pid_dump_debug_info (reap_child pid st) = pf_pid_dump_debug_info st"
  "pf_ignore_pid (reap_child pid st) = (if pid \<noteq> pf_pid_dump_debug_info st \<and> pid = pf_ignore_pid st then -1 else pf_ignore_pid st)"
  by (auto simp: reap_child_def Let_def split: prod.splits option.splits)

lemma reap_live:
  assumes inv: "server_inv (st, L, pend)" and pid: "pid \<in> L"
  shows "server_inv (reap_child pid st, L - {pid}, pend)"
proof -
  let ?sv = "pf_server st" and ?ps = "entry_pids st"
  obtain z where ms: "mset ?ps = mset_set L + reserved pend + replicate_mset z 0" and fin: "finite L" using inv by auto
  have "pid \<in># mset ?ps" using ms fin pid by simp
  then have "pid \<in> set ?ps" by simp
  then obtain i where i: "find (\<lambda>i. cs_pid (ps_children ?sv ! i) = pid) [0..<length (ps_children ?sv)] = Some i"
    using find_pid_None [of "ps_children ?sv" pid] by fastforce
  note at = find_pid [OF i]
  define c where "c = (ps_children ?sv ! i)\<lparr>cs_state := LSAPI_STATE_IDLE, cs_pid := 0\<rparr>"
  have ne: "pid \<noteq> 0" "pid \<noteq> -1" "pid \<noteq> pf_pid_dump_debug_info st" "pid \<noteq> pf_ignore_pid st" using inv pid by force+
  have sv: "pf_server (reap_child pid st) =
      ?sv\<lparr>ps_cur := (if i + 1 > ps_cur ?sv then i + 1 else ps_cur ?sv), ps_children := (ps_children ?sv)[i := c],
        ps_iCurChildren := ps_iCurChildren ?sv - 1\<rparr>"
    using ne by (simp add: reap_child_def find_child_status_def i Let_def c_def)
  have new: "entry_pids (reap_child pid st) = ?ps[i := 0]" by (simp add: sv map_update c_def)
  have "mset (entry_pids (reap_child pid st)) = mset_set (L - {pid}) + reserved pend + replicate_mset (Suc z) 0"
    unfolding new using pids_reap [OF ms fin, of i] at pid by simp
  then have ms': "\<exists>z. mset (entry_pids (reap_child pid st)) = mset_set (L - {pid}) + reserved pend + replicate_mset z 0" by blast
  have card: "int (card (L - {pid})) = int (card L) - 1"
    using fin pid by (metis Suc_pred card_Diff_singleton card_gt_0_iff empty_iff of_nat_Suc add_diff_cancel_left' of_nat_1 plus_1_eq_Suc of_nat_add)
  have pend: "\<forall>j. pend = Some (Some j) \<longrightarrow> j < length ?ps \<and> ?ps[i := 0] ! j = -1"
    using inv at ne pid by (auto simp: nth_list_update)
  have zero: "\<forall>j. (if i + 1 > ps_cur ?sv then i + 1 else ps_cur ?sv) \<le> j \<and> j < length ?ps \<longrightarrow> ?ps[i := 0] ! j = 0"
    using inv by (auto simp: nth_list_update)
  show ?thesis
    using inv ms' card pend zero at ne unfolding server_inv.simps new by (simp add: sv)
qed

lemma reap_inv:
  assumes "server_inv (st, L, pend)" "pid \<in> L \<union> {pf_pid_dump_debug_info st, pf_ignore_pid st}"
  shows "server_inv (reap_child pid st, L - {pid}, pend)"
proof (cases "pid \<in> L")
  case False
  then have "L - {pid} = L" and "reap_child pid st = (if pid = pf_pid_dump_debug_info st then st else st\<lparr>pf_ignore_pid := -1\<rparr>)"
    using assms(2) by (auto simp: reap_child_def)
  moreover have "-1 \<notin> L" using assms(1) by force
  ultimately show ?thesis using assms(1) by auto
qed (rule reap_live [OF assms(1)])

lemma reap_all_inv:
  assumes "server_inv (st, L, pend)" "distinct pids" "set pids \<subseteq> L \<union> {pf_pid_dump_debug_info st, pf_ignore_pid st}"
  shows "server_inv (foldl (\<lambda>st pid. reap_child pid st) st pids, L - set pids, pend)"
  using assms
proof (induction pids arbitrary: st L)
  case (Cons pid pids)
  have "server_inv (reap_child pid st, L - {pid}, pend)" using Cons.prems by (intro reap_inv) auto
  moreover have "set pids \<subseteq> (L - {pid}) \<union> {pf_pid_dump_debug_info (reap_child pid st), pf_ignore_pid (reap_child pid st)}"
    using Cons.prems by auto
  ultimately have "server_inv (foldl (\<lambda>st pid. reap_child pid st) (reap_child pid st) pids, L - {pid} - set pids, pend)"
    using Cons.prems by (intro Cons.IH) auto
  moreover have "L - {pid} - set pids = L - set (pid # pids)" by auto
  ultimately show ?case by (metis foldl_Cons)
qed (simp del: server_inv.simps)

lemma sigchild_inv:
  assumes "server_inv (st, L, pend)" "distinct pids" "set pids \<subseteq> L \<union> {pf_pid_dump_debug_info st, pf_ignore_pid st}"
  shows "server_inv (lsapi_sigchild pids st, L - set pids, pend)"
  unfolding lsapi_sigchild_def by (rule trim_inv [OF reap_all_inv [OF assms]])

lemma reserve_inv:
  assumes inv: "server_inv (st, L, None)" and free: "\<not> server_full st" and res: "reserve_child st = (slot, st')"
  shows "server_inv (st', L, Some slot)"
proof -
  let ?sv = "pf_server st" and ?ps = "entry_pids st"
  obtain z where ms: "mset ?ps = mset_set L + replicate_mset z 0" and fin: "finite L" using inv by (auto simp: reserved_def)
  have "length ?ps = card L + z" using arg_cong [OF ms, of size] by simp
  with free inv have "0 < z" by (auto simp: server_full_def)
  with ms have "0 \<in># mset ?ps" by simp
  then obtain i where i: "find (\<lambda>i. cs_pid (ps_children ?sv ! i) = 0) [0..<length (ps_children ?sv)] = Some i"
    using find_pid_None [of "ps_children ?sv" 0] by fastforce
  note at = find_pid [OF i]
  have sv: "pf_server st' = ?sv\<lparr>ps_children := (ps_children ?sv)[i := zero_status\<lparr>cs_pid := -1\<rparr>],
      ps_cur := (if i + 1 > ps_cur ?sv then i + 1 else ps_cur ?sv)\<rparr>"
    and slot: "slot = Some i"
    and st': "pf_pid_dump_debug_info st' = pf_pid_dump_debug_info st" "pf_ignore_pid st' = pf_ignore_pid st"
    using res by (auto simp: reserve_child_def find_child_status_def i)
  have new: "entry_pids st' = ?ps[i := -1]" by (simp add: sv map_update)
  have L0: "0 \<notin> L" using inv by auto
  have ms': "\<exists>z. mset (entry_pids st') = mset_set L + reserved (Some slot) + replicate_mset z 0"
    unfolding new using pids_reserve [OF ms _ _ L0, of i] at by (simp add: slot reserved_def)
  have zero: "\<forall>j. (if i + 1 > ps_cur ?sv then i + 1 else ps_cur ?sv) \<le> j \<and> j < length ?ps \<longrightarrow> ?ps[i := -1] ! j = 0"
    using inv by (auto simp: nth_list_update)
  show ?thesis using inv ms' zero at unfolding server_inv.simps new by (simp add: sv slot st')
qed

lemma forked_inv:
  assumes inv: "server_inv (st, L, Some slot)"
    and pid: "0 < pid" "pid \<notin> L" "pid \<noteq> pf_pid_dump_debug_info st" "pid \<noteq> pf_ignore_pid st"
  shows "server_inv (fork_parent pid t slot st, insert pid L, None)"
proof -
  let ?sv = "pf_server st" and ?ps = "entry_pids st"
  obtain i where slot: "slot = Some i" using inv by (cases slot) auto
  obtain z where ms: "mset ?ps = mset_set L + {#-1#} + replicate_mset z 0" and fin: "finite L"
    using inv by (auto simp: reserved_def slot)
  have at: "i < length ?ps" "?ps ! i = -1" using inv by (auto simp: slot)
  have cur: "i < ps_cur ?sv" using inv at by (auto simp: not_le [symmetric])
  have new: "entry_pids (fork_parent pid t slot st) = ?ps[i := pid]"
    by (simp add: fork_parent_def on_server_def slot map_update)
  have ms': "\<exists>z. mset (entry_pids (fork_parent pid t slot st)) = mset_set (insert pid L) + reserved None + replicate_mset z 0"
    unfolding new using pids_forked [OF ms at pid(2) fin] by (auto simp: reserved_def)
  have zero: "\<forall>j. ps_cur ?sv \<le> j \<and> j < length ?ps \<longrightarrow> ?ps[i := pid] ! j = 0"
    using inv cur by auto
  show ?thesis using inv ms' zero pid fin unfolding server_inv.simps new
    by (simp add: fork_parent_def on_server_def slot)
qed

lemma failed_inv:
  assumes inv: "server_inv (st, L, Some slot)"
  shows "server_inv (fork_failed slot st, L, None)"
proof -
  let ?sv = "pf_server st" and ?ps = "entry_pids st"
  obtain i where slot: "slot = Some i" using inv by (cases slot) auto
  obtain z where ms: "mset ?ps = mset_set L + {#-1#} + replicate_mset z 0" using inv by (auto simp: reserved_def slot)
  have at: "i < length ?ps" "?ps ! i = -1" using inv by (auto simp: slot)
  have new: "entry_pids (fork_failed slot st) = ?ps[i := 0]" by (simp add: fork_failed_def on_server_def slot map_update)
  have ms': "\<exists>z. mset (entry_pids (fork_failed slot st)) = mset_set L + reserved None + replicate_mset z 0"
    unfolding new using pids_failed [OF ms at] by (intro exI [of _ "Suc z"]) (simp add: reserved_def)
  have zero: "\<forall>j. ps_cur ?sv \<le> j \<and> j < length ?ps \<longrightarrow> ?ps[i := 0] ! j = 0"
    using inv at by (simp add: nth_list_update)
  show ?thesis using inv ms' zero unfolding server_inv.simps new by (simp add: fork_failed_def on_server_def slot)
qed

text \<open>The other steps leave the process numbers and the counter alone.\<close>

definition same_table :: "prefork_state \<Rightarrow> prefork_state \<Rightarrow> bool" where
  "same_table st st' \<longleftrightarrow> entry_pids st' = entry_pids st \<and>
    ps_iCurChildren (pf_server st') = ps_iCurChildren (pf_server st) \<and>
    ps_iMaxChildren (pf_server st') = ps_iMaxChildren (pf_server st) \<and>
    ps_iExtraChildren (pf_server st') = ps_iExtraChildren (pf_server st) \<and>
    ps_cur (pf_server st') = ps_cur (pf_server st)"

lemma same_table_inv:
  assumes "server_inv (st, L, pend)" "same_table st st'" "pf_pid_dump_debug_info st' \<notin> L" "pf_ignore_pid st' \<notin> L"
  shows "server_inv (st', L, pend)"
  using assms unfolding server_inv.simps same_table_def by (simp del: nth_map)

lemma same_table_trans: "same_table a b \<Longrightarrow> same_table b c \<Longrightarrow> same_table a c"
  by (simp add: same_table_def)

lemma pid_rewritten [simp]: "(map cs_pid cs)[i := cs_pid (cs ! i)] = map cs_pid cs"
  by (cases "i < length cs") (auto simp: list_update_same_conv list_update_beyond not_less)

lemma check_child_same:
  assumes "check_child env i (idle, dying, n, st) = (idle', dying', n', st')"
    and "\<forall>sig. cs_pid (ps_children (pf_server st) ! i) \<in> {0, -1} \<or> ce_kill env (cs_pid (ps_children (pf_server st) ! i)) sig \<noteq> Kill_srch"
  shows "same_table st st' \<and> pf_ignore_pid st' = pf_ignore_pid st \<and>
    pf_pid_dump_debug_info st' \<in> {pf_pid_dump_debug_info st, ce_dump_fork env}"
  using assms unfolding check_child_def Let_def
  by (auto split: if_splits simp: same_table_def on_server_def map_update dump_debug_info_def)

lemma check_all_same:
  assumes "\<forall>pid sig. pid \<in> set (entry_pids st) \<longrightarrow> pid \<in> {0, -1} \<or> ce_kill env pid sig \<noteq> Kill_srch"
    and "\<forall>i \<in> set is. i < length (entry_pids st)"
    and "foldl (\<lambda>x i. check_child env i x) (idle, dying, n, st) is = (idle', dying', n', st')"
  shows "same_table st st' \<and> pf_ignore_pid st' = pf_ignore_pid st \<and>
    pf_pid_dump_debug_info st' \<in> {pf_pid_dump_debug_info st, ce_dump_fork env}"
  using assms
proof (induction "is" arbitrary: idle dying n st)
  case Nil
  then show ?case by (simp add: same_table_def)
next
  case (Cons i "is")
  obtain idle1 dying1 n1 st1 where one: "check_child env i (idle, dying, n, st) = (idle1, dying1, n1, st1)"
    by (metis prod_cases4)
  have "cs_pid (ps_children (pf_server st) ! i) \<in> set (entry_pids st)" using Cons.prems(2) by simp
  then have first: "same_table st st1 \<and> pf_ignore_pid st1 = pf_ignore_pid st \<and>
      pf_pid_dump_debug_info st1 \<in> {pf_pid_dump_debug_info st, ce_dump_fork env}"
    using check_child_same [OF one] Cons.prems(1) by blast
  then have same: "entry_pids st1 = entry_pids st" by (simp add: same_table_def)
  have rest: "same_table st1 st' \<and> pf_ignore_pid st' = pf_ignore_pid st1 \<and>
      pf_pid_dump_debug_info st' \<in> {pf_pid_dump_debug_info st1, ce_dump_fork env}"
  proof (rule Cons.IH)
    show "\<forall>pid sig. pid \<in> set (entry_pids st1) \<longrightarrow> pid \<in> {0, -1} \<or> ce_kill env pid sig \<noteq> Kill_srch"
      unfolding same by (rule Cons.prems(1))
    show "\<forall>i \<in> set is. i < length (entry_pids st1)" unfolding same using Cons.prems(2) by simp
    show "foldl (\<lambda>x i. check_child env i x) (idle1, dying1, n1, st1) is = (idle', dying', n', st')"
      using Cons.prems(3) by (simp add: one)
  qed
  then show ?case using first same_table_trans [of st st1 st'] by auto
qed

lemma check_same:
  assumes inv: "server_inv (st, L, pend)" and alive: "\<forall>pid sig. pid \<in> L \<longrightarrow> ce_kill env pid sig \<noteq> Kill_srch"
  shows "same_table st (lsapi_check_child_status env st) \<and> pf_ignore_pid (lsapi_check_child_status env st) = pf_ignore_pid st \<and>
    pf_pid_dump_debug_info (lsapi_check_child_status env st) \<in> {pf_pid_dump_debug_info st, ce_dump_fork env}"
proof -
  obtain idle dying n st' where all:
    "foldl (\<lambda>x i. check_child env i x) (0, 0, 0, st) [0..<ps_cur (pf_server st)] = (idle, dying, n, st')"
    by (metis prod_cases4)
  obtain z where ms: "mset (entry_pids st) = mset_set L + reserved pend + replicate_mset z 0" and "finite L" using inv by auto
  have "set (entry_pids st) = set_mset (mset (entry_pids st))" by (rule set_mset_mset [symmetric])
  also have "\<dots> \<subseteq> L \<union> {-1, 0}" unfolding ms using \<open>finite L\<close> by (auto simp: reserved_def split: option.splits if_splits)
  finally have "\<forall>pid sig. pid \<in> set (entry_pids st) \<longrightarrow> pid \<in> {0, -1} \<or> ce_kill env pid sig \<noteq> Kill_srch" using alive by blast
  moreover have "\<forall>i \<in> set [0..<ps_cur (pf_server st)]. i < length (entry_pids st)" using inv by auto
  ultimately show ?thesis using check_all_same [OF _ _ all] by (simp add: lsapi_check_child_status_def all)
qed

lemma check_inv:
  assumes inv: "server_inv (st, L, pend)" and alive: "\<forall>pid sig. pid \<in> L \<longrightarrow> ce_kill env pid sig \<noteq> Kill_srch"
    and "ce_dump_fork env \<notin> L"
  shows "server_inv (lsapi_check_child_status env st, L, pend)"
proof -
  have "pf_pid_dump_debug_info st \<notin> L" "pf_ignore_pid st \<notin> L" using inv by simp_all
  with check_same [OF inv alive] assms(3) show ?thesis by (intro same_table_inv [OF inv]) auto
qed

lemma server_step_inv: "server_step c c' \<Longrightarrow> server_inv c \<Longrightarrow> server_inv c'"
proof (induction rule: server_step.induct)
  case (step_sigchild pids L st pend)
  show ?case by (rule sigchild_inv) fact+
next
  case (step_check L env st pend)
  show ?case by (rule check_inv) fact+
next
  case (step_timer pid L st pend)
  show ?case by (rule same_table_inv [OF step_timer.prems]) (use step_timer in \<open>simp_all add: same_table_def\<close>)
next
  case (step_reserve st slot st' L)
  show ?case by (rule reserve_inv) fact+
next
  case (step_forked pid L st slot t)
  show ?case by (rule forked_inv) fact+
next
  case (step_fork_failed st L slot)
  show ?case by (rule failed_inv) fact+
next
  case (step_worker cs st L pend b a)
  show ?case by (rule same_table_inv [OF step_worker.prems]) (use step_worker in \<open>simp_all add: same_table_def on_server_def\<close>)
next
  case (step_round st L pend n s)
  show ?case by (rule same_table_inv [OF step_round.prems]) (use step_round in \<open>simp_all add: same_table_def\<close>)
qed

lemma server_steps_inv: "server_step\<^sup>*\<^sup>* c c' \<Longrightarrow> server_inv c \<Longrightarrow> server_inv c'"
  by (induction rule: rtranclp_induct) (simp_all del: server_inv.simps add: server_step_inv)

subsection \<open>From the start of the server\<close>

text \<open>The state in which the server is started: no children yet and no table.\<close>

definition fresh_server :: "prefork_state \<Rightarrow> bool" where
  "fresh_server st \<longleftrightarrow> ps_children (pf_server st) = [] \<and> ps_iCurChildren (pf_server st) = 0 \<and>
    0 < ps_iMaxChildren (pf_server st) + ps_iExtraChildren (pf_server st)"

lemma start_inv: "fresh_server st \<Longrightarrow> server_inv (start_config st)"
  by (auto simp: fresh_server_def start_config_def lsapi_init_children_status_def Let_def reserved_def zero_status_def)

text \<open>A server that \<open>LSAPI_Init_Prefork_Server\<close> creates can be started.\<close>

lemma init_fresh: "LSAPI_Init_Prefork_Server ok n avoid (busy, None) = (0, busy', Some sv) \<Longrightarrow> fresh_server (st\<lparr>pf_server := sv\<rparr>)"
  by (auto simp: LSAPI_Init_Prefork_Server_def new_prefork_server_def fresh_server_def Let_def split: if_splits)

lemma inv_count:
  assumes "server_inv (st, L, pend)"
  shows "ps_iCurChildren (pf_server st) = int (card L)" "pid \<in> L \<Longrightarrow> count (mset (entry_pids st)) pid = 1"
    "pid > 0 \<Longrightarrow> pid \<notin> L \<Longrightarrow> pid \<notin> set (entry_pids st)"
proof -
  obtain z where ms: "mset (entry_pids st) = mset_set L + reserved pend + replicate_mset z 0"
    and fin: "finite L" and pos: "\<forall>p\<in>L. 0 < p" using assms by auto
  show "ps_iCurChildren (pf_server st) = int (card L)" using assms by simp
  have count: "count (mset (entry_pids st)) pid = (if pid \<in> L then 1 else 0)" if "pid > 0" for pid
    unfolding ms using that fin by (auto simp: reserved_def split: option.splits)
  show "pid \<in> L \<Longrightarrow> count (mset (entry_pids st)) pid = 1" using count pos by auto
  show "pid > 0 \<Longrightarrow> pid \<notin> L \<Longrightarrow> pid \<notin> set (entry_pids st)"
    using count [of pid] by (metis count_mset_0_iff)
qed

lemma inv_bound:
  assumes inv: "server_inv (st, L, pend)"
  shows "int (card L) \<le> ps_iMaxChildren (pf_server st) + ps_iExtraChildren (pf_server st)"
proof -
  obtain z where ms: "mset (entry_pids st) = mset_set L + reserved pend + replicate_mset z 0" using inv by auto
  have "card L \<le> length (entry_pids st)" using arg_cong [OF ms, of size] by simp
  then show ?thesis using inv by simp
qed

lemma inv_located:
  assumes inv: "server_inv (st, L, pend)" and pid: "pid \<in> L"
  shows "\<exists>!i. i < length (ps_children (pf_server st)) \<and> cs_pid (ps_children (pf_server st) ! i) = pid"
    and "i < length (ps_children (pf_server st)) \<Longrightarrow> cs_pid (ps_children (pf_server st) ! i) = pid \<Longrightarrow> i < ps_cur (pf_server st)"
proof -
  let ?ps = "entry_pids st"
  have "length (filter (\<lambda>x. pid = x) ?ps) = 1" using inv_count(2) [OF inv pid] by (simp only: count_mset count_list_eq_length_filter)
  then have "card {i. i < length ?ps \<and> pid = ?ps ! i} = 1" by (simp add: length_filter_conv_card)
  then obtain k where "{i. i < length ?ps \<and> pid = ?ps ! i} = {k}" by (metis card_1_singletonE)
  then show "\<exists>!i. i < length (ps_children (pf_server st)) \<and> cs_pid (ps_children (pf_server st) ! i) = pid"
    by (intro ex1I [of _ k]) (metis (mono_tags, lifting) length_map mem_Collect_eq nth_map singletonD singletonI)+
  have "0 < pid" "\<forall>i. ps_cur (pf_server st) \<le> i \<and> i < length (entry_pids st) \<longrightarrow> entry_pids st ! i = 0" using inv pid by simp_all
  then show "i < length (ps_children (pf_server st)) \<Longrightarrow> cs_pid (ps_children (pf_server st) ! i) = pid \<Longrightarrow> i < ps_cur (pf_server st)"
    by (metis length_map not_le nth_map order_less_irrefl)
qed

subsection \<open>A round of the loop is made of these steps\<close>

text \<open>What the system may do in a round of a parent with live workers \<open>L\<close>.\<close>

definition round_ok :: "round_env \<Rightarrow> prefork_state \<Rightarrow> int set \<Rightarrow> bool" where
  "round_ok env st L \<longleftrightarrow>
    distinct (re_sig1 env @ re_sig2 env @ re_sig3 env) \<and> set (re_sig1 env @ re_sig2 env @ re_sig3 env) \<subseteq> L \<and>
    (\<forall>pid sig. pid \<in> L \<longrightarrow> ce_kill env pid sig \<noteq> Kill_srch) \<and> ce_dump_fork env \<notin> L \<and> (\<forall>pid. re_timer env = Some pid \<longrightarrow> pid \<notin> L) \<and>
    (\<forall>pid. re_fork env = Fork_parent pid \<longrightarrow> 0 < pid \<and> pid \<notin> L - set (re_sig1 env @ re_sig2 env @ re_sig3 env) \<and>
       pid \<notin> {pf_pid_dump_debug_info st, ce_dump_fork env, pf_ignore_pid st} \<and> re_timer env \<noteq> Some pid)"

definition signalled :: "int list \<Rightarrow> prefork_state \<Rightarrow> prefork_state" where
  "signalled pids st = (if pids = [] then st else lsapi_sigchild pids st)"

lemma signalled_step:
  assumes "distinct pids" "set pids \<subseteq> L"
  shows "server_step\<^sup>*\<^sup>* (st, L, pend) (signalled pids st, L - set pids, pend)"
  using server_step.step_sigchild [of pids L st pend] assms by (auto simp: signalled_def)

lemma signalled_frame:
  "pf_pid_dump_debug_info (signalled pids st) = pf_pid_dump_debug_info st"
  "pf_ignore_pid (signalled pids st) \<in> {-1, pf_ignore_pid st}"
proof -
  have "pf_pid_dump_debug_info (foldl (\<lambda>st pid. reap_child pid st) st pids) = pf_pid_dump_debug_info st \<and>
      pf_ignore_pid (foldl (\<lambda>st pid. reap_child pid st) st pids) \<in> {-1, pf_ignore_pid st}"
  proof (induction pids arbitrary: st)
    case (Cons pid pids)
    show ?case using Cons.IH [of "reap_child pid st"] by (auto split: if_splits)
  qed simp
  then show "pf_pid_dump_debug_info (signalled pids st) = pf_pid_dump_debug_info st"
    "pf_ignore_pid (signalled pids st) \<in> {-1, pf_ignore_pid st}"
    by (auto simp: signalled_def lsapi_sigchild_def on_server_def)
qed

lemma check_truncate [simp]: "ce_kill (check_env.truncate env) = ce_kill env" "ce_dump_fork (check_env.truncate env) = ce_dump_fork env"
  by (simp_all add: check_env.truncate_def)

text \<open>The part of a round before \<open>accept\<close>.\<close>

lemma round_prefix_steps:
  fixes tick :: bool
  assumes ok: "round_ok env st L" and inv: "server_inv (st, L, None)"
  defines "st1 \<equiv> signalled (re_sig1 env) st"
  defines "st2 \<equiv> (case re_timer env of Some pid \<Rightarrow> st1\<lparr>pf_ignore_pid := pid\<rparr> | None \<Rightarrow> st1)"
  defines "st3 \<equiv> (if tick then lsapi_check_child_status (check_env.truncate env) st2 else st2)"
  defines "st4 \<equiv> signalled (re_sig2 env) (st3\<lparr>pf_avail_pages := Some (re_avail env)\<rparr>)"
  shows "server_step\<^sup>*\<^sup>* (st, L, None) (st2, L - set (re_sig1 env), None)"
    and "server_step\<^sup>*\<^sup>* (st, L, None) (st3, L - set (re_sig1 env), None)"
    and "server_step\<^sup>*\<^sup>* (st, L, None) (st4, L - set (re_sig1 env) - set (re_sig2 env), None)"
    and "pf_pid_dump_debug_info st4 \<in> {pf_pid_dump_debug_info st, ce_dump_fork env}"
    and "pf_ignore_pid st4 \<in> {-1, pf_ignore_pid st} \<union> set_option (re_timer env)"
proof -
  let ?L1 = "L - set (re_sig1 env)"
  have 1: "server_step\<^sup>*\<^sup>* (st, L, None) (st1, ?L1, None)"
    unfolding st1_def by (rule signalled_step) (use ok in \<open>auto simp: round_ok_def\<close>)
  have "server_step\<^sup>*\<^sup>* (st1, ?L1, None) (st2, ?L1, None)"
    using ok by (cases "re_timer env") (auto simp: st2_def round_ok_def intro!: server_step.step_timer)
  with 1 show 2: "server_step\<^sup>*\<^sup>* (st, L, None) (st2, ?L1, None)" by simp
  have alive: "\<forall>pid sig. pid \<in> ?L1 \<longrightarrow> ce_kill (check_env.truncate env) pid sig \<noteq> Kill_srch" using ok by (simp add: round_ok_def)
  have "server_step\<^sup>*\<^sup>* (st2, ?L1, None) (st3, ?L1, None)"
    using alive ok by (auto simp: st3_def round_ok_def intro!: server_step.step_check)
  with 2 show 3: "server_step\<^sup>*\<^sup>* (st, L, None) (st3, ?L1, None)" by simp
  have "server_step (st3, ?L1, None) (st3\<lparr>pf_avail_pages := Some (re_avail env)\<rparr>, ?L1, None)"
    using server_step.step_round [where st = st3 and n = "Some (re_avail env)" and s = "pf_stop st3"] by simp
  moreover have "server_step\<^sup>*\<^sup>* (st3\<lparr>pf_avail_pages := Some (re_avail env)\<rparr>, ?L1, None) (st4, ?L1 - set (re_sig2 env), None)"
    unfolding st4_def by (rule signalled_step) (use ok in \<open>auto simp: round_ok_def\<close>)
  ultimately show "server_step\<^sup>*\<^sup>* (st, L, None) (st4, ?L1 - set (re_sig2 env), None)"
    using 3 by (meson rtranclp.rtrancl_into_rtrancl rtranclp_trans)
  have st2: "pf_pid_dump_debug_info st2 = pf_pid_dump_debug_info st" "pf_ignore_pid st2 \<in> {-1, pf_ignore_pid st} \<union> set_option (re_timer env)"
    using signalled_frame [of "re_sig1 env" st] by (auto simp: st1_def st2_def split: option.splits)
  have st3: "pf_pid_dump_debug_info st3 \<in> {pf_pid_dump_debug_info st2, ce_dump_fork env}" "pf_ignore_pid st3 = pf_ignore_pid st2"
    using check_same [OF server_steps_inv [OF 2 inv] alive] by (auto simp: st3_def)
  show "pf_pid_dump_debug_info st4 \<in> {pf_pid_dump_debug_info st, ce_dump_fork env}"
    "pf_ignore_pid st4 \<in> {-1, pf_ignore_pid st} \<union> set_option (re_timer env)"
    using signalled_frame [of "re_sig2 env" "st3\<lparr>pf_avail_pages := Some (re_avail env)\<rparr>"] st2 st3 by (auto simp: st4_def)
qed

lemma reserve_frame:
  "reserve_child st = (slot, st') \<Longrightarrow> pf_pid_dump_debug_info st' = pf_pid_dump_debug_info st \<and> pf_ignore_pid st' = pf_ignore_pid st"
  by (auto simp: reserve_child_def split: prod.splits)

lemma accept_and_fork_steps:
  assumes "accept_and_fork r l env w t st = Next st' w' t' \<or> accept_and_fork r l env w t st = Give_up st'"
    and "\<not> server_full st" "distinct (re_sig3 env)" "set (re_sig3 env) \<subseteq> L"
    and "\<forall>pid. re_fork env = Fork_parent pid \<longrightarrow> 0 < pid \<and> pid \<notin> L - set (re_sig3 env) \<and> pid \<noteq> pf_pid_dump_debug_info st \<and> pid \<noteq> pf_ignore_pid st"
  shows "\<exists>L'. server_step\<^sup>*\<^sup>* (st, L, None) (st', L', None)"
proof (cases "re_accept env = Acc_conn")
  case True
  obtain slot st1 where res: "reserve_child st = (slot, st1)" by fastforce
  define st2 where "st2 = signalled (re_sig3 env) st1"
  let ?L = "L - set (re_sig3 env)"
  have "server_step (st, L, None) (st1, L, Some slot)" by (rule server_step.step_reserve [OF assms(2) res])
  moreover have "server_step\<^sup>*\<^sup>* (st1, L, Some slot) (st2, ?L, Some slot)"
    unfolding st2_def by (rule signalled_step [OF assms(3,4)])
  ultimately have upto: "server_step\<^sup>*\<^sup>* (st, L, None) (st2, ?L, Some slot)" by simp
  have frame: "pf_pid_dump_debug_info st2 = pf_pid_dump_debug_info st" "pf_ignore_pid st2 \<in> {-1, pf_ignore_pid st}"
    using signalled_frame [of "re_sig3 env" st1] reserve_frame [OF res] by (auto simp: st2_def)
  have run: "accept_and_fork r l env w t st = (case re_fork env of
      Fork_child ppid \<Rightarrow> (case fork_child ppid r l slot st2 of Some (st, closed) \<Rightarrow> Worker (the slot) st closed | None \<Rightarrow> Fault)
    | Fork_error \<Rightarrow> Next (fork_failed slot st2) 0 t | Fork_parent pid \<Rightarrow> Next (fork_parent pid (ce_time env) slot st2) 0 t)"
    unfolding st2_def signalled_def accept_and_fork_def True res Let_def by simp
  show ?thesis
  proof (cases "re_fork env")
    case (Fork_parent pid)
    then have "server_step (st2, ?L, Some slot) (fork_parent pid (ce_time env) slot st2, insert pid ?L, None)"
      using assms(5) frame by (intro server_step.step_forked) auto
    with upto Fork_parent run assms(1) show ?thesis by (auto intro: rtranclp.rtrancl_into_rtrancl)
  next
    case Fork_error
    have "server_step (st2, ?L, Some slot) (fork_failed slot st2, ?L, None)" by (rule server_step.step_fork_failed)
    with upto Fork_error run assms(1) show ?thesis by (auto intro: rtranclp.rtrancl_into_rtrancl)
  next
    case (Fork_child ppid)
    with run assms(1) show ?thesis by (auto split: option.splits prod.splits)
  qed
next
  case False
  then have "st' = st" using assms(1) by (cases "re_accept env") (auto simp: accept_and_fork_def)
  then show ?thesis by blast
qed

lemma server_round_steps:
  assumes ok: "round_ok env st L" and inv: "server_inv (st, L, None)"
    and res: "server_round r l env st w t = Next st' w' t' \<or> server_round r l env st w t = Give_up st'"
  shows "\<exists>L'. server_step\<^sup>*\<^sup>* (st, L, None) (st', L', None)"
proof -
  define tick where "tick \<longleftrightarrow> ce_time env \<noteq> t"
  define st2 where "st2 = (case re_timer env of Some pid \<Rightarrow> (signalled (re_sig1 env) st)\<lparr>pf_ignore_pid := pid\<rparr> | None \<Rightarrow> signalled (re_sig1 env) st)"
  define st3 where "st3 = (if tick then lsapi_check_child_status (check_env.truncate env) st2 else st2)"
  define st4 where "st4 = signalled (re_sig2 env) (st3\<lparr>pf_avail_pages := Some (re_avail env)\<rparr>)"
  let ?L = "L - set (re_sig1 env) - set (re_sig2 env)"
  note steps = round_prefix_steps(1) [OF ok inv, folded st2_def]
    round_prefix_steps(2-5) [OF ok inv, where tick = tick, folded st2_def, folded st3_def, folded st4_def]
  have fork: "\<exists>L'. server_step\<^sup>*\<^sup>* (st4, ?L, None) (st', L', None)"
    if "accept_and_fork r l env w'' (ce_time env) st4 = Next st' w' t' \<or> accept_and_fork r l env w'' (ce_time env) st4 = Give_up st'"
      "\<not> server_full st4" for w''
  proof (rule accept_and_fork_steps [OF that])
    show "distinct (re_sig3 env)" "set (re_sig3 env) \<subseteq> ?L" using ok by (auto simp: round_ok_def)
    show "\<forall>pid. re_fork env = Fork_parent pid \<longrightarrow> 0 < pid \<and> pid \<notin> ?L - set (re_sig3 env) \<and>
        pid \<noteq> pf_pid_dump_debug_info st4 \<and> pid \<noteq> pf_ignore_pid st4"
      using ok steps(4,5) by (auto simp: round_ok_def)
  qed
  consider "st' = st2" | "st' = st3" | "st' = st4"
    | w'' where "accept_and_fork r l env w'' (ce_time env) st4 = Next st' w' t' \<or> accept_and_fork r l env w'' (ce_time env) st4 = Give_up st'"
      "\<not> server_full st4"
    using res unfolding server_round_def round_prefix_def Let_def signalled_def [symmetric] tick_def [symmetric] st2_def [symmetric]
      st3_def [symmetric] st4_def [symmetric]
    by (auto split: if_splits select_result.splits)
  then show ?thesis using steps(1-3) fork by cases (blast intro: rtranclp_trans)+
qed


text \<open>A parent for two workers that has just forked process 42.\<close>

definition demo_server :: prefork_state where
  "demo_server = \<lparr>pf_server = new_prefork_server 2 True, pf_busy_workers = None, pf_accepting_workers = None,
    pf_ignore_pid = -1, pf_pid_dump_debug_info = 0, pf_dump_debug_info = False, pf_max_idle_secs = 0, pf_max_busy_workers = 2,
    pf_keep_listener = 0, pf_total_pages = 1, pf_min_avail_pages = 0, pf_avail_pages = None, pf_ppid = 0, pf_restored_ppid = 0, pf_stop = False\<rparr>"

definition demo_forked :: prefork_state where
  "demo_forked = (case reserve_child (snd (lsapi_init_children_status True demo_server)) of
     (slot, st) \<Rightarrow> fork_parent 42 1000 slot st)"

lemmas demo_simps = demo_server_def new_prefork_server_def lsapi_init_children_status_def reserve_child_def
  find_child_status_def fork_parent_def on_server_def server_full_def zero_status_def numeral_2_eq_2

lemma demo_fresh: "fresh_server demo_server"
  by (simp add: fresh_server_def demo_server_def new_prefork_server_def)

lemma demo_steps: "server_step\<^sup>*\<^sup>* (start_config demo_server) (demo_forked, {42}, None)"
proof -
  let ?st = "snd (lsapi_init_children_status True demo_server)"
  obtain slot st where res: "reserve_child ?st = (slot, st)" by fastforce
  have "server_step (?st, {}, None) (st, {}, Some slot)"
    by (rule server_step.step_reserve [OF _ res]) (simp add: demo_simps)
  moreover have "pf_pid_dump_debug_info st = 0" "pf_ignore_pid st = -1"
    using reserve_frame [OF res] by (simp_all add: demo_simps)
  then have "server_step (st, {}, Some slot) (fork_parent 42 1000 slot st, {42}, None)"
    by (intro server_step.step_forked) simp_all
  ultimately show ?thesis by (simp add: start_config_def demo_forked_def res)
qed



text \<open>A round in which process 42 dies and no connection arrives.\<close>

definition demo_round :: round_env where
  "demo_round = \<lparr>ce_time = 1000, ce_kill = (\<lambda>_ _. Kill_ok), ce_dump_kill0 = Kill_ok, ce_dump_fork = 0, re_stop = False, re_timer = None,
    re_sig1 = [42], re_sig2 = [], re_sig3 = [], re_kill0 = Kill_ok, re_getppid = 1, re_avail = 5, re_select = Sel_timeout,
    re_accept = Acc_again, re_fork = Fork_error\<rparr>"


end
