(* ===== verification/Lsapi_Worker.thy ===== *)
theory Lsapi_Worker
  imports Lsapi_Prefork Lsapi_Suexec
begin

text \<open>
  How a process waits for its next request: \<open>LSAPI_Accept_r\<close>, for a process of its own, and
  \<open>LSAPI_Prefork_Accept_r\<close>, for a worker of the prefork server and for the server itself, which
  becomes a worker in the child. What happens while the process waits is a list of events, one
  for each call of \<open>select\<close> or \<open>accept\<close>; the result \<open>Blocked\<close> means that the list is used up and the
  process still waits. There is no result (\<open>None\<close>) where the C code has undefined behaviour.
\<close>

subsection \<open>State\<close>

text \<open>
  The static variables of a worker that are not in \<open>lsapi_world\<close>. \<open>wk_status\<close> is the entry
  \<open>s_worker_status\<close> points to; its \<open>m_state\<close> is \<open>s_worker_state\<close> of the world.
\<close>

record worker_vars =
  wk_status :: "lsapi_child_status option"
  wk_accepting_workers :: "int option"
  wk_keep_listener :: int
  wk_req_processed :: int
  wk_max_reqs :: nat
  wk_max_idle_secs :: int
  wk_max_busy_workers :: int
  wk_avail_pages :: "nat option"
  wk_min_avail_pages :: nat
  wk_total_pages :: nat
  wk_ppid :: int
  wk_restored_ppid :: int

type_synonym worker = "LSAPI_Request \<times> lsapi_world \<times> suexec_os \<times> worker_vars"

text \<open>The answer to \<open>accept\<close>: a descriptor with what its peer will send and take, or a failure.\<close>

datatype accept_answer = Accepted int "rx_event list" "tx_event list" | Accept_again | Accept_error

text \<open>
  One pass of the waiting loop: whether SIGUSR1 has arrived, how often the server has raised
  \<open>m_iKillSent\<close> before the first and before the second test, by how much other processes have
  changed the counters, and the answers of the system.
\<close>

record wait_event =
  we_stop :: bool
  we_kill1 :: nat
  we_kill2 :: nat
  we_busy :: int
  we_accepting :: int
  we_avail :: nat
  we_select :: select_result
  we_accept :: accept_answer
  we_kill0 :: kill_result
  we_getppid :: int

datatype wait_result = Returns int | Readable | Blocked

subsection \<open>The shared entry and the counters\<close>

definition kills_sent :: "nat \<Rightarrow> worker_vars \<Rightarrow> worker_vars" where
  "kills_sent n k = k\<lparr>wk_status := map_option (\<lambda>c. c\<lparr>cs_iKillSent := (short_inc ^^ n) (cs_iKillSent c)\<rparr>) (wk_status k)\<rparr>"

definition told_to_stop :: "worker_vars \<Rightarrow> bool" where
  "told_to_stop k \<longleftrightarrow> wk_req_processed k \<noteq> 0 \<and> (case wk_status k of Some c \<Rightarrow> cs_iKillSent c \<noteq> 0 | None \<Rightarrow> False)"

definition set_state :: "worker_state \<Rightarrow> lsapi_world \<Rightarrow> lsapi_world" where
  "set_state s w = w\<lparr>s_worker_state := map_option (\<lambda>_. s) (s_worker_state w)\<rparr>"

definition add_accepting :: "int \<Rightarrow> worker_vars \<Rightarrow> worker_vars" where
  "add_accepting n k = k\<lparr>wk_accepting_workers := map_option (\<lambda>m. m + n) (wk_accepting_workers k)\<rparr>"

definition add_busy :: "int \<Rightarrow> lsapi_world \<Rightarrow> lsapi_world" where
  "add_busy n w = w\<lparr>s_busy_workers := map_option (\<lambda>m. m + n) (s_busy_workers w)\<rparr>"

definition shared_changes :: "wait_event \<Rightarrow> lsapi_world \<times> worker_vars \<Rightarrow> lsapi_world \<times> worker_vars" where
  "shared_changes e = (\<lambda>(w, k). (add_busy (we_busy e) w,
     (add_accepting (we_accepting e) (kills_sent (we_kill2 e) k))\<lparr>wk_avail_pages := map_option (\<lambda>_. we_avail e) (wk_avail_pages k)\<rparr>))"

text \<open>\<open>select\<close>, with the marks that a worker sets while it waits for a new connection.\<close>

definition marked_select :: "bool \<Rightarrow> wait_event \<Rightarrow> lsapi_world \<times> worker_vars \<Rightarrow> lsapi_world \<times> worker_vars" where
  "marked_select listening e = (\<lambda>(w, k).
    if listening
    then case shared_changes e (set_state LSAPI_STATE_ACCEPTING w, add_accepting 1 k) of
           (w, k) \<Rightarrow> (set_state LSAPI_STATE_IDLE w, add_accepting (-1) k)
    else shared_changes e (w, k))"

subsection \<open>Waiting\<close>

text \<open>
  After a second without anything to read: whether the worker gives up, besides the limit on
  its idle time. A shift by a negative number or by the width of an \<open>int\<close> is undefined.
\<close>

definition tired_of_listening :: "int \<Rightarrow> lsapi_world \<Rightarrow> worker_vars \<Rightarrow> bool option" where
  "tired_of_listening wait_secs w k = do {
    enough \<leftarrow> (if wk_keep_listener k = 0 then Some False
               else is_enough_free_mem (wk_avail_pages k) (wk_min_avail_pages k) (wk_total_pages k));
    (if \<not> enough then Some True
     else if wk_keep_listener k = 1
     then let wait_time = 10 + (case s_busy_workers w of Some n \<Rightarrow> n * 10 | None \<Rightarrow> 0) in
       (case wk_accepting_workers k of
          None \<Rightarrow> Some (wait_secs \<ge> wait_time)
        | Some n \<Rightarrow> if 0 \<le> n \<and> n < 32 then Some (wait_secs \<ge> wait_time div 2 ^ nat n) else None)
     else Some False) }"

definition wait_timeout :: "bool \<Rightarrow> int \<Rightarrow> wait_event \<Rightarrow> lsapi_world \<Rightarrow> worker_vars \<Rightarrow> (bool \<times> worker_vars) option" where
  "wait_timeout listening wait_secs e w k = do {
    (tired, k) \<leftarrow>
      (case wk_status k of None \<Rightarrow> Some (False, k)
       | Some c \<Rightarrow> do {
           let k = k\<lparr>wk_status := Some (c\<lparr>cs_inProcess := False\<rparr>)\<rparr>;
           tired \<leftarrow> (if listening then tired_of_listening wait_secs w k else Some False);
           Some (tired, k) });
    Some (tired \<or> (wk_max_idle_secs k > 0 \<and> wait_secs + 1 \<ge> wk_max_idle_secs k) \<or>
          lsapi_parent_dead (we_kill0 e) (we_getppid e) (wk_ppid k) (wk_restored_ppid k), k) }"

text \<open>A new connection.\<close>

definition worker_connection :: "int \<Rightarrow> rx_event list \<Rightarrow> tx_event list \<Rightarrow> LSAPI_Request \<Rightarrow> lsapi_world \<Rightarrow> int \<times> LSAPI_Request \<times> lsapi_world" where
  "worker_connection fd rx tx r w =
    (let r = r\<lparr>m_fd := fd\<rparr>; w = add_busy 1 (set_state LSAPI_STATE_CONNECTED (w\<lparr>w_rx := rx, w_tx := tx, wire := []\<rparr>))
     in if s_accept_notify w then case notify_req_received w of (rc, w) \<Rightarrow> (rc, r, w) else (0, r, w))"

definition take_connection :: "int \<Rightarrow> rx_event list \<Rightarrow> tx_event list \<Rightarrow> worker \<Rightarrow> int \<times> worker" where
  "take_connection fd rx tx = (\<lambda>(r, w, os, k).
    case worker_connection fd rx tx (if wk_keep_listener k = 0 then r\<lparr>m_fdListen := -1\<rparr> else r) w of
      (rc, r, w) \<Rightarrow> (rc, r, w, os, k))"

fun wait_loop :: "int \<Rightarrow> int \<Rightarrow> wait_event list \<Rightarrow> worker \<Rightarrow> (wait_result \<times> wait_event list \<times> worker) option" where
  "wait_loop fd wait_secs [] st = Some (Blocked, [], st)"
| "wait_loop fd wait_secs (e # es) (r, w, os, k) =
    (let w = (if we_stop e then lsapi_siguser1 w else w);
         k = kills_sent (we_kill1 e) k;
         listening = (fd = m_fdListen r)
     in if \<not> g_running w then Some (Returns (-1), es, r, w, os, k)
        else if told_to_stop k then Some (Returns (-1), es, r, w, os, k)
        else case marked_select listening e (w, k) of (w, k) \<Rightarrow>
          (case we_select e of
             Sel_timeout \<Rightarrow> do {
               (give_up, k) \<leftarrow> wait_timeout listening wait_secs e w k;
               (if give_up then Some (Returns (-1), es, r, w, os, k) else wait_loop fd (wait_secs + 1) es (r, w, os, k)) }
           | Sel_intr \<Rightarrow> wait_loop fd wait_secs es (r, w, os, k)
           | Sel_error \<Rightarrow> Some (Returns (-1), es, r, w, os, k)
           | Sel_ready \<Rightarrow>
               if told_to_stop k then Some (Returns (-1), es, r, w, os, k)
               else if listening
               then (case we_accept e of
                   Accepted new_fd rx tx \<Rightarrow>
                     (case take_connection new_fd rx tx (r, w, os, k) of (rc, st) \<Rightarrow>
                        if rc = -1 then Some (Returns (-1), es, st) else wait_loop new_fd wait_secs es st)
                 | Accept_again \<Rightarrow> wait_loop fd wait_secs es (r, w, os, k)
                 | Accept_error \<Rightarrow> Some (Returns (-1), es, r, w, os, k))
               else Some (Readable, es, r, w, os, k)))"

lemma wait_loop_consumes:
  "wait_loop fd wait_secs es st = Some (Readable, es', st') \<Longrightarrow> length es' < length es"
proof (induction es arbitrary: fd wait_secs st)
  case (Cons e es)
  obtain r w os k where st: "st = (r, w, os, k)" by (metis prod_cases4)
  show ?case
    using Cons.prems unfolding st
    by (auto simp: Let_def split: if_splits select_result.splits accept_answer.splits prod.splits bind_splits dest!: Cons.IH)
qed simp

subsection \<open>The next request\<close>

text \<open>\<open>clock n\<close> is the time when \<open>n\<close> events are left.\<close>

definition request_begins :: "int \<Rightarrow> worker_vars \<Rightarrow> worker_vars" where
  "request_begins now k = k\<lparr>wk_req_processed := wk_req_processed k + 1,
     wk_status := map_option (\<lambda>c. c\<lparr>cs_iKillSent := 0, cs_inProcess := True, cs_iReqCounter := cs_iReqCounter c + 1,
       cs_tmReqBegin := now, cs_tmLastCheckPoint := now\<rparr>) (wk_status k)\<rparr>"

definition read_request :: "LSAPI_Request \<Rightarrow> lsapi_world \<Rightarrow> suexec_os \<Rightarrow> (bool \<times> LSAPI_Request \<times> lsapi_world \<times> suexec_os) option" where
  "read_request r w os = do {
    (rc, r, w, os) \<leftarrow> readReq r w os;
    (if rc = 0 then Some (True, r, w, os)
     else case lsapi_close_connection r w of (r, w) \<Rightarrow> Some (False, LSAPI_Reset_r r, w, os)) }"

function worker_accept_loop :: "(nat \<Rightarrow> int) \<Rightarrow> wait_event list \<Rightarrow> worker \<Rightarrow> (wait_result \<times> worker) option" where
  "worker_accept_loop clock es (r, w, os, k) =
    (if \<not> g_running w then Some (Returns (-1), r, w, os, k)
     else if m_fd r = -1 \<and> m_fdListen r = -1 then Some (Returns (-1), r, w, os, k)
     else let fd = (if m_fd r \<noteq> -1 then m_fd r else m_fdListen r) in do {
       (res, es', r, w, os, k) \<leftarrow> wait_loop fd 0 es (r, w, os, k);
       (if res \<noteq> Readable then Some (res, r, w, os, k)
        else do {
          (ok, r, w, os) \<leftarrow> read_request r w os;
          (if ok then Some (Returns 0, r, w, os, request_begins (clock (length es')) k)
           else worker_accept_loop clock es' (r, w, os, k)) }) })"
  by pat_completeness auto
termination
  by (relation "measure (\<lambda>(_, es, _). length es)") (auto dest: wait_loop_consumes)

declare worker_accept_loop.simps [simp del]

definition too_busy :: "lsapi_world \<Rightarrow> worker_vars \<Rightarrow> bool" where
  "too_busy w k \<longleftrightarrow> wk_req_processed k > 0 \<and> wk_max_busy_workers k > 0 \<and>
    (case s_busy_workers w of Some n \<Rightarrow> n \<ge> wk_max_busy_workers k | None \<Rightarrow> False)"

definition leave_connection :: "LSAPI_Request \<Rightarrow> lsapi_world \<Rightarrow> LSAPI_Request \<times> lsapi_world" where
  "leave_connection r w =
    (let w = (if m_fd r \<noteq> -1 then snd (send_conn_close_notification w) else w) in lsapi_close_connection r w)"

text \<open>The second half, after the prefork server has been passed.\<close>

definition next_request :: "(nat \<Rightarrow> int) \<Rightarrow> wait_event list \<Rightarrow> worker \<Rightarrow> (wait_result \<times> worker) option" where
  "next_request clock es = (\<lambda>(r, w, os, k).
    if wk_req_processed k mod 4294967296 > int (wk_max_reqs k) then Some (Returns (-1), r, w, os, k)
    else worker_accept_loop clock es
      (r, w, os, k\<lparr>wk_status := map_option (\<lambda>c. c\<lparr>cs_tmWaitBegin := clock (length es)\<rparr>) (wk_status k)\<rparr>))"

text \<open>
  The prefork server, with what happens to it until it gives up or the process is the child of
  one of its forks: then also the connection of the child and its process number.
\<close>

record server_run =
  sr_state :: prefork_state
  sr_mmap_ok :: bool
  sr_handlers_ok :: bool
  sr_rounds :: "round_env list"
  sr_fd :: int
  sr_rx :: "rx_event list"
  sr_tx :: "tx_event list"
  sr_pid :: int

definition become_worker :: "server_run \<Rightarrow> nat \<Rightarrow> prefork_state \<Rightarrow> bool \<Rightarrow> worker \<Rightarrow> worker" where
  "become_worker sr i st closed = (\<lambda>(r, w, os, k).
    let r = r\<lparr>m_fd := sr_fd sr, m_fdListen := (if closed then -1 else m_fdListen r)\<rparr>;
        w = w\<lparr>w_rx := sr_rx sr, w_tx := sr_tx sr, wire := [],
              s_busy_workers := pf_busy_workers st, s_worker_state := Some LSAPI_STATE_CONNECTED\<rparr>;
        w = (snd (lsapi_notify_pid (sr_pid sr) w))\<lparr>s_notified_pid := True\<rparr>
    in (r, w, os, k\<lparr>wk_status := Some (ps_children (pf_server st) ! i), wk_accepting_workers := pf_accepting_workers st,
          wk_keep_listener := pf_keep_listener st, wk_req_processed := 0, wk_avail_pages := pf_avail_pages st,
          wk_ppid := pf_ppid st, wk_restored_ppid := pf_restored_ppid st\<rparr>))"

definition LSAPI_Prefork_Accept_r ::
  "server_run option \<Rightarrow> (nat \<Rightarrow> int) \<Rightarrow> wait_event list \<Rightarrow> worker \<Rightarrow> (wait_result \<times> worker) option" where
  "LSAPI_Prefork_Accept_r server clock es = (\<lambda>(r, w, os, k).
    if s_skip_write w then Some (Returns (-1), r, w, os, k)
    else do {
      (_, r, w) \<leftarrow> LSAPI_Finish_r r w;
      (case server of
         Some sr \<Rightarrow>
           if ps_fd (pf_server (sr_state sr)) = -1 then next_request clock es (r, w, os, k)
           else (case lsapi_prefork_server_accept (sr_mmap_ok sr) (sr_handlers_ok sr) (s_uid w = 0) (m_fdListen r \<noteq> -1)
                        (sr_rounds sr) (sr_state sr) of
               Next st wait_secs lastTime \<Rightarrow> Some (Blocked, r, w, os, k)
             | Give_up st \<Rightarrow> Some (Returns (-1), r, w, os, k)
             | Fault \<Rightarrow> None
             | Worker i st closed \<Rightarrow> next_request clock es (become_worker sr i st closed (r, w, os, k)))
       | None \<Rightarrow>
           if too_busy w k then case leave_connection r w of (r, w) \<Rightarrow> next_request clock es (r, w, os, k)
           else next_request clock es (r, w, os, k)) })"

subsection \<open>A process without workers\<close>

text \<open>Each answer to \<open>accept\<close> comes with whether SIGUSR1 has arrived.\<close>

lemma read_request_closed: "read_request r w os = Some (False, r', w', os') \<Longrightarrow> m_fd r' = -1"
  by (auto simp: read_request_def lsapi_close_connection_def LSAPI_Reset_r_def split: bind_splits if_splits)

function Accept_loop ::
  "(bool \<times> accept_answer) list \<Rightarrow> LSAPI_Request \<Rightarrow> lsapi_world \<Rightarrow> suexec_os \<Rightarrow> (wait_result \<times> LSAPI_Request \<times> lsapi_world \<times> suexec_os) option" where
  "Accept_loop answers r w os =
    (if \<not> g_running w then Some (Returns 0, r, w, os)
     else if m_fd r \<noteq> -1
     then do {
       (ok, r, w, os) \<leftarrow> read_request r w os;
       (if ok then Some (Returns 0, r, w, os) else Accept_loop answers r w os) }
     else if m_fdListen r = -1 then Some (Returns (-1), r, w, os)
     else case answers of [] \<Rightarrow> Some (Blocked, r, w, os)
       | (stop, a) # answers' \<Rightarrow>
           let w = (if stop then lsapi_siguser1 w else w) in
           (case a of
              Accept_again \<Rightarrow> Accept_loop answers' r w os
            | Accept_error \<Rightarrow> Some (Returns (-1), r, w, os)
            | Accepted fd rx tx \<Rightarrow>
                (case worker_connection fd rx tx r w of (rc, r, w) \<Rightarrow>
                 if rc = -1 then Some (Returns (-1), r, w, os)
                 else do {
                   (ok, r, w, os) \<leftarrow> read_request r w os;
                   (if ok then Some (Returns 0, r, w, os) else Accept_loop answers' r w os) })))"
  by pat_completeness auto
termination
  by (relation "measures [\<lambda>(answers, _). length answers, \<lambda>(_, r, _). if m_fd r = -1 then 0 else 1]")
    (auto dest: read_request_closed)

declare Accept_loop.simps [simp del]

definition LSAPI_Accept_r ::
  "(bool \<times> accept_answer) list \<Rightarrow> LSAPI_Request \<Rightarrow> lsapi_world \<Rightarrow> suexec_os \<Rightarrow> (wait_result \<times> LSAPI_Request \<times> lsapi_world \<times> suexec_os) option" where
  "LSAPI_Accept_r answers r w os = do {
    (rc, r, w) \<leftarrow> LSAPI_Finish_r r w;
    (if rc = -1 then Some (Returns (-1), r, w, os) else Accept_loop answers r w os) }"

end
