(* ===== verification/Lsapi_Worker_Correct.thy ===== *)
theory Lsapi_Worker_Correct
  imports Lsapi_Worker
begin

text \<open>
  The counters that the workers share: whatever happens while a worker waits for its next
  request, its own contribution to them is one while it has a connection and zero otherwise,
  and its entry tells the server which of the two it is.
\<close>

subsection \<open>What the operations on a request leave alone\<close>

definition same_fds :: "LSAPI_Request \<Rightarrow> LSAPI_Request \<Rightarrow> bool" where
  "same_fds r r' \<longleftrightarrow> m_fd r' = m_fd r \<and> m_fdListen r' = m_fdListen r"

definition quiet :: "lsapi_world \<Rightarrow> lsapi_world \<Rightarrow> bool" where
  "quiet w w' \<longleftrightarrow> s_busy_workers w' = s_busy_workers w \<and> s_worker_state w' = s_worker_state w \<and> s_uid w' = s_uid w"

lemma quiet_refl [simp]: "quiet w w" "same_fds r r"
  by (simp_all add: quiet_def same_fds_def)

lemma quiet_trans: "quiet a b \<Longrightarrow> quiet b c \<Longrightarrow> quiet a c" "same_fds r r' \<Longrightarrow> same_fds r' r'' \<Longrightarrow> same_fds r r''"
  by (simp_all add: quiet_def same_fds_def)

lemma read_quiet: "lsapi_read n w = (x, w') \<Longrightarrow> quiet w w'"
proof -
  assume "lsapi_read n w = (x, w')"
  then obtain rx g where "w' = w\<lparr>w_rx := rx, g_running := g\<rparr>" using lsapi_read_frame by blast
  then show ?thesis by (simp add: quiet_def)
qed

lemma sys_write_quiet: "sys_write bs w = (x, w') \<Longrightarrow> quiet w w'"
  by (auto simp: sys_write_def quiet_def split: list.splits tx_event.splits)

lemma notify_quiet: "send_notification_pkt pkt w = (x, w') \<Longrightarrow> quiet w w'"
  by (auto simp: send_notification_pkt_def split: prod.splits sum.splits dest!: sys_write_quiet)

lemma received_quiet: "notify_req_received w = (x, w') \<Longrightarrow> quiet w w'"
  by (auto simp: notify_req_received_def lsapi_schedule_notify_def send_req_received_notification_def quiet_def [of w w'] split: if_splits dest!: notify_quiet)

lemma writev_quiet: "writev_loop d n l fuel slots pos left w = Some (x, s, p, w') \<Longrightarrow> quiet w w'"
proof (induction fuel arbitrary: slots pos left w)
  case (Suc fuel)
  show ?case
    using Suc.prems
    by (auto simp: writev_loop.simps(2) Let_def split: if_splits bind_splits prod.splits sum.splits errno.splits
        dest!: sys_write_quiet Suc.IH intro: quiet_trans(1))
qed (simp add: writev_loop.simps)

lemma lsapi_writev_quiet: "lsapi_writev d slots pos n l w = Some (x, s, p, w') \<Longrightarrow> quiet w w'"
  by (auto simp: lsapi_writev_def split: if_splits dest: writev_quiet)

lemma readReq_head_quiet: "readReq_head r w = (x, r', w') \<Longrightarrow> same_fds r r' \<and> quiet w w'"
proof (induction r w rule: readReq_head.induct)
  case (1 r w)
  show ?case
  proof (cases "m_bufRead r < int LSAPI_PACKET_HEADER_LEN")
    case True
    obtain y w1 where read: "lsapi_read (length (m_pReqBuf r)) w = (y, w1)" by fastforce
    note q = read_quiet [OF read]
    show ?thesis
    proof (cases y)
      case (Inr bs)
      show ?thesis
      proof (cases "bs = []")
        case False
        have "same_fds (r\<lparr>m_pReqBuf := mem_write 0 bs (m_pReqBuf r), m_bufRead := m_bufRead r + int (length bs)\<rparr>) r' \<and> quiet w1 w'"
          using "1.prems" True read Inr False
          by (intro "1.IH" [OF True read [symmetric] Inr False]) (simp add: readReq_head.simps [of r w])
        then show ?thesis using q quiet_trans(1) by (auto simp: same_fds_def)
      qed (use "1.prems" True read Inr q in \<open>simp add: readReq_head.simps [of r w]\<close>)
    qed (use "1.prems" True read q in \<open>simp add: readReq_head.simps [of r w]\<close>)
  qed (use "1.prems" in \<open>simp add: readReq_head.simps [of r w]\<close>)
qed

lemma readReq_rest_quiet: "readReq_rest packetLen r w = Some (x, r', w') \<Longrightarrow> same_fds r r' \<and> quiet w w'"
proof (induction packetLen r w rule: readReq_rest.induct)
  case (1 packetLen r w)
  show ?case
  proof (cases "packetLen > m_bufRead r")
    case True
    obtain y w1 where read: "lsapi_read (nat (packetLen - m_bufRead r)) w = (y, w1)" by fastforce
    note q = read_quiet [OF read]
    note now = "1.prems" [unfolded readReq_rest.simps [of packetLen r w]]
    show ?thesis
    proof (cases y)
      case (Inr bs)
      show ?thesis
      proof (cases "bs = []")
        case False
        then obtain buf where buf: "store (m_bufRead r) bs (m_pReqBuf r) = Some buf" using now True read Inr by (auto split: option.splits)
        have "same_fds (r\<lparr>m_pReqBuf := buf, m_bufRead := m_bufRead r + int (length bs)\<rparr>) r' \<and> quiet w1 w'"
          using now True read Inr False buf by (intro "1.IH" [OF True read [symmetric] Inr False buf]) simp
        then show ?thesis using q quiet_trans(1) by (auto simp: same_fds_def)
      qed (use now True read Inr q in simp)
    qed (use now True read q in simp)
  qed (use "1.prems" in \<open>simp add: readReq_rest.simps [of packetLen r w]\<close>)
qed

lemma GetHeader_fds: "LSAPI_GetHeader_r r i = Some (p, r') \<Longrightarrow> same_fds r r'"
  by (auto simp: LSAPI_GetHeader_r_def same_fds_def Let_def split: if_splits bind_splits)

lemma parseRequest_fds: "parseRequest r len w = Some (rc, r') \<Longrightarrow> same_fds r r'"
proof -
  have env: "parseRequest_env r len w = Some (rc, r', p) \<Longrightarrow> same_fds r r'" for r rc r' p
    by (auto simp: parseRequest_env_def same_fds_def Let_def split: if_splits bind_splits prod.splits)
  have offs: "parseRequest_offsets r len = Some (rc, r') \<Longrightarrow> same_fds r r'" for r rc r'
    by (auto simp: parseRequest_offsets_def same_fds_def split: if_splits bind_splits)
  have lay: "parseRequest_layout r len p = Some (rc, i, u, r') \<Longrightarrow> same_fds r r'" for r rc r' p i u
    by (auto simp: parseRequest_layout_def same_fds_def Let_def split: if_splits bind_splits)
  have body: "parseContentLenFromHeader r = Some (rc, r') \<Longrightarrow> same_fds r r'" for r rc r'
    by (auto simp: parseContentLenFromHeader_def split: bind_splits option.splits dest!: GetHeader_fds) (simp_all add: same_fds_def)
  show "parseRequest r len w = Some (rc, r') \<Longrightarrow> same_fds r r'"
    unfolding parseRequest_def Let_def
    by (auto split: if_splits bind_splits dest!: env offs lay body) (auto simp: same_fds_def)
qed

lemma readReq_quiet:
  assumes "readReq r w os = Some (rc, r', w', os')" "s_uid w \<noteq> 0"
  shows "same_fds r r' \<and> quiet w w'"
proof -
  have alloc: "allocateBuf r n w = (rc, r') \<Longrightarrow> same_fds r r'" for r rc r' n w
    by (auto simp: allocateBuf_def same_fds_def split: if_splits)
  have acc: "readReq_accept l r w os = Some (rc, r', w', os') \<Longrightarrow> s_uid w \<noteq> 0 \<Longrightarrow> same_fds r r' \<and> quiet w w'" for l r w os rc r' w' os'
    by (auto simp: readReq_accept_def Let_def same_fds_def split: if_splits prod.splits dest!: received_quiet) (simp_all add: quiet_def)
  show ?thesis
    using assms unfolding readReq_def Let_def
    by (auto split: if_splits bind_splits prod.splits dest!: alloc readReq_head_quiet readReq_rest_quiet parseRequest_fds acc)
      (auto simp: same_fds_def quiet_def)
qed

subsection \<open>The contribution of a worker\<close>

definition counted :: "LSAPI_Request \<Rightarrow> int" where
  "counted r = (if m_fd r = -1 then 0 else 1)"

text \<open>The entry of the worker, where it has one, is marked as connected while there is a connection.\<close>

definition linked :: "LSAPI_Request \<Rightarrow> lsapi_world \<Rightarrow> bool" where
  "linked r w \<longleftrightarrow> (case s_worker_state w of Some s \<Rightarrow> (s = LSAPI_STATE_CONNECTED \<longleftrightarrow> m_fd r \<noteq> -1) | None \<Rightarrow> True)"

definition fds_ok :: "LSAPI_Request \<Rightarrow> bool" where
  "fds_ok r \<longleftrightarrow> m_fd r = -1 \<or> m_fd r \<noteq> m_fdListen r"

text \<open>From one state to another, while the others have changed the counter of busy workers by \<open>n\<close>.\<close>

definition balance :: "int \<Rightarrow> LSAPI_Request \<times> lsapi_world \<Rightarrow> LSAPI_Request \<times> lsapi_world \<Rightarrow> bool" where
  "balance n = (\<lambda>(r, w) (r', w').
    s_busy_workers w' = map_option (\<lambda>b. b + n + counted r' - counted r) (s_busy_workers w) \<and>
    (linked r w \<longrightarrow> linked r' w') \<and> (fds_ok r \<longrightarrow> fds_ok r') \<and> m_fdListen r' \<in> {m_fdListen r, -1} \<and> s_uid w' = s_uid w)"

lemma balance_trans: "balance n (r, w) (r', w') \<Longrightarrow> balance m (r', w') (r'', w'') \<Longrightarrow> balance (n + m) (r, w) (r'', w'')"
  by (cases "s_busy_workers w") (auto simp: balance_def)

lemma quiet_balance: "same_fds r r' \<Longrightarrow> quiet w w' \<Longrightarrow> balance 0 (r, w) (r', w')"
  by (cases "s_busy_workers w"; cases "s_worker_state w")
    (auto simp: balance_def same_fds_def quiet_def counted_def linked_def fds_ok_def)

lemma balance_then_quiet: "balance n (r, w) (r', w') \<Longrightarrow> same_fds r' r'' \<Longrightarrow> quiet w' w'' \<Longrightarrow> balance n (r, w) (r'', w'')"
  using balance_trans [of n r w r' w' 0 r'' w''] quiet_balance [of r' r'' w' w''] by simp

lemma close_balance: "lsapi_close_connection r w = (r', w') \<Longrightarrow> balance 0 (r, w) (r', w')"
  by (cases "s_busy_workers w"; cases "s_worker_state w")
    (auto simp: lsapi_close_connection_def release_worker_def balance_def counted_def linked_def fds_ok_def split: if_splits)

lemma push_fds: "push_iov b n r = Some r' \<Longrightarrow> same_fds r r'"
  by (auto simp: push_iov_def same_fds_def split: if_splits)

lemma finalize_fds: "LSAPI_FinalizeRespHeaders_r r = Some (rc, r') \<Longrightarrow> same_fds r r'"
  by (auto simp: LSAPI_FinalizeRespHeaders_r_def Let_def split: if_splits bind_splits dest!: push_fds) (auto simp: same_fds_def)

lemma flush_buf_fds: "Flush_RespBuf_r r = Some r' \<Longrightarrow> same_fds r r'"
  by (auto simp: Flush_RespBuf_r_def Let_def split: if_splits bind_splits dest!: push_fds) (auto simp: same_fds_def)

lemma flush_balance:
  assumes "LSAPI_Flush_r r w = Some (rc, r', w')"
  shows "balance 0 (r, w) (r', w')"
proof (cases "(m_pIovecCur r = m_pIovecToWrite r \<and> m_pRespBufPos r = 0) \<or> m_fd r = -1")
  case True
  with assms show ?thesis by (intro quiet_balance) (auto simp: LSAPI_Flush_r_def same_fds_def split: if_splits)
next
  case False
  with assms obtain x r1 r2 where r1: "(if LSAPI_ST_RESP_HEADER \<in> m_reqState r then LSAPI_FinalizeRespHeaders_r r else Some (0, r)) = Some (x, r1)"
    and r2: "(if m_pRespBufPos r1 \<noteq> 0 then Flush_RespBuf_r r1 else Some r1) = Some r2"
    and rest: "(if m_pIovecCur r2 > m_pIovecToWrite r2
        then do {
          (ret, slots, pos, w) \<leftarrow> lsapi_writev (deref r2) (m_pIovec r2) (m_pIovecToWrite r2)
            (m_pIovecCur r2 - m_pIovecToWrite r2) (m_totalLen r2) w;
          let (r', w) = (if ret < m_totalLen r2 then lsapi_close_connection r2 w else (r2, w));
          Some (if ret < m_totalLen r2 then -1 else ret,
                r'\<lparr>m_pIovec := slots, m_totalLen := 0, m_pIovecCur := 0, m_pIovecToWrite := 0\<rparr>, w) }
        else Some (0, r2, w)) = Some (rc, r', w')"
    unfolding LSAPI_Flush_r_def by (auto split: bind_splits simp del: split_paired_All)
  have fds: "same_fds r r2" using r1 r2 finalize_fds flush_buf_fds quiet_trans(2) by (fastforce split: if_splits)
  show ?thesis
  proof (cases "m_pIovecCur r2 > m_pIovecToWrite r2")
    case True
    with rest obtain ret slots pos w1 r3 w3 where wv: "lsapi_writev (deref r2) (m_pIovec r2) (m_pIovecToWrite r2)
          (m_pIovecCur r2 - m_pIovecToWrite r2) (m_totalLen r2) w = Some (ret, slots, pos, w1)"
      and cl: "(if ret < m_totalLen r2 then lsapi_close_connection r2 w1 else (r2, w1)) = (r3, w3)"
      and r': "r' = r3\<lparr>m_pIovec := slots, m_totalLen := 0, m_pIovecCur := 0, m_pIovecToWrite := 0\<rparr>" "w' = w3"
      by (auto split: bind_splits prod.splits)
    have "balance 0 (r, w) (r2, w1)" by (rule quiet_balance [OF fds lsapi_writev_quiet [OF wv]])
    moreover have "balance 0 (r2, w1) (r3, w3)" using cl close_balance quiet_balance [of r2 r2 w1 w1] by (auto split: if_splits)
    ultimately have "balance 0 (r, w) (r3, w3)" using balance_trans by fastforce
    then show ?thesis by (rule balance_then_quiet) (simp_all add: r' same_fds_def)
  qed (use rest fds in \<open>auto intro: quiet_balance\<close>)
qed

lemma finish_balance:
  assumes "LSAPI_Finish_r r w = Some (rc, r', w')"
  shows "balance 0 (r, w) (r', w')"
proof (cases "m_reqState r = {} \<or> m_fd r = -1")
  case True
  with assms show ?thesis by (intro quiet_balance) (auto simp: LSAPI_Finish_r_def LSAPI_Reset_r_def same_fds_def split: if_splits)
next
  case False
  with assms obtain x y r1 r2 r3 r4 where
    "(if LSAPI_ST_RESP_HEADER \<in> m_reqState r then LSAPI_FinalizeRespHeaders_r r else Some (0, r)) = Some (x, r1)"
    "(if m_pRespBufPos r1 \<noteq> 0 then Flush_RespBuf_r r1 else Some r1) = Some r2"
    "push_iov FinishClose 8 r2 = Some r3"
    and flush: "LSAPI_Flush_r (r3\<lparr>m_totalLen := m_totalLen r3 + 8\<rparr>) w = Some (y, r4, w')" and r': "r' = LSAPI_Reset_r r4"
    unfolding LSAPI_Finish_r_def by (auto simp: Let_def split: bind_splits) blast
  then have "same_fds r r1" "same_fds r1 r2" "same_fds r2 (r3\<lparr>m_totalLen := m_totalLen r3 + 8\<rparr>)"
    using finalize_fds [of r x r1] flush_buf_fds [of r1 r2] push_fds [of FinishClose 8 r2 r3] by (auto simp: same_fds_def split: if_splits)
  then have "same_fds r (r3\<lparr>m_totalLen := m_totalLen r3 + 8\<rparr>)" using quiet_trans(2) by blast
  from balance_trans [OF quiet_balance [OF this quiet_refl(1)] flush_balance [OF flush]]
  have "balance 0 (r, w) (r4, w')" by simp
  then show ?thesis by (rule balance_then_quiet) (simp_all add: r' LSAPI_Reset_r_def same_fds_def)
qed

lemma marked_select_counts:
  assumes "marked_select listening e (w, k) = (w', k')"
  shows "s_busy_workers w' = map_option (\<lambda>b. b + we_busy e) (s_busy_workers w)"
    and "wk_accepting_workers k' = map_option (\<lambda>a. a + we_accepting e) (wk_accepting_workers k)"
    and "s_worker_state w' = (if listening then map_option (\<lambda>_. LSAPI_STATE_IDLE) (s_worker_state w) else s_worker_state w)"
    and "s_uid w' = s_uid w"
  using assms by (cases "s_busy_workers w"; cases "wk_accepting_workers k"; cases "s_worker_state w";
    auto simp: marked_select_def shared_changes_def add_busy_def add_accepting_def set_state_def kills_sent_def split: if_splits prod.splits)+

lemma worker_connection_balance:
  assumes "worker_connection fd rx tx r w = (rc, r', w')" "m_fd r = -1" "fd \<noteq> -1" "fd \<noteq> m_fdListen r"
  shows "balance 0 (r, w) (r', w') \<and> m_fd r' = fd \<and> m_fdListen r' = m_fdListen r"
  using assms
  by (cases "s_busy_workers w"; cases "s_worker_state w")
    (auto simp: worker_connection_def Let_def balance_def counted_def linked_def fds_ok_def add_busy_def set_state_def quiet_def
      split: if_splits prod.splits dest!: received_quiet)

subsection \<open>Waiting and reading\<close>

abbreviation others_busy :: "wait_event list \<Rightarrow> int" where
  "others_busy es \<equiv> sum_list (map we_busy es)"

abbreviation others_accepting :: "wait_event list \<Rightarrow> int" where
  "others_accepting es \<equiv> sum_list (map we_accepting es)"

text \<open>Descriptors that \<open>accept\<close> returns are new.\<close>

definition answers_ok :: "int \<Rightarrow> wait_event list \<Rightarrow> bool" where
  "answers_ok listener es \<longleftrightarrow> (\<forall>e\<in>set es. \<forall>fd rx tx. we_accept e = Accepted fd rx tx \<longrightarrow> fd \<noteq> -1 \<and> fd \<noteq> listener)"

text \<open>How a state follows from another by the first \<open>n\<close> of the events.\<close>

definition after_events :: "nat \<Rightarrow> wait_event list \<Rightarrow> worker \<Rightarrow> worker \<Rightarrow> bool" where
  "after_events n es = (\<lambda>(r, w, os, k) (r', w', os', k').
    n \<le> length es \<and> balance (others_busy (take n es)) (r, w) (r', w') \<and>
    wk_accepting_workers k' = map_option (\<lambda>a. a + others_accepting (take n es)) (wk_accepting_workers k) \<and>
    wk_req_processed k' = wk_req_processed k)"

lemma after_none: "balance 0 (r, w) (r', w') \<Longrightarrow> wk_accepting_workers k' = wk_accepting_workers k \<Longrightarrow>
    wk_req_processed k' = wk_req_processed k \<Longrightarrow> after_events 0 es (r, w, os, k) (r', w', os', k')"
  by (cases "wk_accepting_workers k") (simp_all add: after_events_def)

lemma after_append:
  assumes "after_events n es (r, w, os, k) (r1, w1, os1, k1)" "after_events m (drop n es) (r1, w1, os1, k1) (r2, w2, os2, k2)"
  shows "after_events (n + m) es (r, w, os, k) (r2, w2, os2, k2)"
proof -
  have "take (n + m) es = take n es @ take m (drop n es)" by (rule take_add)
  then show ?thesis
    using assms balance_trans [of "others_busy (take n es)" r w r1 w1 "others_busy (take m (drop n es))" r2 w2]
    by (cases "wk_accepting_workers k") (auto simp: after_events_def)
qed

lemma after_select:
  assumes "marked_select listening e (if we_stop e then lsapi_siguser1 w else w, kills_sent (we_kill1 e) k) = (w', k')"
    and "listening \<longrightarrow> m_fd r = -1"
  shows "after_events 1 (e # es) (r, w, os, k) (r, w', os, k')"
proof -
  note c = marked_select_counts [OF assms(1)]
  have "balance (we_busy e) (r, w) (r, w')"
    using c assms(2) by (cases "s_busy_workers w"; cases "s_worker_state w") (auto simp: balance_def linked_def lsapi_siguser1_def)
  moreover have "wk_req_processed k' = wk_req_processed k"
    using assms(1) by (auto simp: marked_select_def shared_changes_def add_accepting_def kills_sent_def split: if_splits)
  ultimately show ?thesis using c(2) by (simp add: after_events_def kills_sent_def)
qed

lemma wait_timeout_counts:
  "wait_timeout l s e w k = Some (g, k') \<Longrightarrow> wk_accepting_workers k' = wk_accepting_workers k \<and> wk_req_processed k' = wk_req_processed k"
  by (auto simp: wait_timeout_def Let_def split: bind_splits option.splits)

lemma take_connection_after:
  assumes "take_connection fd rx tx (r, w, os, k) = (rc, r', w', os', k')" "m_fd r = -1" "fd \<noteq> -1" "fd \<noteq> m_fdListen r"
  shows "after_events 0 es (r, w, os, k) (r', w', os', k') \<and> m_fd r' = fd \<and> m_fdListen r' \<in> {m_fdListen r, -1}"
proof -
  let ?r = "if wk_keep_listener k = 0 then r\<lparr>m_fdListen := -1\<rparr> else r"
  obtain w1 where nc: "worker_connection fd rx tx ?r w = (rc, r', w')" and k': "k' = k"
    using assms(1) by (auto simp: take_connection_def split: prod.splits)
  have "balance 0 (?r, w) (r', w') \<and> m_fd r' = fd \<and> m_fdListen r' = m_fdListen ?r"
    using assms(2-4) by (intro worker_connection_balance [OF nc]) auto
  moreover have "balance 0 (r, w) (?r, w)" using assms(2)
    by (cases "s_busy_workers w"; cases "s_worker_state w") (auto simp: balance_def counted_def linked_def fds_ok_def)
  ultimately show ?thesis using balance_trans [of 0 r w ?r w 0 r' w'] by (auto simp: k' intro!: after_none)
qed

lemma after_first:
  assumes "after_events 1 (e # es) (r, w, os, k) (r1, w1, os1, k1)" "after_events m es (r1, w1, os1, k1) (r2, w2, os2, k2)"
  shows "after_events (Suc m) (e # es) (r, w, os, k) (r2, w2, os2, k2)"
  using after_append [of 1 "e # es" r w os k r1 w1 os1 k1 m r2 w2 os2 k2] assms by simp

lemma wait_loop_after:
  assumes "wait_loop fd s es (r, w, os, k) = Some (res, es', r', w', os', k')"
    and "fd = (if m_fd r \<noteq> -1 then m_fd r else m_fdListen r)" "fds_ok r" "answers_ok l es" "m_fdListen r \<in> {l, -1}"
  shows "\<exists>n. after_events n es (r, w, os, k) (r', w', os', k') \<and> (res = Readable \<longrightarrow> es' = drop n es \<and> m_fd r' \<noteq> -1)"
  using assms
proof (induction es arbitrary: fd s r w os k)
  case Nil
  then show ?case by (auto intro!: exI [of _ 0] after_none quiet_balance)
next
  case (Cons e es)
  define w0 where "w0 = (if we_stop e then lsapi_siguser1 w else w)"
  define k0 where "k0 = kills_sent (we_kill1 e) k"
  obtain w1 k1 where sel: "marked_select (fd = m_fdListen r) e (w0, k0) = (w1, k1)" by fastforce
  have l: "fd = m_fdListen r \<longleftrightarrow> m_fd r = -1" using Cons.prems(2,3) by (auto simp: fds_ok_def)
  have A: "after_events 1 (e # es) (r, w, os, k) (r, w1, os, k1)"
    using after_select [OF sel [unfolded w0_def k0_def]] l by simp
  have ok: "answers_ok l es" "\<And>nfd rx tx. we_accept e = Accepted nfd rx tx \<Longrightarrow> nfd \<noteq> -1 \<and> nfd \<noteq> l"
    using Cons.prems(4) by (auto simp: answers_ok_def)
  have goes_on: "\<exists>n. after_events n (e # es) (r, w, os, k) (r', w', os', k') \<and> (res = Readable \<longrightarrow> es' = drop n (e # es) \<and> m_fd r' \<noteq> -1)"
    if "wait_loop fd2 s2 es (r2, w2, os2, k2) = Some (res, es', r', w', os', k')"
      "after_events 1 (e # es) (r, w, os, k) (r2, w2, os2, k2)"
      "fd2 = (if m_fd r2 \<noteq> -1 then m_fd r2 else m_fdListen r2)" "m_fdListen r2 \<in> {l, -1}" "fds_ok r2" for fd2 s2 r2 w2 os2 k2
    using Cons.IH [OF that(1,3,5) ok(1) that(4)] after_first [OF that(2)] by fastforce
  have ends: "\<exists>n. after_events n (e # es) (r, w, os, k) (r', w', os', k') \<and> (res = Readable \<longrightarrow> es' = drop n (e # es) \<and> m_fd r' \<noteq> -1)"
    if "after_events 1 (e # es) (r, w, os, k) (r', w', os', k')" "res = Readable \<longrightarrow> es' = es \<and> m_fd r' \<noteq> -1"
    using that by (intro exI [of _ 1]) simp
  have B: "after_events 1 (e # es) (r, w, os, k) (r, w1, os, k2)"
    if "wk_accepting_workers k2 = wk_accepting_workers k1" "wk_req_processed k2 = wk_req_processed k1" for k2
    using A that by (simp add: after_events_def)
  have early: "\<exists>n. after_events n (e # es) (r, w, os, k) (r, w0, os, k0) \<and> (res = Readable \<longrightarrow> es' = drop n (e # es) \<and> m_fd r' \<noteq> -1)" if "res \<noteq> Readable"
    using that by (intro exI [of _ 0]) (auto intro!: after_none quiet_balance simp: w0_def k0_def kills_sent_def lsapi_siguser1_def quiet_def)
  note now = Cons.prems(1) [unfolded wait_loop.simps Let_def, folded w0_def k0_def, unfolded sel prod.case]
  show ?case
  proof (cases "\<not> g_running w0 \<or> told_to_stop k0")
    case True
    then show ?thesis using now early by (auto split: if_splits)
  next
    case run: False
    show ?thesis
    proof (cases "we_select e")
      case Sel_timeout
      then obtain g k2 where wt: "wait_timeout (fd = m_fdListen r) s e w1 k1 = Some (g, k2)" using now run by (auto split: bind_splits)
      note B2 = B [of k2] wait_timeout_counts [OF wt]
      show ?thesis
      proof (cases g)
        case True
        then show ?thesis using now run Sel_timeout wt B2 by (intro ends) auto
      next
        case False
        then show ?thesis using now run Sel_timeout wt B2 Cons.prems(2,3,5) by (intro goes_on [of fd "s + 1" r w1 os k2]) auto
      qed
    next
      case Sel_intr
      then show ?thesis using now run A Cons.prems(2,3,5) by (intro goes_on [of fd s r w1 os k1]) auto
    next
      case Sel_error
      then show ?thesis using now run A by (intro ends) auto
    next
      case Sel_ready
      show ?thesis
      proof (cases "told_to_stop k1 \<or> \<not> fd = m_fdListen r \<or> we_accept e = Accept_error")
        case True
        then show ?thesis using now run A Sel_ready l by (intro ends) (auto split: if_splits accept_answer.splits)
      next
        case go: False
        show ?thesis
        proof (cases "we_accept e")
          case (Accepted nfd rx tx)
          obtain rc r2 w2 os2 k2 where tc: "take_connection nfd rx tx (r, w1, os, k1) = (rc, r2, w2, os2, k2)" by (metis prod_cases5)
          have C: "after_events 0 es (r, w1, os, k1) (r2, w2, os2, k2) \<and> m_fd r2 = nfd \<and> m_fdListen r2 \<in> {m_fdListen r, -1}"
            using go l ok(2) [OF Accepted] Cons.prems(5) by (intro take_connection_after [OF tc]) auto
          have D: "after_events 1 (e # es) (r, w, os, k) (r2, w2, os2, k2)"
            using after_first [OF A, of 0] C by simp
          show ?thesis
          proof (cases "rc = -1")
            case True
            then show ?thesis using now run Sel_ready go Accepted tc D by (intro ends) auto
          next
            case False
            have "m_fd r2 \<noteq> -1" "m_fdListen r2 \<in> {l, -1}" "fds_ok r2" using C ok(2) [OF Accepted] Cons.prems(5) by (auto simp: fds_ok_def)
            then show ?thesis using now run Sel_ready go Accepted tc D False C
              by (intro goes_on [of nfd s r2 w2 os2 k2]) auto
          qed
        next
          case Accept_again
          then show ?thesis using now run Sel_ready go A Cons.prems(2,3,5) by (intro goes_on [of fd s r w1 os k1]) auto
        qed (use go in simp)
      qed
    qed
  qed
qed

lemma wait_loop_returns: "wait_loop fd s es st = Some (Returns x, es', st') \<Longrightarrow> x = -1"
proof (induction es arbitrary: fd s st)
  case (Cons e es)
  obtain r w os k where st: "st = (r, w, os, k)" by (metis prod_cases4)
  show ?case
    using Cons.prems unfolding st
    by (auto simp: Let_def split: if_splits select_result.splits accept_answer.splits prod.splits bind_splits dest!: Cons.IH)
qed simp

lemma read_request_after:
  assumes "read_request r w os = Some (ok, r', w', os')" "s_uid w \<noteq> 0"
  shows "balance 0 (r, w) (r', w') \<and> (ok \<longrightarrow> m_fd r' = m_fd r)"
proof -
  obtain rc r1 w1 os1 where rq: "readReq r w os = Some (rc, r1, w1, os1)"
    and rest: "(if rc = 0 then Some (True, r1, w1, os1)
     else case lsapi_close_connection r1 w1 of (r, w) \<Rightarrow> Some (False, LSAPI_Reset_r r, w, os1)) = Some (ok, r', w', os')"
    using assms(1) unfolding read_request_def by (auto split: bind_splits)
  note q = readReq_quiet [OF rq assms(2)]
  show ?thesis
  proof (cases "rc = 0")
    case True
    then show ?thesis using rest q quiet_balance by (auto simp: same_fds_def)
  next
    case False
    obtain r2 w2 where cl: "lsapi_close_connection r1 w1 = (r2, w2)" by fastforce
    have "balance 0 (r, w) (r2, w2)"
      using balance_trans [OF quiet_balance close_balance [OF cl], of r w] q by simp
    then have "balance 0 (r, w) (LSAPI_Reset_r r2, w2)"
      by (rule balance_then_quiet) (simp_all add: LSAPI_Reset_r_def same_fds_def)
    then show ?thesis using rest False cl by auto
  qed
qed

lemma worker_accept_loop_after:
  assumes "worker_accept_loop clock es (r, w, os, k) = Some (res, r', w', os', k')"
    and "fds_ok r" "answers_ok l es" "m_fdListen r \<in> {l, -1}" "s_uid w \<noteq> 0"
  shows "\<exists>n k2. after_events n es (r, w, os, k) (r', w', os', k2) \<and>
    (if res = Returns 0 then m_fd r' \<noteq> -1 \<and> (\<exists>now. k' = request_begins now k2) else k' = k2)"
  using assms
proof (induction "length es" arbitrary: es r w os k rule: less_induct)
  case less
  let ?fd = "if m_fd r \<noteq> -1 then m_fd r else m_fdListen r"
  have none: "\<exists>n k2. after_events n es (r, w, os, k) (r, w, os, k2) \<and> k = k2"
    using after_none [OF quiet_balance [OF quiet_refl(2,1)]] by blast
  show ?case
  proof (cases "\<not> g_running w \<or> (m_fd r = -1 \<and> m_fdListen r = -1)")
    case True
    then have "res = Returns (-1) \<and> r' = r \<and> w' = w \<and> os' = os \<and> k' = k"
      using less.prems(1) unfolding worker_accept_loop.simps [of clock es r] by (auto split: if_splits)
    then show ?thesis using none by auto
  next
    case False
    then obtain res1 es1 r1 w1 os1 k1 where wt: "wait_loop ?fd 0 es (r, w, os, k) = Some (res1, es1, r1, w1, os1, k1)"
      and rest: "(if res1 \<noteq> Readable then Some (res1, r1, w1, os1, k1)
        else do {
          (ok, r, w, os) \<leftarrow> read_request r1 w1 os1;
          (if ok then Some (Returns 0, r, w, os, request_begins (clock (length es1)) k1)
           else worker_accept_loop clock es1 (r, w, os, k1)) }) = Some (res, r', w', os', k')"
      using less.prems(1) by (auto simp: worker_accept_loop.simps [of clock es r] Let_def split: bind_splits)
    obtain n where A: "after_events n es (r, w, os, k) (r1, w1, os1, k1)"
      and R: "res1 = Readable \<longrightarrow> es1 = drop n es \<and> m_fd r1 \<noteq> -1"
      using wait_loop_after [OF wt refl less.prems(2,3,4)] by blast
    show ?thesis
    proof (cases "res1 = Readable")
      case True
      then obtain ok r2 w2 os2 where rd: "read_request r1 w1 os1 = Some (ok, r2, w2, os2)"
        using rest by (auto split: bind_splits)
      have A1: "balance (others_busy (take n es)) (r, w) (r1, w1)" using A by (simp add: after_events_def)
      then have B: "balance 0 (r1, w1) (r2, w2) \<and> (ok \<longrightarrow> m_fd r2 = m_fd r1)"
        using less.prems(5) by (intro read_request_after [OF rd]) (simp add: balance_def)
      have C: "after_events n es (r, w, os, k) (r2, w2, os2, k1)"
        using A B balance_trans [OF A1, of 0 r2 w2] by (simp add: after_events_def)
      show ?thesis
      proof (cases ok)
        case ok: True
        then show ?thesis using rest rd True C B R by auto
      next
        case fail: False
        have es1: "es1 = drop n es" using R True by simp
        have "\<exists>m k2. after_events m es1 (r2, w2, os2, k1) (r', w', os', k2) \<and>
            (if res = Returns 0 then m_fd r' \<noteq> -1 \<and> (\<exists>now. k' = request_begins now k2) else k' = k2)"
        proof (rule less.hyps)
          show "length es1 < length es" using wait_loop_consumes wt True by blast
          show "worker_accept_loop clock es1 (r2, w2, os2, k1) = Some (res, r', w', os', k')" using rest rd True fail by simp
          have "balance (others_busy (take n es)) (r, w) (r2, w2)" using C by (simp add: after_events_def)
          then show "fds_ok r2" "m_fdListen r2 \<in> {l, -1}" "s_uid w2 \<noteq> 0" using less.prems(2,4,5) by (auto simp: balance_def)
          show "answers_ok l es1" using less.prems(3) unfolding es1 answers_ok_def by (meson in_set_dropD)
        qed
        then show ?thesis using after_append [OF C] es1 by blast
      qed
    next
      case no: False
      then have eq: "res = res1" "r' = r1" "w' = w1" "os' = os1" "k' = k1" using rest by auto
      have "res1 \<noteq> Returns 0" using wait_loop_returns [of _ _ _ _ 0] wt by auto
      then show ?thesis using A eq by auto
    qed
  qed
qed

lemma next_request_after:
  assumes "next_request clock es (r, w, os, k) = Some (res, r', w', os', k')"
    and "fds_ok r" "answers_ok l es" "m_fdListen r \<in> {l, -1}" "s_uid w \<noteq> 0"
  shows "\<exists>n k2. after_events n es (r, w, os, k) (r', w', os', k2) \<and>
    (if res = Returns 0 then m_fd r' \<noteq> -1 \<and> (\<exists>now. k' = request_begins now k2) else k' = k2)"
proof (cases "wk_req_processed k mod 4294967296 > int (wk_max_reqs k)")
  case True
  have "after_events 0 es (r, w, os, k) (r, w, os, k)" by (rule after_none [OF quiet_balance]) simp_all
  then show ?thesis using assms(1) True by (auto simp: next_request_def)
next
  case False
  define k1 where "k1 = k\<lparr>wk_status := map_option (\<lambda>c. c\<lparr>cs_tmWaitBegin := clock (length es)\<rparr>) (wk_status k)\<rparr>"
  have "worker_accept_loop clock es (r, w, os, k1) = Some (res, r', w', os', k')" using assms(1) False by (simp add: next_request_def k1_def)
  from worker_accept_loop_after [OF this assms(2-5)] show ?thesis by (simp add: after_events_def k1_def)
qed

lemma leave_balance: "leave_connection r w = (r', w') \<Longrightarrow> balance 0 (r, w) (r', w')"
proof -
  assume l: "leave_connection r w = (r', w')"
  define w1 where "w1 = (if m_fd r \<noteq> -1 then snd (send_conn_close_notification w) else w)"
  have "quiet w w1" unfolding w1_def send_conn_close_notification_def using notify_quiet by (metis prod.collapse quiet_refl(1))
  then have "balance 0 (r, w) (r, w1)" by (intro quiet_balance) simp
  moreover have "balance 0 (r, w1) (r', w')" using l by (intro close_balance) (simp add: leave_connection_def w1_def)
  ultimately show ?thesis using balance_trans by fastforce
qed

text \<open>
  C5. The counters of a worker that runs without privileges balance: let the counter of busy
  workers be \<open>b\<close>, which counts this worker when it has a connection, and that of accepting workers \<open>a\<close>.
  Whatever happens while \<open>LSAPI_Prefork_Accept_r\<close> waits, after \<open>n\<close> events the busy counter is what the
  others have made of it plus one exactly if this worker has a connection, the accepting counter is what
  the others have made of it, and the entry that the server reads when the worker dies says
  connected exactly if there is a connection. The call returns 0 only with a connection, with
  one more request counted and the entry marked as in process.
\<close>

theorem worker_counters_balance:
  assumes "LSAPI_Prefork_Accept_r None clock es (r, w, os, k) = Some (res, r', w', os', k')"
    and "s_uid w \<noteq> 0" "m_fd r = -1 \<or> m_fd r \<noteq> m_fdListen r" "linked r w"
    and "\<forall>e\<in>set es. \<forall>fd rx tx. we_accept e = Accepted fd rx tx \<longrightarrow> fd \<noteq> -1 \<and> fd \<noteq> m_fdListen r"
    and "s_busy_workers w = Some b" "wk_accepting_workers k = Some a"
  shows "\<exists>n \<le> length es.
    s_busy_workers w' = Some (b - counted r + sum_list (map we_busy (take n es)) + counted r') \<and>
    wk_accepting_workers k' = Some (a + sum_list (map we_accepting (take n es))) \<and> linked r' w' \<and>
    (if res = Returns 0
     then counted r' = 1 \<and> wk_req_processed k' = wk_req_processed k + 1 \<and> (\<forall>c. wk_status k' = Some c \<longrightarrow> cs_inProcess c \<and> cs_iKillSent c = 0)
     else wk_req_processed k' = wk_req_processed k)"
proof (cases "s_skip_write w")
  case True
  then show ?thesis using assms by (intro exI [of _ 0]) (auto simp: LSAPI_Prefork_Accept_r_def)
next
  case False
  then obtain rc r1 w1 where fin: "LSAPI_Finish_r r w = Some (rc, r1, w1)"
    and rest: "(if too_busy w1 k then case leave_connection r1 w1 of (r, w) \<Rightarrow> next_request clock es (r, w, os, k)
           else next_request clock es (r1, w1, os, k)) = Some (res, r', w', os', k')"
    using assms(1) by (auto simp: LSAPI_Prefork_Accept_r_def split: bind_splits)
  obtain r2 w2 where two: "(if too_busy w1 k then leave_connection r1 w1 else (r1, w1)) = (r2, w2)" by fastforce
  have "balance 0 (r1, w1) (r2, w2)" using two leave_balance quiet_balance [OF quiet_refl(2,1)] by (auto split: if_splits)
  from balance_trans [OF finish_balance [OF fin] this] have B: "balance 0 (r, w) (r2, w2)" by simp
  have "next_request clock es (r2, w2, os, k) = Some (res, r', w', os', k')" using rest two by (auto split: if_splits)
  moreover have "fds_ok r2" "m_fdListen r2 \<in> {m_fdListen r, -1}" "s_uid w2 \<noteq> 0" using B assms(2,3) by (auto simp: balance_def fds_ok_def)
  ultimately obtain n k2 where A: "after_events n es (r2, w2, os, k) (r', w', os', k2)"
    and R: "if res = Returns 0 then m_fd r' \<noteq> -1 \<and> (\<exists>now. k' = request_begins now k2) else k' = k2"
    using next_request_after [where l = "m_fdListen r"] assms(5) unfolding answers_ok_def by blast
  have "balance (others_busy (take n es)) (r2, w2) (r', w')" using A by (simp add: after_events_def)
  from balance_trans [OF B this] have bal: "balance (others_busy (take n es)) (r, w) (r', w')" by simp
  show ?thesis
    by (rule exI [of _ n]) (use A R bal assms(4,6,7) in \<open>auto simp: after_events_def balance_def counted_def request_begins_def\<close>)
qed

text \<open>
  A worker that takes a connection while another becomes busy, and gives up after a second in
  which nothing arrives.
\<close>

definition demo_event :: "select_result \<Rightarrow> int \<Rightarrow> wait_event" where
  "demo_event sel busy = \<lparr>we_stop = False, we_kill1 = 0, we_kill2 = 0, we_busy = busy, we_accepting = 0, we_avail = 9, we_select = sel,
     we_accept = Accepted 7 [] [], we_kill0 = Kill_ok, we_getppid = 1\<rparr>"

definition demo_vars :: worker_vars where
  "demo_vars = \<lparr>wk_status = Some zero_status, wk_accepting_workers = Some 0, wk_keep_listener = 2, wk_req_processed = 0, wk_max_reqs = 100,
     wk_max_idle_secs = 1, wk_max_busy_workers = 0, wk_avail_pages = Some 9, wk_min_avail_pages = 1, wk_total_pages = 10, wk_ppid = 0,
     wk_restored_ppid = 0\<rparr>"

definition demo_os :: suexec_os where
  "demo_os = \<lparr>priv_log = [], priv_ok = (\<lambda>_. False), getpwuid = (\<lambda>_. None), s_lve = False, fp_lve_enter = (\<lambda>_. 0), fp_lve_jail = None,
     s_enable_lve = 0, s_enable_core_dump = False, os_getuid = 99, os_getpid = 1, os_strerror = [], getcwd = None,
     realpath = (\<lambda>_. (None, [])), open_log = (\<lambda>_. False)\<rparr>"

theorem worker_counters_balance_witness:
  "\<exists>r' w' os' k'. LSAPI_Prefork_Accept_r None (\<lambda>_. 5) [demo_event Sel_ready 1, demo_event Sel_timeout 0]
       (zero_request\<lparr>m_fd := -1, m_fdListen := 3\<rparr>,
        (start_world [])\<lparr>s_uid := 99, s_busy_workers := Some 0, s_worker_state := Some LSAPI_STATE_IDLE\<rparr>, demo_os, demo_vars) =
     Some (Returns (-1), r', w', os', k') \<and>
   (\<exists>n\<le>2. s_busy_workers w' = Some (sum_list (map we_busy (take n [demo_event Sel_ready 1, demo_event Sel_timeout 0])) + counted r')) \<and>
   linked r' w' \<and> s_busy_workers w' = Some 2"
proof -
  let ?r = "zero_request\<lparr>m_fd := -1, m_fdListen := 3\<rparr>"
  let ?w = "(start_world [])\<lparr>s_uid := 99, s_busy_workers := Some 0, s_worker_state := Some LSAPI_STATE_IDLE\<rparr>"
  let ?es = "[demo_event Sel_ready 1, demo_event Sel_timeout 0]"
  have "\<exists>r' w' os' k'. LSAPI_Prefork_Accept_r None (\<lambda>_. 5) ?es (?r, ?w, demo_os, demo_vars) = Some (Returns (-1), r', w', os', k') \<and>
      s_busy_workers w' = Some 2"
    by (simp add: LSAPI_Prefork_Accept_r_def LSAPI_Finish_r_def zero_request_def start_world_def too_busy_def next_request_def demo_vars_def
        worker_accept_loop.simps demo_event_def kills_sent_def told_to_stop_def marked_select_def shared_changes_def add_busy_def add_accepting_def
        set_state_def take_connection_def worker_connection_def wait_timeout_def zero_status_def lsapi_parent_dead_def)
  then obtain r' w' os' k' where run: "LSAPI_Prefork_Accept_r None (\<lambda>_. 5) ?es (?r, ?w, demo_os, demo_vars) = Some (Returns (-1), r', w', os', k')"
    and busy: "s_busy_workers w' = Some 2" by blast
  have hyps: "s_uid ?w \<noteq> 0" "m_fd ?r = -1 \<or> m_fd ?r \<noteq> m_fdListen ?r" "linked ?r ?w"
      "\<forall>e\<in>set ?es. \<forall>fd rx tx. we_accept e = Accepted fd rx tx \<longrightarrow> fd \<noteq> -1 \<and> fd \<noteq> m_fdListen ?r"
      "s_busy_workers ?w = Some 0" "wk_accepting_workers demo_vars = Some 0" "counted ?r = 0"
    by (simp_all add: linked_def demo_event_def demo_vars_def counted_def)
  from worker_counters_balance [OF run hyps(1-6)] hyps(7) show ?thesis using run busy by (auto simp: numeral_2_eq_2)
qed

end
