(* ===== verification/Lsapi_Handler.thy ===== *)
theory Lsapi_Handler
  imports Handle_Request Lsapi_Request_Body
begin

text \<open>
  \<open>lsapi_handle_request\<close> of main.cpp: one request that arrived over LSAPI, through the same
  filter chain as over HTTP, answered through a \<open>LsapiResponseSink\<close>. The request and the
  connection are in the sink.
\<close>

subsection \<open>The request\<close>

definition LSAPI_GetQueryString_r :: "LSAPI_Request \<Rightarrow> int option" where
  "LSAPI_GetQueryString_r r = m_pQueryString r"

definition LSAPI_GetScriptName_r :: "LSAPI_Request \<Rightarrow> int option" where
  "LSAPI_GetScriptName_r r = m_pScriptName r"

definition LSAPI_GetRequestMethod_r :: "LSAPI_Request \<Rightarrow> int option" where
  "LSAPI_GetRequestMethod_r r = m_pRequestMethod r"

definition LSAPI_GetReqBodyLen_r :: "LSAPI_Request \<Rightarrow> int" where
  "LSAPI_GetReqBodyLen_r r = m_reqBodyLen r"

text \<open>The C string behind a pointer, a default for NULL.\<close>

definition string_or :: "str \<Rightarrow> int option \<Rightarrow> LSAPI_Request \<Rightarrow> str option" where
  "string_or dflt p r = (case p of Some q \<Rightarrow> c_string_at q (m_pReqBuf r) | None \<Rightarrow> Some dflt)"

text \<open>\<open>H_CONTENT_TYPE\<close> is 6.\<close>

definition add_missing_header :: "str \<Rightarrow> nat \<Rightarrow> HeaderPairs \<Rightarrow> LSAPI_Request \<Rightarrow> (HeaderPairs \<times> LSAPI_Request) option" where
  "add_missing_header name idx hdrs r =
    (if has_name name hdrs then Some (hdrs, r)
     else do {
       (p, r) \<leftarrow> LSAPI_GetHeader_r r (int idx);
       s \<leftarrow> string_or [] p r;
       Some (if s \<noteq> [] then hdrs @ [(name, s)] else hdrs, r) })"

definition lsapi_http_data :: "LSAPI_Request \<Rightarrow> (HttpData \<times> LSAPI_Request) option" where
  "lsapi_http_data r = do {
    m \<leftarrow> string_or (ascii ''GET'') (LSAPI_GetRequestMethod_r r) r;
    (path, r) \<leftarrow>
      (if LSAPI_GetScriptName_r r \<noteq> None
       then do { s \<leftarrow> string_or [] (LSAPI_GetScriptName_r r) r; Some (s, r) }
       else do {
         (uri, r) \<leftarrow> LSAPI_GetEnv_r r (ascii ''REQUEST_URI'');
         s \<leftarrow> string_or (ascii ''/'') uri r;
         Some (s, r) });
    query \<leftarrow> string_or [] (LSAPI_GetQueryString_r r) r;
    let path = (if query \<noteq> [] then path @ [0x3f] @ query else path);
    (n, hdrs, r) \<leftarrow> LSAPI_ForeachHeader_r r lsapi_header_cb [];
    (hdrs, r) \<leftarrow> add_missing_header (ascii ''Content-Type'') 6 hdrs r;
    (hdrs, r) \<leftarrow> add_missing_header (ascii ''Content-Length'') H_CONTENT_LENGTH hdrs r;
    Some (new_http_data\<lparr>hd_method := m, hd_path := path, hd_version := ascii ''HTTP/1.1'', hd_request_headers := hdrs\<rparr>, r) }"

subsection \<open>The phases\<close>

type_synonym 'v lsapi_state = "(LsapiResponseSink, 'v) filter_state"

text \<open>\<open>sendHeaders\<close>, \<open>writeBody\<close> and \<open>finishBody\<close> one after the other; the results are not looked at.\<close>

definition lsapi_respond :: "nat \<Rightarrow> HeaderPairs \<Rightarrow> str \<Rightarrow> 'v lsapi_state \<Rightarrow> 'v lsapi_state option" where
  "lsapi_respond code headers body fs = do {
    (ok, s) \<leftarrow> lsapi_sendHeaders code headers False (fs_sink fs);
    (ok, s) \<leftarrow> lsapi_writeBody body s;
    (ok, s) \<leftarrow> lsapi_finishBody s;
    Some (fs\<lparr>fs_sink := s\<rparr>) }"

definition lsapi_send_local :: "'v lsapi_state \<Rightarrow> 'v lsapi_state option" where
  "lsapi_send_local fs =
    lsapi_respond (hd_local_response_code (fs_data fs)) (hd_local_response_additional_headers (fs_data fs))
      (hd_local_response_body (fs_data fs)) fs"

text \<open>The loop over the body; its first result is false when the request was given up.\<close>

function lsapi_body_loop ::
  "('v, 'h, LsapiResponseSink) proxy_wasm \<Rightarrow> int \<Rightarrow> int \<Rightarrow> 'v lsapi_state \<Rightarrow> (bool \<times> 'v lsapi_state) option" where
  "lsapi_body_loop pw body_len body_consumed fs =
    (if body_consumed < body_len \<and> \<not> hd_has_local_response (fs_data fs)
     then do {
       (n, data, r, w) \<leftarrow> LSAPI_ReadReqBody_r (ls_req (fs_sink fs)) (min (nat (body_len - body_consumed)) BODY_CHUNK_SIZE) (ls_world (fs_sink fs));
       let fs = fs\<lparr>fs_sink := (fs_sink fs)\<lparr>ls_req := r, ls_world := w\<rparr>\<rparr>;
       (if n \<le> 0 then Some (False, fs)
        else do {
          let body_consumed = body_consumed + n;
          fs \<leftarrow> onRequestBody pw (body_len \<le> body_consumed) (fs\<lparr>fs_data := (fs_data fs)\<lparr>hd_request_body := take (nat n) data\<rparr>\<rparr>);
          lsapi_body_loop pw body_len body_consumed fs }) }
     else Some (True, fs))"
  by pat_completeness auto
termination
  by (relation "measure (\<lambda>(_, body_len, body_consumed, _). nat (body_len - body_consumed))") auto

declare lsapi_body_loop.simps [simp del]

definition lsapi_pacifier :: "HttpData \<Rightarrow> str" where
  "lsapi_pacifier d =
    ascii ''=== WASM LSAPI Proxy ==='' @ [LF] @ ascii ''Method: '' @ hd_method d @ [LF] @ ascii ''Path: '' @ hd_path d @ [LF]"

definition lsapi_default_response ::
  "('v, 'h, LsapiResponseSink) proxy_wasm \<Rightarrow> bool \<Rightarrow> 'v lsapi_state \<Rightarrow> 'v lsapi_state option" where
  "lsapi_default_response pw pacifier fs = do {
    let d = fs_data fs;
    let d = d\<lparr>hd_response_body := (if pacifier then lsapi_pacifier d else [])\<rparr>;
    let d = d\<lparr>hd_response_headers := [(ascii ''Content-Type'', ascii ''text/plain'')]\<rparr>;
    fs \<leftarrow> onResponseHeaders pw (fs\<lparr>fs_data := d\<rparr>);
    fs \<leftarrow> onResponseBody pw fs;
    fs \<leftarrow> onResponseTrailers pw fs;
    (if hd_has_local_response (fs_data fs)
     then if filter_hasStreamingResponse (fs_ctx fs) then Some fs else lsapi_send_local fs
     else if filter_hasStreamingResponse (fs_ctx fs) then Some fs
     else lsapi_respond 200 (with_content_length (fs_data fs)) (hd_response_body (fs_data fs)) fs) }"

text \<open>From the creation of the filter context on.\<close>

definition lsapi_serve ::
  "('v, 'h, LsapiResponseSink) proxy_wasm \<Rightarrow> 'h WasmModuleManager option \<Rightarrow> bool \<Rightarrow> 'v lsapi_state \<Rightarrow> 'v lsapi_state option" where
  "lsapi_serve pw mm pacifier fs = do {
    let body_len = LSAPI_GetReqBodyLen_r (ls_req (fs_sink fs));
    let has_body = (body_len > 0);
    fs \<leftarrow> onRequestHeaders pw mm (\<not> has_body) fs;
    (if hd_has_local_response (fs_data fs) then lsapi_send_local fs
     else do {
       (ok, fs) \<leftarrow> (if has_body then lsapi_body_loop pw body_len 0 fs else Some (True, fs));
       (if \<not> ok then Some fs
        else do {
          fs \<leftarrow> (if \<not> hd_has_local_response (fs_data fs) then onRequestTrailers pw fs else Some fs);
          (if hd_has_local_response (fs_data fs) then lsapi_send_local fs
           else if filter_hasStreamingResponse (fs_ctx fs) then Some fs
           else lsapi_default_response pw pacifier fs) }) }) }"

definition lsapi_handle_request ::
  "('v, 'h, LsapiResponseSink) proxy_wasm \<Rightarrow> 'h WasmModuleManager option \<Rightarrow> bool \<Rightarrow> nat \<Rightarrow> LSAPI_Request \<Rightarrow> lsapi_world \<Rightarrow> 'v \<Rightarrow>
    (LSAPI_Request \<times> lsapi_world \<times> 'v) option" where
  "lsapi_handle_request pw mm pacifier ctx_id r w v = do {
    (d, r) \<leftarrow> lsapi_http_data r;
    let sink = \<lparr>ls_req = r, ls_world = w, ls_error = False\<rparr>;
    fs \<leftarrow> lsapi_serve pw mm pacifier
      \<lparr>fs_data = d, fs_ctx = filter_setResponseSink True (new_filter ctx_id), fs_sink = sink, fs_vm = v\<rparr>;
    (s, v) \<leftarrow> destroy_filter pw fs;
    Some (ls_req s, ls_world s, v) }"

subsection \<open>One response for each request\<close>

text \<open>Modules that answer through headers and local responses only: their callbacks return and leave the sink alone.\<close>

definition sink_free :: "('v, 'h, 's) proxy_wasm \<Rightarrow> bool" where
  "sink_free pw \<longleftrightarrow> (\<forall>p cb c s v. \<exists>c' v'. pw_callback pw p cb c s v = Some (c', s, v') \<and> lc_streaming_state c' = lc_streaming_state c)"

abbreviation idle_chain :: "('s, 'v) filter_state \<Rightarrow> bool" where
  "idle_chain fs \<equiv> \<not> filter_hasStreamingResponse (fs_ctx fs)"

lemma sink_free_callback:
  assumes "sink_free pw"
  obtains c' v' where "pw_callback pw p cb c s v = Some (c', s, v')" "lc_streaming_state c' = lc_streaming_state c"
  using assms unfolding sink_free_def by blast

lemma idle_chain_iff:
  "idle_chain fs \<longleftrightarrow> list_all (\<lambda>(n, sc). case rs_ctx sc of Some (p, c) \<Rightarrow> lc_streaming_state c = Idle | None \<Rightarrow> True) (fc_scopes (fs_ctx fs))"
  by (auto simp: filter_hasStreamingResponse_def scope_test_def hasStreamingResponse_def list_ex_iff list_all_iff split: option.splits prod.splits)

lemma run_module_idle:
  assumes free: "sink_free pw" and idle: "idle_chain fs" and before: "\<And>d c. lc_streaming_state (before d c) = lc_streaming_state c"
  shows "\<exists>fs'. run_module pw cb before after m fs = Some fs' \<and> idle_chain fs' \<and> fs_sink fs' = fs_sink fs"
proof (cases "map_of (fc_scopes (fs_ctx fs)) m")
  case None
  then show ?thesis using idle by (simp add: run_module_def)
next
  case (Some scope)
  show ?thesis
  proof (cases "rs_ctx scope")
    case None
    then show ?thesis using idle Some by (simp add: run_module_def)
  next
    case (Some pc)
    obtain p c where pc: "pc = (p, c)" by fastforce
    have "(m, scope) \<in> set (fc_scopes (fs_ctx fs))" using \<open>map_of _ m = Some scope\<close> by (rule map_of_SomeD)
    then have "lc_streaming_state c = Idle" using idle Some pc unfolding idle_chain_iff by (auto simp: list_all_iff)
    obtain c' v' where cb: "pw_callback pw p cb (before (fs_data fs) c) (fs_sink fs) (fs_vm fs) = Some (c', fs_sink fs, v')"
      "lc_streaming_state c' = lc_streaming_state (before (fs_data fs) c)" using free by (rule sink_free_callback)
    let ?fs = "leave_module after m (scope\<lparr>rs_ctx := Some (p, c')\<rparr>) c' (fs_sink fs) v' fs"
    have "idle_chain ?fs" using idle cb(2) before \<open>lc_streaming_state c = Idle\<close>
      unfolding idle_chain_iff by (auto simp: leave_module_def list_all_iff split: if_splits)
    then show ?thesis using \<open>map_of _ m = Some scope\<close> Some pc cb(1) by (simp add: run_module_def leave_module_def)
  qed
qed

lemma run_phase_idle:
  assumes free: "sink_free pw" and idle: "idle_chain fs" and before: "\<And>d c. lc_streaming_state (before d c) = lc_streaming_state c"
  shows "\<exists>fs'. run_phase pw cb before after fs = Some fs' \<and> idle_chain fs' \<and> fs_sink fs' = fs_sink fs"
proof -
  have "\<exists>fs'. run_modules (run_module pw cb before after) ms fs = Some fs' \<and> idle_chain fs' \<and> fs_sink fs' = fs_sink fs" for ms
    using idle
  proof (induction ms arbitrary: fs)
    case (Cons m ms)
    from run_module_idle [OF free Cons.prems, where before = before and cb = cb and after = after and m = m, OF before] obtain fs1 where
      1: "run_module pw cb before after m fs = Some fs1" "idle_chain fs1" "fs_sink fs1 = fs_sink fs" by blast
    from Cons.IH [OF 1(2)] 1 Cons.prems show ?case by auto
  qed simp
  then show ?thesis by (simp add: run_phase_def)
qed

lemma setParentContext_idle: "lc_streaming_state (setParentContext i (createContext p)) = Idle"
  by (simp add: setParentContext_def createContext_def new_context_def)

lemma new_scope_idle:
  assumes "sink_free pw"
  shows "\<exists>ok scope v'. createRequestScope pw m k i new_scope s v = Some (ok, scope, s, v') \<and>
    (ok \<longrightarrow> (\<exists>p c. rs_ctx scope = Some (p, c) \<and> lc_streaming_state c = Idle))"
proof (cases "map_of (mm_modules m) k")
  case None
  then show ?thesis by (intro exI [of _ False]) (simp add: createRequestScope_def)
next
  case (Some st)
  obtain h v1 where h: "pw_getOrCreateThreadLocalPlugin pw (mst_base_handle st) (mst_plugin st) v = (h, v1)" by fastforce
  have cb: "\<exists>c' v'. pw_callback pw (mst_plugin st) OnCreate (setParentContext (Some root) (createContext (mst_plugin st))) s v1 = Some (c', s, v') \<and>
    lc_streaming_state c' = Idle" for root
    using sink_free_callback [OF assms] by (metis setParentContext_idle)
  show ?thesis
  proof (cases "\<exists>h' root. h = Some h' \<and> \<not> pw_isFailed pw h' v1 \<and> pw_getRootContext pw h' (mst_plugin st) v1 = Some root")
    case False
    then show ?thesis using h Some
      by (intro exI [of _ False], cases h; cases "pw_getRootContext pw (the h) (mst_plugin st) v1")
        (auto simp: createRequestScope_def scope_init_def Let_def)
  next
    case True
    then obtain h' root where hr: "h = Some h'" "\<not> pw_isFailed pw h' v1" "pw_getRootContext pw h' (mst_plugin st) v1 = Some root" by blast
    from cb [of root] obtain c' v' where
      "pw_callback pw (mst_plugin st) OnCreate (setParentContext (Some root) (createContext (mst_plugin st))) s v1 = Some (c', s, v')"
      "lc_streaming_state c' = Idle" by blast
    then show ?thesis using h hr Some
      by (intro exI [of _ True]) (simp add: createRequestScope_def scope_init_def Let_def resetHeaderMaps_def resetLocalResponse_def)
  qed
qed

lemma destroy_scope_free: "sink_free pw \<Longrightarrow> \<exists>v'. destroy_scope pw scope s v = Some (s, v')"
proof -
  assume f: "sink_free pw"
  show ?thesis
  proof (cases "rs_ctx scope")
    case (Some pc)
    obtain p c where pc: "pc = (p, c)" by fastforce
    obtain c1 v1 where 1: "pw_callback pw p OnDone c s v = Some (c1, s, v1)" using f by (rule sink_free_callback)
    obtain c2 v2 where "pw_callback pw p OnDelete c1 s v1 = Some (c2, s, v2)" using f by (rule sink_free_callback)
    then show ?thesis using 1 Some pc by (simp add: destroy_scope_def)
  qed (simp add: destroy_scope_def)
qed

lemma emplace_idle:
  assumes "sink_free pw" "idle_chain fs" "rs_ctx scope = Some (p, c)" "lc_streaming_state c = Idle"
  shows "\<exists>fs'. emplace_scope pw k scope fs = Some fs' \<and> idle_chain fs' \<and> fs_sink fs' = fs_sink fs"
proof (cases "map_of (fc_scopes (fs_ctx fs)) k")
  case None
  have "list_all P (insort_key fst x xs) = (P x \<and> list_all P xs)" for P and x :: "str \<times> RequestScope" and xs
    by (induction xs) auto
  then show ?thesis using None assms(2-4) unfolding idle_chain_iff by (simp add: emplace_scope_def)
next
  case (Some x)
  obtain v' where "destroy_scope pw scope (fs_sink fs) (fs_vm fs) = Some (fs_sink fs, v')" using destroy_scope_free [OF assms(1)] by blast
  then show ?thesis using Some assms(2) by (simp add: emplace_scope_def)
qed

lemma onRequestHeaders_idle:
  assumes free: "sink_free pw" and idle: "idle_chain fs"
  shows "\<exists>fs'. onRequestHeaders pw mm eos fs = Some fs' \<and> idle_chain fs' \<and> fs_sink fs' = fs_sink fs"
proof -
  have start: "\<exists>fs'. start_modules pw m eos ms fs = Some fs' \<and> idle_chain fs' \<and> fs_sink fs' = fs_sink fs" if "idle_chain fs" for m ms fs
    using that
  proof (induction ms arbitrary: fs)
    case (Cons k ms)
    obtain ok scope v1 where cr: "createRequestScope pw m k (fc_context_id (fs_ctx fs)) new_scope (fs_sink fs) (fs_vm fs) = Some (ok, scope, fs_sink fs, v1)"
      "ok \<longrightarrow> (\<exists>p c. rs_ctx scope = Some (p, c) \<and> lc_streaming_state c = Idle)" using new_scope_idle [OF free] by blast
    show ?case
    proof (cases ok)
      case False
      have "idle_chain (fs\<lparr>fs_sink := fs_sink fs, fs_vm := v1\<rparr>)" using Cons.prems by simp
      from Cons.IH [OF this] False cr(1) show ?thesis by simp
    next
      case True
      then obtain p c where pc: "rs_ctx scope = Some (p, c)" "lc_streaming_state c = Idle" using cr(2) by blast
      let ?c = "setHeaderMap RequestHeaders (hd_request_headers (fs_data fs)) (setResponseSink (fc_sink (fs_ctx fs)) c)"
      obtain c' v' where cb: "pw_callback pw p (OnRequestHeaders 0 eos) ?c (fs_sink fs) v1 = Some (c', fs_sink fs, v')"
        "lc_streaming_state c' = lc_streaming_state ?c" using free by (rule sink_free_callback)
      then have c': "lc_streaming_state c' = Idle" using pc(2) by (simp add: setHeaderMap_def setResponseSink_def)
      let ?scope = "scope\<lparr>rs_ctx := Some (p, c')\<rparr>"
      let ?d = "checkLocalResponse ?scope ((fs_data fs)\<lparr>hd_request_headers := getHeaderMapOwned RequestHeaders c'\<rparr>)"
      let ?fs = "\<lparr>fs_data = ?d, fs_ctx = (fs_ctx fs)\<lparr>fc_module_order := fc_module_order (fs_ctx fs) @ [k]\<rparr>, fs_sink = fs_sink fs, fs_vm = v'\<rparr>"
      have "idle_chain ?fs" using Cons.prems unfolding idle_chain_iff by simp
      from emplace_idle [OF free this, of ?scope p c' k] c' obtain fs2 where
        2: "emplace_scope pw k ?scope ?fs = Some fs2" "idle_chain fs2" "fs_sink fs2 = fs_sink fs" by auto
      have "start_modules pw m eos (k # ms) fs = (if hd_has_local_response (fs_data fs2) then Some fs2 else start_modules pw m eos ms fs2)"
        using cr(1) True pc(1) cb(1) 2(1) by (simp add: Let_def)
      then show ?thesis using Cons.IH [OF 2(2)] 2(2,3) by simp
    qed
  qed simp
  have "idle_chain (fs\<lparr>fs_data := synthesizePseudoHeaders (fs_data fs)\<rparr>)" using idle by simp
  from start [OF this] this show ?thesis by (cases mm) (simp_all add: onRequestHeaders_def Let_def)
qed

text \<open>Reading the body does not touch the response.\<close>

lemma lsapi_read_keeps:
  assumes "lsapi_read n w = (x, w')" "rx_live w"
  shows "rx_live w' \<and> (\<exists>es. w' = w\<lparr>w_rx := es\<rparr>)"
proof -
  have "rx_live w \<longrightarrow> (case lsapi_read n w of (x, w') \<Rightarrow> rx_live w')" by (induction rule: lsapi_read_induct) auto
  then have live: "rx_live w'" using assms by simp
  have "w\<lparr>w_rx := w_rx w', g_running := True\<rparr> = w\<lparr>w_rx := w_rx w'\<rparr>" using assms(2) by simp
  then have "w' = w\<lparr>w_rx := w_rx w'\<rparr>" using lsapi_read_frame [OF assms(1)] live by simp
  then show ?thesis using live by blast
qed

lemma read_fully_keeps:
  "read_fully lsapi_read n w = (bs, c, w') \<Longrightarrow> rx_live w \<Longrightarrow> rx_live w' \<and> (\<exists>es. w' = w\<lparr>w_rx := es\<rparr>)"
proof (induction n arbitrary: w bs c w' rule: less_induct)
  case (less n)
  show ?case
  proof (cases "n = 0")
    case True
    then show ?thesis using less.prems by (auto simp: read_fully.simps intro!: exI [of _ "w_rx w"])
  next
    case False
    obtain x w1 where r: "lsapi_read n w = (x, w1)" by fastforce
    have k: "rx_live w1" "\<exists>es. w1 = w\<lparr>w_rx := es\<rparr>" using lsapi_read_keeps [OF r less.prems(2)] by auto
    show ?thesis
    proof (cases "\<exists>b ds. x = Inr (b # ds)")
      case False
      then have "w' = w1" using less.prems(1) r \<open>n \<noteq> 0\<close>
        by (subst (asm) read_fully.simps) (auto split: sum.splits list.splits)
      then show ?thesis using k by simp
    next
      case True
      then obtain b ds where x: "x = Inr (b # ds)" by blast
      obtain ds' c' w2 where r2: "read_fully lsapi_read (n - length (b # ds)) w1 = (ds', c', w2)" using prod_cases3 by blast
      then have "w' = w2" using less.prems(1) r x \<open>n \<noteq> 0\<close> by (subst (asm) read_fully.simps) auto
      moreover have "rx_live w2 \<and> (\<exists>es. w2 = w1\<lparr>w_rx := es\<rparr>)" using less.IH [OF _ r2 k(1)] \<open>n \<noteq> 0\<close> by simp
      ultimately show ?thesis using k(2) by auto
    qed
  qed
qed

lemma ReadReqBody_keeps:
  assumes "LSAPI_ReadReqBody_r r n w = Some (k, data, r', w')" "rx_live w"
  shows "(\<exists>a b. r' = r\<lparr>m_bufProcessed := a, m_reqBodyRead := b\<rparr>) \<and> rx_live w' \<and> (\<exists>es. w' = w\<lparr>w_rx := es\<rparr>)"
proof -
  have same: "\<exists>a b. r = r\<lparr>m_bufProcessed := a, m_reqBodyRead := b\<rparr>" by (intro exI [of _ "m_bufProcessed r"] exI [of _ "m_reqBodyRead r"]) simp
  have samew: "\<exists>es. w = w\<lparr>w_rx := es\<rparr>" by (intro exI [of _ "w_rx w"]) simp
  show ?thesis
  proof (cases "m_fd r = -1 \<or> n \<ge> 2 ^ 63 \<or> m_reqBodyLen r - m_reqBodyRead r \<le> 0")
    case True
    then have "r' = r \<and> w' = w" using assms(1) by (auto simp: LSAPI_ReadReqBody_r_def Let_def split: if_splits)
    then show ?thesis using same samew assms(2) by simp
  next
    case False
    let ?n = "min n (nat (m_reqBodyLen r - m_reqBodyRead r))"
    let ?len = "min (nat (m_bufRead r - m_bufProcessed r)) ?n"
    obtain bs c w1 where rf: "read_fully lsapi_read (?n - ?len) w = (bs, c, w1)" using prod_cases3 by blast
    have upd: "\<exists>a b. r\<lparr>m_bufProcessed := x\<rparr> = r\<lparr>m_bufProcessed := a, m_reqBodyRead := b\<rparr>" for x
      by (intro exI [of _ x] exI [of _ "m_reqBodyRead r"]) simp
    obtain buffered where b: "(if 0 < ?len then load (m_bufProcessed r) ?len (m_pReqBuf r) else Some []) = Some buffered"
      using assms(1) False by (auto simp: LSAPI_ReadReqBody_r_def Let_def bind_eq_Some_conv simp del: min_less_iff_conj split: if_splits)
    have "(k, data, r', w') = (if \<not> c \<and> buffered @ bs = [] then (-1, [], r\<lparr>m_bufProcessed := m_bufProcessed r + int ?len\<rparr>, w1)
        else (int (length (buffered @ bs)), buffered @ bs, r\<lparr>m_bufProcessed := m_bufProcessed r + int ?len,
          m_reqBodyRead := m_reqBodyRead r + int (length (buffered @ bs))\<rparr>, w1))"
      using assms(1) False rf b by (simp add: LSAPI_ReadReqBody_r_def Let_def del: min_less_iff_conj split: if_splits)
    then have "w' = w1 \<and> (\<exists>a b. r' = r\<lparr>m_bufProcessed := a, m_reqBodyRead := b\<rparr>)" using upd by (auto split: if_splits)
    then show ?thesis using read_fully_keeps [OF rf assms(2)] by simp
  qed
qed

text \<open>The sink before the response: nothing sent since \<open>out\<close>, the body where the reader expects it.\<close>

definition reading :: "str \<Rightarrow> LsapiResponseSink \<Rightarrow> bool" where
  "reading out s \<longleftrightarrow> lsapi_fresh s \<and> rx_live (ls_world s) \<and> wire (ls_world s) = out"

definition body_here :: "LsapiResponseSink \<Rightarrow> bool" where
  "body_here s \<longleftrightarrow> nat (m_reqBodyLen (ls_req s) - m_reqBodyRead (ls_req s)) \<le> length (body_stream (ls_req s) (ls_world s))"

lemma headers_are_body: "headers_are (r\<lparr>m_bufProcessed := a, m_reqBodyRead := b\<rparr>) hs = headers_are r hs"
  by (simp add: headers_are_def resp_wf_def)

lemma read_reading:
  assumes s: "reading out s" "body_wf (ls_req s)" "n < 2 ^ 63" "0 < n" "n \<le> nat (m_reqBodyLen (ls_req s) - m_reqBodyRead (ls_req s))"
  shows "\<exists>k data r w. LSAPI_ReadReqBody_r (ls_req s) n (ls_world s) = Some (k, data, r, w) \<and>
    reading out (s\<lparr>ls_req := r, ls_world := w\<rparr>) \<and> body_wf r \<and> m_reqBodyLen r = m_reqBodyLen (ls_req s) \<and>
    m_reqBodyRead r = m_reqBodyRead (ls_req s) + int (length data) \<and> (0 < k \<longrightarrow> k = int (length data)) \<and>
    (body_here s \<longrightarrow> 0 < k \<and> body_here (s\<lparr>ls_req := r, ls_world := w\<rparr>))"
proof -
  have live: "rx_live (ls_world s)" and fd: "m_fd (ls_req s) \<noteq> -1" and fresh: "lsapi_fresh s" "wire (ls_world s) = out"
    using s(1) by (auto simp: reading_def lsapi_fresh_def headers_are_def)
  let ?n = "min n (nat (m_reqBodyLen (ls_req s) - m_reqBodyRead (ls_req s)))"
  have n: "?n = n" using s(5) by simp
  from ReadReqBody_spec [OF s(2) fd s(3), of "ls_world s", unfolded n] obtain k data r w where
    rd: "LSAPI_ReadReqBody_r (ls_req s) n (ls_world s) = Some (k, data, r, w)" "body_wf r"
      "body_stream (ls_req s) (ls_world s) = data @ body_stream r w" "m_reqBodyRead r = m_reqBodyRead (ls_req s) + int (length data)"
      "k = int (length data) \<or> k = -1 \<and> data = []" "length data \<le> n"
      "rx_live (ls_world s) \<and> n \<le> length (body_stream (ls_req s) (ls_world s)) \<longrightarrow> k = int (length data) \<and> length data = n" by blast
  from ReadReqBody_keeps [OF rd(1) live] obtain a b es where
    k: "r = (ls_req s)\<lparr>m_bufProcessed := a, m_reqBodyRead := b\<rparr>" "rx_live w" "w = (ls_world s)\<lparr>w_rx := es\<rparr>" by blast
  have len: "m_reqBodyLen r = m_reqBodyLen (ls_req s)" using k(1) by simp
  have "reading out (s\<lparr>ls_req := r, ls_world := w\<rparr>)"
    using fresh k by (simp add: reading_def lsapi_fresh_def headers_are_body)
  moreover have "0 < k \<and> body_here (s\<lparr>ls_req := r, ls_world := w\<rparr>)" if "body_here s"
  proof -
    have "n \<le> length (body_stream (ls_req s) (ls_world s))" using that s(5) by (simp add: body_here_def)
    then have "k = int (length data)" "length data = n" using rd(7) live by blast+
    then show ?thesis using that rd(3,4) len s(4) by (simp add: body_here_def)
  qed
  ultimately show ?thesis using rd(1,2,4,5) len by auto
qed

lemma lsapi_body_loop_ok:
  assumes free: "sink_free pw" and "idle_chain fs" "reading out (fs_sink fs)" "body_wf (ls_req (fs_sink fs))"
    "m_reqBodyLen (ls_req (fs_sink fs)) = len" "m_reqBodyRead (ls_req (fs_sink fs)) = n" "len < 2 ^ 63"
  shows "\<exists>ok fs'. lsapi_body_loop pw len n fs = Some (ok, fs') \<and> idle_chain fs' \<and> reading out (fs_sink fs') \<and> (body_here (fs_sink fs) \<longrightarrow> ok)"
  using assms(2-)
proof (induction "nat (len - n)" arbitrary: n fs rule: less_induct)
  case less
  show ?case
  proof (cases "n < len \<and> \<not> hd_has_local_response (fs_data fs)")
    case False
    then show ?thesis using less.prems by (subst lsapi_body_loop.simps) auto
  next
    case True
    let ?want = "min (nat (len - n)) BODY_CHUNK_SIZE"
    have w: "?want < 2 ^ 63" "0 < ?want" "?want \<le> nat (m_reqBodyLen (ls_req (fs_sink fs)) - m_reqBodyRead (ls_req (fs_sink fs)))"
      using True less.prems(4,5) by (auto simp: BODY_CHUNK_SIZE_def)
    from read_reading [OF less.prems(2,3) w] obtain k data r w where
      rd: "LSAPI_ReadReqBody_r (ls_req (fs_sink fs)) ?want (ls_world (fs_sink fs)) = Some (k, data, r, w)"
        "reading out ((fs_sink fs)\<lparr>ls_req := r, ls_world := w\<rparr>)" "body_wf r" "m_reqBodyLen r = len" "m_reqBodyRead r = n + int (length data)"
        "0 < k \<longrightarrow> k = int (length data)"
        "body_here (fs_sink fs) \<longrightarrow> 0 < k \<and> body_here ((fs_sink fs)\<lparr>ls_req := r, ls_world := w\<rparr>)"
      using less.prems(4,5) by auto
    let ?s = "(fs_sink fs)\<lparr>ls_req := r, ls_world := w\<rparr>"
    show ?thesis
    proof (cases "k \<le> 0")
      case bad: True
      then have "lsapi_body_loop pw len n fs = Some (False, fs\<lparr>fs_sink := ?s\<rparr>)"
        using True rd(1) by (subst lsapi_body_loop.simps) (simp add: Let_def)
      then show ?thesis using bad rd less.prems(1) by (intro exI [of _ False]) auto
    next
      case good: False
      then have k: "k = int (length data)" "0 < length data" using rd(6) by auto
      let ?fs = "fs\<lparr>fs_sink := ?s, fs_data := (fs_data fs)\<lparr>hd_request_body := data\<rparr>\<rparr>"
      have "idle_chain ?fs" using less.prems(1) by simp
      then have "\<exists>fs2. onRequestBody pw (len \<le> n + k) ?fs = Some fs2 \<and> idle_chain fs2 \<and> fs_sink fs2 = fs_sink ?fs"
        unfolding onRequestBody_def by (rule run_phase_idle [OF free]) (simp add: setEndOfStream_def setRequestBody_def)
      then obtain fs2 where 2: "onRequestBody pw (len \<le> n + k) ?fs = Some fs2" "idle_chain fs2" "fs_sink fs2 = ?s" by auto
      have loop: "lsapi_body_loop pw len n fs = lsapi_body_loop pw len (n + k) fs2"
        using True good k(1) rd(1) 2(1) by (subst lsapi_body_loop.simps) (simp add: Let_def)
      have lt: "nat (len - (n + k)) < nat (len - n)" using True k by simp
      have p: "reading out (fs_sink fs2)" "body_wf (ls_req (fs_sink fs2))" "m_reqBodyLen (ls_req (fs_sink fs2)) = len"
        "m_reqBodyRead (ls_req (fs_sink fs2)) = n + k" using 2(3) rd k by simp_all
      from less.hyps [OF lt 2(2) p less.prems(6)] obtain ok fs' where "lsapi_body_loop pw len (n + k) fs2 = Some (ok, fs')"
        "idle_chain fs'" "reading out (fs_sink fs')" "body_here (fs_sink fs2) \<longrightarrow> ok" by blast
      then show ?thesis unfolding loop using rd(7) 2(3) by auto
    qed
  qed
qed

definition lsapi_answer :: "HttpData \<Rightarrow> nat \<times> HeaderPairs \<times> str" where
  "lsapi_answer d =
    (if hd_has_local_response d then (hd_local_response_code d, hd_local_response_additional_headers d, hd_local_response_body d)
     else (200, with_content_length d, hd_response_body d))"

lemma lsapi_respond_delivers:
  assumes "reading out (fs_sink fs)" "lsapi_accepts hs False"
  shows "\<exists>fs' ds. lsapi_respond code hs body fs = Some fs' \<and> payloads_ok ds \<and> concat ds = body \<and>
    wire (ls_world (fs_sink fs')) = out @ packet_bytes (LSAPI_RESP_HEADER, header_payload (int code) (lsapi_lines hs)) @ stream_packets ds"
proof -
  have f: "lsapi_fresh (fs_sink fs)" "wire (ls_world (fs_sink fs)) = out" using assms(1) by (simp_all add: reading_def)
  from lsapi.headers_sent [OF f(1) assms(2), of code] obtain s1 where
    1: "lsapi_sendHeaders code hs False (fs_sink fs) = Some (True, s1)" "lsapi_carries (fs_sink fs) code hs False s1 []" by blast
  from lsapi.body_written [OF 1(2), of body] obtain s2 where
    2: "lsapi_writeBody body s1 = Some (True, s2)" "lsapi_carries (fs_sink fs) code hs False s2 body" by auto
  from lsapi.body_finished [OF 2(2)] obtain s3 where
    3: "lsapi_finishBody s2 = Some (True, s3)" "lsapi_delivered (fs_sink fs) code hs False s3 body" by blast
  from 3(2) f(2) obtain ds where "payloads_ok ds" "concat ds = body"
    "wire (ls_world s3) = out @ packet_bytes (LSAPI_RESP_HEADER, header_payload (int code) (lsapi_lines hs)) @ stream_packets ds"
    unfolding lsapi_delivered_def by blast
  then show ?thesis using 1(1) 2(1) 3(1) by (intro exI [of _ "fs\<lparr>fs_sink := s3\<rparr>"] exI [of _ ds]) (simp add: lsapi_respond_def)
qed

lemma lsapi_default_answers:
  assumes free: "sink_free pw" and idle: "idle_chain fs" and n: "\<not> hd_has_local_response (fs_data fs)"
  shows "\<exists>fs1. lsapi_default_response pw pacifier fs =
      (case lsapi_answer (fs_data fs1) of (code, hs, body) \<Rightarrow> lsapi_respond code hs body fs1) \<and> fs_sink fs1 = fs_sink fs"
proof -
  let ?d = "(fs_data fs)\<lparr>hd_response_body := (if pacifier then lsapi_pacifier (fs_data fs) else []),
    hd_response_headers := [(ascii ''Content-Type'', ascii ''text/plain'')]\<rparr>"
  have "idle_chain (fs\<lparr>fs_data := ?d\<rparr>)" using idle by simp
  then have "\<exists>fs1. onResponseHeaders pw (fs\<lparr>fs_data := ?d\<rparr>) = Some fs1 \<and> idle_chain fs1 \<and> fs_sink fs1 = fs_sink (fs\<lparr>fs_data := ?d\<rparr>)"
    unfolding onResponseHeaders_def by (rule run_phase_idle [OF free]) (simp add: setHeaderMap_def)
  then obtain fs1 where 1: "onResponseHeaders pw (fs\<lparr>fs_data := ?d\<rparr>) = Some fs1" "idle_chain fs1" "fs_sink fs1 = fs_sink fs" by auto
  have "\<exists>fs2. onResponseBody pw fs1 = Some fs2 \<and> idle_chain fs2 \<and> fs_sink fs2 = fs_sink fs1"
    unfolding onResponseBody_def by (rule run_phase_idle [OF free 1(2)]) (simp add: setHeaderMap_def setEndOfStream_def setResponseBody_def)
  then obtain fs2 where 2: "onResponseBody pw fs1 = Some fs2" "idle_chain fs2" "fs_sink fs2 = fs_sink fs" using 1(3) by auto
  have "\<exists>fs3. onResponseTrailers pw fs2 = Some fs3 \<and> idle_chain fs3 \<and> fs_sink fs3 = fs_sink fs2"
    unfolding onResponseTrailers_def by (rule run_phase_idle [OF free 2(2)]) (simp add: setHeaderMap_def)
  then obtain fs3 where 3: "onResponseTrailers pw fs2 = Some fs3" "idle_chain fs3" "fs_sink fs3 = fs_sink fs" using 2(3) by auto
  have "lsapi_default_response pw pacifier fs =
      (if hd_has_local_response (fs_data fs3) then lsapi_send_local fs3
       else lsapi_respond 200 (with_content_length (fs_data fs3)) (hd_response_body (fs_data fs3)) fs3)"
    using 1(1) 2(1) 3(1,2) by (simp add: lsapi_default_response_def Let_def)
  then show ?thesis using 3(3) by (intro exI [of _ fs3]) (simp add: lsapi_answer_def lsapi_send_local_def)
qed

lemma lsapi_serve_answers:
  assumes free: "sink_free pw" and idle: "idle_chain fs" and rd: "reading out (fs_sink fs)" and wf: "body_wf (ls_req (fs_sink fs))"
    and n: "m_reqBodyRead (ls_req (fs_sink fs)) = 0" "m_reqBodyLen (ls_req (fs_sink fs)) < 2 ^ 63"
  shows "\<exists>fs1. reading out (fs_sink fs1) \<and>
    (lsapi_serve pw mm pacifier fs = (case lsapi_answer (fs_data fs1) of (code, hs, body) \<Rightarrow> lsapi_respond code hs body fs1) \<or>
     \<not> body_here (fs_sink fs) \<and> lsapi_serve pw mm pacifier fs = Some fs1)"
proof -
  let ?len = "m_reqBodyLen (ls_req (fs_sink fs))"
  from onRequestHeaders_idle [OF free idle, of mm "\<not> 0 < ?len"] obtain fs1 where
    1: "onRequestHeaders pw mm (\<not> 0 < ?len) fs = Some fs1" "idle_chain fs1" "fs_sink fs1 = fs_sink fs" by blast
  have local: "lsapi_send_local fs' = (case lsapi_answer (fs_data fs') of (code, hs, body) \<Rightarrow> lsapi_respond code hs body fs')"
    if "hd_has_local_response (fs_data fs')" for fs' :: "'a lsapi_state" using that by (simp add: lsapi_send_local_def lsapi_answer_def)
  show ?thesis
  proof (cases "hd_has_local_response (fs_data fs1)")
    case True
    then have "lsapi_serve pw mm pacifier fs = lsapi_send_local fs1" using 1(1) by (simp add: lsapi_serve_def LSAPI_GetReqBodyLen_r_def)
    then show ?thesis using local [OF True] 1(3) rd by (intro exI [of _ fs1]) simp
  next
    case n1: False
    obtain ok fs2 where 2: "(if 0 < ?len then lsapi_body_loop pw ?len 0 fs1 else Some (True, fs1)) = Some (ok, fs2)"
      "idle_chain fs2" "reading out (fs_sink fs2)" "body_here (fs_sink fs) \<longrightarrow> ok"
      using lsapi_body_loop_ok [OF free 1(2), of out ?len 0] 1(2,3) rd wf n by (cases "0 < ?len") auto
    show ?thesis
    proof (cases ok)
      case False
      then have "lsapi_serve pw mm pacifier fs = Some fs2" using 1(1) 2(1) n1 by (simp add: lsapi_serve_def LSAPI_GetReqBodyLen_r_def Let_def)
      then show ?thesis using 2(3,4) False by blast
    next
      case ok: True
      have "\<exists>fs3. onRequestTrailers pw fs2 = Some fs3 \<and> idle_chain fs3 \<and> fs_sink fs3 = fs_sink fs2"
        unfolding onRequestTrailers_def by (rule run_phase_idle [OF free 2(2)]) simp
      then obtain fs3 where 3: "(if \<not> hd_has_local_response (fs_data fs2) then onRequestTrailers pw fs2 else Some fs2) = Some fs3"
        "idle_chain fs3" "fs_sink fs3 = fs_sink fs2" using 2(2) by (cases "hd_has_local_response (fs_data fs2)") auto
      have "lsapi_serve pw mm pacifier fs =
          (if hd_has_local_response (fs_data fs3) then lsapi_send_local fs3
           else if filter_hasStreamingResponse (fs_ctx fs3) then Some fs3 else lsapi_default_response pw pacifier fs3)"
        using 1(1) 2(1) n1 ok 3(1) by (simp add: lsapi_serve_def LSAPI_GetReqBodyLen_r_def Let_def split del: if_split)
      then have run: "lsapi_serve pw mm pacifier fs =
          (if hd_has_local_response (fs_data fs3) then lsapi_send_local fs3 else lsapi_default_response pw pacifier fs3)" using 3(2) by simp
      show ?thesis
      proof (cases "hd_has_local_response (fs_data fs3)")
        case True
        then show ?thesis using run local [OF True] 2(3) 3(3) by (intro exI [of _ fs3]) simp
      next
        case False
        from lsapi_default_answers [OF free 3(2) False, of pacifier] obtain fs4 where
          "lsapi_default_response pw pacifier fs3 = (case lsapi_answer (fs_data fs4) of (code, hs, body) \<Rightarrow> lsapi_respond code hs body fs4)"
          "fs_sink fs4 = fs_sink fs3" by blast
        then show ?thesis using run False 2(3) 3(3) by (intro exI [of _ fs4]) simp
      qed
    qed
  qed
qed


text \<open>A module that adds a response header.\<close>

definition stamping_module :: "(unit, unit, LsapiResponseSink) proxy_wasm" where
  "stamping_module =
    \<lparr>pw_getAbiVersion = (\<lambda>_ v. (Inr (Some ProxyWasm_0_2_1), v)), pw_makeVmKey = (\<lambda>_ _ code. code),
     pw_createWasm = (\<lambda>_ _ _ _ _ v. (Inr (Some ()), v)), pw_is_LsWasm = (\<lambda>_ _. True), pw_start = (\<lambda>_ _ v. (Inr (Some 1), v)),
     pw_configure = (\<lambda>_ _ _ v. (Inr True, v)), pw_getOrCreateThreadLocalPlugin = (\<lambda>h _ v. (Some h, v)), pw_isFailed = (\<lambda>_ _. False),
     pw_getRootContext = (\<lambda>_ _ _. Some 1),
     pw_callback = (\<lambda>_ cb c s v. Some (if \<exists>n e. cb = OnResponseHeaders n e
       then snd (addHeaderMapValue ResponseHeaders (ascii ''X-Seen'') (ascii ''1'') c) else c, s, v))\<rparr>"

abbreviation sample_sink :: LsapiResponseSink where
  "sample_sink \<equiv> \<lparr>ls_req = ready_request\<lparr>m_pReqBuf := [0, 0, 0, 0, 8, 0, 0, 0, 0x61, 0x62], m_bufProcessed := 8, m_bufRead := 10,
      m_reqBodyLen := 3, m_reqBodyRead := 0\<rparr>, ls_world = start_world [RxData [0x63]], ls_error = False\<rparr>"


end
