(* ===== verification/Lsapi_Startup.thy ===== *)
theory Lsapi_Startup
  imports Lsapi_Worker Lsapi_Handler Lsapi_Suexec_Correct
begin

text \<open>
  How a process that speaks LSAPI starts and what it then does for ever: \<open>LSAPI_Init\<close>, the
  parameters in the environment (\<open>LSAPI_Init_Env_Parameters\<close> with the identity for requests without
  authentication, \<open>lsapi_initSuEXEC\<close>), and the loop \<open>run_lsapi_loop\<close> of main.cpp.
\<close>

subsection \<open>The environment\<close>

text \<open>The strings \<open>environ\<close> points to, each \<open>NAME=value\<close>.\<close>

type_synonym environment = "byte list list"

definition env_prefix :: "string \<Rightarrow> byte list \<Rightarrow> bool" where
  "env_prefix s e \<longleftrightarrow> take (length s) e = ascii s"

definition getenv :: "string \<Rightarrow> environment \<Rightarrow> byte list option" where
  "getenv name env = map_option (drop (length name + 1)) (find (env_prefix (name @ ''='')) env)"

text \<open>\<open>atoi\<close>: \<open>strtol\<close> cut down to an \<open>int\<close>.\<close>

definition atoi :: "byte list \<Rightarrow> int" where
  "atoi s = (strtoll s + 2147483648) mod 4294967296 - 2147483648"

definition lsapi_env :: "lsapi_world \<Rightarrow> byte list \<Rightarrow> bool" where
  "lsapi_env w e \<longleftrightarrow> env_prefix ''LSAPI_'' e \<or> env_prefix ''PHP_LSAPI_'' e \<or> (env_prefix ''PHPRC='' e \<and> s_uid w = 0)"

fun unset_lsapi_envs :: "lsapi_world \<Rightarrow> environment \<Rightarrow> environment" where
  "unset_lsapi_envs w [] = []"
| "unset_lsapi_envs w (e # env) = (if lsapi_env w e then unset_lsapi_envs w env else e # unset_lsapi_envs w env)"

subsection \<open>State\<close>

text \<open>\<open>su_core_limit\<close>: the limit on core files was set to 0.\<close>

record startup =
  su_env :: environment
  su_req :: LSAPI_Request
  su_world :: lsapi_world
  su_os :: suexec_os
  su_vars :: worker_vars
  su_server :: "lsapi_prefork_server option"
  su_slow_req_msecs :: int
  su_dump_debug_info :: int
  su_stderr_is_pipe :: bool
  su_core_limit :: bool

text \<open>What the system answers: the files with secrets, the account \<open>nobody\<close>, and the rest.\<close>

record startup_os =
  so_secret :: "byte list \<Rightarrow> secret_file option"
  so_nobody :: "(int \<times> int) option"
  so_malloc_ok :: bool
  so_getppid :: int
  so_phys_pages :: nat
  so_stderr_is_pipe :: bool
  so_load_lve :: "suexec_os \<Rightarrow> suexec_os"  \<comment> \<open>\<open>lsapi_load_lve_lib\<close> and \<open>init_lve_ex\<close>\<close>

definition LSAPI_Set_Max_Reqs :: "int \<Rightarrow> worker_vars \<Rightarrow> worker_vars" where
  "LSAPI_Set_Max_Reqs reqs k = k\<lparr>wk_max_reqs := nat ((reqs - 1) mod 4294967296)\<rparr>"

definition LSAPI_Set_Max_Idle :: "int \<Rightarrow> worker_vars \<Rightarrow> worker_vars" where
  "LSAPI_Set_Max_Idle secs k = k\<lparr>wk_max_idle_secs := secs\<rparr>"

definition LSAPI_No_Check_ppid :: "worker_vars \<Rightarrow> worker_vars" where
  "LSAPI_No_Check_ppid k = k\<lparr>wk_ppid := 0\<rparr>"

definition on_vars :: "(worker_vars \<Rightarrow> worker_vars) \<Rightarrow> startup \<Rightarrow> startup" where
  "on_vars f su = su\<lparr>su_vars := f (su_vars su)\<rparr>"

definition on_pserver :: "(lsapi_prefork_server option \<Rightarrow> lsapi_prefork_server option) \<Rightarrow> startup \<Rightarrow> startup" where
  "on_pserver f su = su\<lparr>su_server := f (su_server su)\<rparr>"

text \<open>\<open>p = getenv (name); if (p) f (p)\<close>\<close>

definition with_env :: "string \<Rightarrow> (byte list \<Rightarrow> startup \<Rightarrow> startup) \<Rightarrow> startup \<Rightarrow> startup" where
  "with_env name f su = (case getenv name (su_env su) of Some p \<Rightarrow> f p su | None \<Rightarrow> su)"

subsection \<open>suEXEC\<close>

definition default_id :: "string \<Rightarrow> environment \<Rightarrow> int" where
  "default_id name env = (case getenv name env of Some p \<Rightarrow> if atoi p > 0 then atoi p else 0 | None \<Rightarrow> 0)"

definition raise_limits :: "lsapi_prefork_server \<Rightarrow> lsapi_prefork_server" where
  "raise_limits sv = sv\<lparr>ps_iMaxChildren := (if ps_iMaxChildren sv < 100 then 100 else ps_iMaxChildren sv),
    ps_iExtraChildren := (if ps_iExtraChildren sv < 1000 then 1000 else ps_iExtraChildren sv)\<rparr>"

definition fill_default_ids :: "startup_os \<Rightarrow> lsapi_world \<Rightarrow> lsapi_world" where
  "fill_default_ids so w =
    (let (uid, gid) = (case so_nobody so of Some ids \<Rightarrow> ids | None \<Rightarrow> (10000, 10000))
     in w\<lparr>s_defaultUid := (if s_defaultUid w = 0 then uid else s_defaultUid w),
          s_defaultGid := (if s_defaultGid w = 0 then gid else s_defaultGid w)\<rparr>)"

definition lsapi_initSuEXEC :: "startup_os \<Rightarrow> startup \<Rightarrow> int \<times> startup" where
  "lsapi_initSuEXEC so su =
    (let w = (su_world su)\<lparr>s_defaultUid := 0, s_defaultGid := 0\<rparr>
     in if s_uid w = 0
        then let w = w\<lparr>s_defaultUid := default_id ''LSAPI_DEFAULT_UID'' (su_env su), s_defaultGid := default_id ''LSAPI_DEFAULT_GID'' (su_env su)\<rparr>
          in case getenv ''LSAPI_SECRET'' (su_env su) of
               None \<Rightarrow> (-1, su\<lparr>su_world := w\<rparr>)
             | Some p \<Rightarrow>
                 (case readSecret (so_secret so p) w of (rc, w) \<Rightarrow>
                   if rc = -1 then (-1, su\<lparr>su_world := w\<rparr>)
                   else (0, su\<lparr>su_world := fill_default_ids so w, su_server := map_option raise_limits (su_server su)\<rparr>))
        else (0, su\<lparr>su_world := fill_default_ids so w\<rparr>))"

text \<open>\<open>atol\<close> of an \<open>int\<close> variable.\<close>

definition lsapi_initLVE :: "startup_os \<Rightarrow> startup \<Rightarrow> startup" where
  "lsapi_initLVE so su =
    (let os = (case getenv ''LSAPI_LVE_ENABLE'' (su_env su) of
                 Some p \<Rightarrow> (su_os su)\<lparr>s_enable_lve := atoi p\<rparr>
               | None \<Rightarrow> (case getenv ''LVE_ENABLE'' (su_env su) of
                   Some p \<Rightarrow> (su_os su)\<lparr>s_enable_lve := atoi p\<rparr> | None \<Rightarrow> su_os su))
     in su\<lparr>su_os := (if s_enable_lve os \<noteq> 0 \<and> s_uid (su_world su) = 0 then so_load_lve so os else os)\<rparr>)"

subsection \<open>The parameters\<close>

definition int_range :: "int \<Rightarrow> bool" where
  "int_range n \<longleftrightarrow> - 2147483648 \<le> n \<and> n < 2147483648"

text \<open>The product is an \<open>int\<close>: no result when it overflows. The result is 0 for \<open>avoidFork = 0\<close>.\<close>

definition avoid_fork :: "byte list \<Rightarrow> int option" where
  "avoid_fork p =
    (let n = atoi p;
         ch = last p;
         n' = (if ch = 0x47 \<or> ch = 0x67 then n * 1073741824 else if ch = 0x4d \<or> ch = 0x6d then n * 1048576 else n)
     in if n = 0 then Some 0 else if int_range n' then Some n' else None)"

definition stderr_params :: "startup_os \<Rightarrow> startup \<Rightarrow> startup" where
  "stderr_params so su =
    (let su = with_env ''LSAPI_STDERR_LOG'' (\<lambda>p su. su\<lparr>su_world := snd (lsapi_reopen_stderr p (su_os su) (su_world su))\<rparr>) su
     in if s_stderr_log_path (su_world su) = None then su\<lparr>su_stderr_is_pipe := so_stderr_is_pipe so\<rparr> else su)"

definition reqs_params :: "startup \<Rightarrow> startup" where
  "reqs_params su =
    (let set = (\<lambda>p. if atoi p > 0 then on_vars (LSAPI_Set_Max_Reqs (atoi p)) else id)
     in if getenv ''PHP_LSAPI_MAX_REQUESTS'' (su_env su) \<noteq> None
        then with_env ''PHP_LSAPI_MAX_REQUESTS'' set su else with_env ''LSAPI_MAX_REQS'' set su)"

definition fork_params :: "startup \<Rightarrow> (int \<times> startup) option" where
  "fork_params su =
    (case getenv ''LSAPI_AVOID_FORK'' (su_env su) of None \<Rightarrow> Some (0, su)
     | Some p \<Rightarrow> do {
         n \<leftarrow> avoid_fork p;
         Some (n, if n = 0 then su
                  else on_vars (\<lambda>k. k\<lparr>wk_keep_listener := 2,
                    wk_min_avail_pages := (if n \<ge> 10485760 then nat (n div 4096) else wk_min_avail_pages k)\<rparr>) su) })"

definition request_params :: "startup \<Rightarrow> startup" where
  "request_params su =
    (let su = with_env ''LSAPI_ACCEPT_NOTIFY'' (\<lambda>p su. su\<lparr>su_world := (su_world su)\<lparr>s_accept_notify := (atoi p \<noteq> 0)\<rparr>\<rparr>) su;
         su = with_env ''LSAPI_SLOW_REQ_MSECS'' (\<lambda>p su. su\<lparr>su_slow_req_msecs := atoi p\<rparr>) su;
         su = (if getenv ''LSAPI_ALLOW_CORE_DUMP'' (su_env su) = None then su\<lparr>su_core_limit := True\<rparr>
               else su\<lparr>su_os := (su_os su)\<lparr>s_enable_core_dump := True\<rparr>\<rparr>)
     in with_env ''LSAPI_MAX_IDLE'' (\<lambda>p. on_vars (LSAPI_Set_Max_Idle (atoi p))) su)"

definition children_param :: "environment \<Rightarrow> int" where
  "children_param env =
    (case getenv ''PHP_LSAPI_CHILDREN'' env of Some p \<Rightarrow> atoi p
     | None \<Rightarrow> (case getenv ''LSAPI_CHILDREN'' env of Some p \<Rightarrow> atoi p | None \<Rightarrow> 0))"

definition start_prefork :: "startup_os \<Rightarrow> int \<Rightarrow> startup \<Rightarrow> startup" where
  "start_prefork so avoidFork su =
    (let n = children_param (su_env su) in
     if n > 1
     then case LSAPI_Init_Prefork_Server (so_malloc_ok so) n (avoidFork \<noteq> 0) (wk_max_busy_workers (su_vars su), su_server su) of
       (rc, busy, sv) \<Rightarrow>
         let k = (su_vars su)\<lparr>wk_max_busy_workers := busy\<rparr>;
             k = (if su_server su = None \<and> sv \<noteq> None then k\<lparr>wk_ppid := so_getppid so, wk_total_pages := so_phys_pages so\<rparr> else k)
         in su\<lparr>su_vars := k, su_server := LSAPI_Set_Server_fd (m_fdListen (su_req su)) sv\<rparr>
     else su)"

definition prefork_params :: "startup \<Rightarrow> startup" where
  "prefork_params su =
    (let su = with_env ''LSAPI_EXTRA_CHILDREN'' (\<lambda>p. on_pserver (LSAPI_Set_Extra_Children (atoi p))) su;
         su = with_env ''LSAPI_MAX_IDLE_CHILDREN'' (\<lambda>p. on_pserver (LSAPI_Set_Max_Idle_Children (atoi p))) su;
         su = with_env ''LSAPI_PGRP_MAX_IDLE'' (\<lambda>p. on_pserver (LSAPI_Set_Server_Max_Idle_Secs (atoi p))) su;
         su = with_env ''LSAPI_MAX_PROCESS_TIME'' (\<lambda>p. on_pserver (LSAPI_Set_Max_Process_Time (atoi p))) su;
         su = with_env ''LSAPI_PPID_NO_CHECK'' (\<lambda>p. on_vars LSAPI_No_Check_ppid) su;
         su = with_env ''LSAPI_MAX_BUSY_WORKER''
                (\<lambda>p. on_vars (\<lambda>k. (if atoi p \<ge> 0 then LSAPI_No_Check_ppid else id) (k\<lparr>wk_max_busy_workers := atoi p\<rparr>))) su
     in with_env ''LSAPI_DUMP_DEBUG_INFO'' (\<lambda>p su. su\<lparr>su_dump_debug_info := atoi p\<rparr>) su)"

definition LSAPI_Init_Env_Parameters :: "startup_os \<Rightarrow> startup \<Rightarrow> (int \<times> startup) option" where
  "LSAPI_Init_Env_Parameters so su = do {
    let su = reqs_params (stderr_params so su);
    let su = with_env ''LSAPI_KEEP_LISTEN'' (\<lambda>p. on_vars (\<lambda>k. k\<lparr>wk_keep_listener := atoi p\<rparr>)) su;
    (avoidFork, su) \<leftarrow> fork_params su;
    let su = request_params su;
    let (rc, su) =
      (if LSAPI_Is_Listen_r (su_req su)
       then case lsapi_initSuEXEC so (prefork_params (start_prefork so avoidFork su)) of
         (rc, su) \<Rightarrow> if rc = -1 then (-1 :: int, su) else (0, lsapi_initLVE so su)
       else (0, su));
    Some (if rc = -1 then (-1, su) else (0, su\<lparr>su_env := unset_lsapi_envs (su_world su) (su_env su)\<rparr>)) }"

text \<open>\<open>LSAPI_Init\<close>, for a process that has not called it: \<open>LSAPI_SOCK_FILENO\<close> is 0.\<close>

definition LSAPI_Init :: "bool \<Rightarrow> int \<Rightarrow> int \<Rightarrow> int \<Rightarrow> bool \<Rightarrow> startup \<Rightarrow> int \<times> bool \<times> startup" where
  "LSAPI_Init inited euid getppid dupfd pipe su =
    (if inited then (0, True, su)
     else let w = (su_world su)\<lparr>s_uid := euid, s_secret := (s_secret (su_world su))[0 := 0]\<rparr>
       in case LSAPI_InitRequest 0 dupfd pipe w of (rc, r) \<Rightarrow>
         if rc = -1 then (-1, False, su\<lparr>su_world := w, su_req := r\<rparr>)
         else (0, True, su\<lparr>su_world := w, su_req := r, su_vars := (su_vars su)\<lparr>wk_ppid := getppid\<rparr>\<rparr>))"

subsection \<open>The loop\<close>

text \<open>
  One call of \<open>LSAPI_Prefork_Accept_r\<close>: the prefork server while there is one, the events, and
  whether a shutdown was requested meanwhile.
\<close>

record accept_call =
  ac_server :: "server_run option"
  ac_clock :: "nat \<Rightarrow> int"
  ac_events :: "wait_event list"
  ac_shutdown :: bool

text \<open>What is fixed while the loop runs: the library, the runtime, the files, the command line.\<close>

record ('v, 'h) loop_args =
  la_pw :: "('v, 'h, LsapiResponseSink) proxy_wasm"
  la_runtime :: wasm_runtime
  la_read_file :: "str \<Rightarrow> str option option"
  la_module_path :: str
  la_envs :: wasm_envs
  la_pacifier :: bool

definition load_in_worker :: "('v, 'h) loop_args \<Rightarrow> 'v \<Rightarrow> bool \<times> 'h WasmModuleManager \<times> 'v" where
  "load_in_worker la v =
    loadModule (la_pw la) (la_runtime la) (la_read_file la) (la_module_path la) (ascii ''custom_filter'')
      (if la_envs la \<noteq> Map.empty then setEnvironmentVariables (la_envs la) new_manager else new_manager) v"

text \<open>One request: it is handled and finished.\<close>

definition serve_one ::
  "('v, 'h) loop_args \<Rightarrow> nat \<Rightarrow> 'h WasmModuleManager \<Rightarrow> worker \<Rightarrow> 'v \<Rightarrow> (worker \<times> 'v) option" where
  "serve_one la ctx_id mm = (\<lambda>(r, w, os, k) v. do {
    (r, w, v) \<leftarrow> lsapi_handle_request (la_pw la) (Some mm) (la_pacifier la) ctx_id r w v;
    (_, r, w) \<leftarrow> LSAPI_Finish_r r w;
    Some ((r, w, os, k), v) })"

text \<open>\<open>mm\<close> is the module manager once the module is loaded. The first result is false while the loop still runs.\<close>

fun lsapi_loop ::
  "('v, 'h) loop_args \<Rightarrow> accept_call list \<Rightarrow> nat \<Rightarrow> 'h WasmModuleManager option \<Rightarrow> worker \<Rightarrow> 'v \<Rightarrow> (bool \<times> worker \<times> 'v) option" where
  "lsapi_loop la [] ctx_id mm st v = Some (False, st, v)"
| "lsapi_loop la (c # cs) ctx_id mm st v = do {
    (res, st) \<leftarrow> LSAPI_Prefork_Accept_r (ac_server c) (ac_clock c) (ac_events c) st;
    (case res of
       Returns n \<Rightarrow>
         if n < 0 \<or> ac_shutdown c then Some (True, st, v)
         else do {
           let (ok, mm, v) = (case mm of Some mm \<Rightarrow> (True, mm, v) | None \<Rightarrow> load_in_worker la v);
           (if ok
            then do {
              (st, v) \<leftarrow> serve_one la ctx_id mm st v;
              lsapi_loop la cs (ctx_id + 1) (Some mm) st v }
            else case st of (r, w, os, k) \<Rightarrow> do {
              (_, r, w) \<leftarrow> LSAPI_Finish_r r w;
              Some (True, (r, w, os, k), v) }) }
     | _ \<Rightarrow> Some (False, st, v)) }"

text \<open>
  The result is the exit status, \<open>None\<close> while the process runs. The result of
  \<open>LSAPI_Init_Env_Parameters\<close> is not looked at.
\<close>

definition run_lsapi_loop ::
  "('v, 'h) loop_args \<Rightarrow> startup_os \<Rightarrow> bool \<times> int \<times> int \<times> bool \<Rightarrow> accept_call list \<Rightarrow> startup \<Rightarrow> 'v \<Rightarrow> (int option \<times> worker \<times> 'v) option" where
  "run_lsapi_loop la so = (\<lambda>(inited, euid, dupfd, pipe) cs su v.
    (case LSAPI_Init inited euid (so_getppid so) dupfd pipe su of (rc, inited, su) \<Rightarrow>
      if rc < 0 then Some (Some 1, (su_req su, su_world su, su_os su, su_vars su), v)
      else do {
        (_, su) \<leftarrow> LSAPI_Init_Env_Parameters so su;
        (stopped, st, v) \<leftarrow> lsapi_loop la cs 1 None (su_req su, su_world su, su_os su, su_vars su) v;
        Some (if stopped then Some 0 else None, st, v) }))"

subsection \<open>The identity after the start\<close>

text \<open>The steps before suEXEC leave the environment, the listening socket and the user alone.\<close>

definition same_start :: "startup \<Rightarrow> startup \<Rightarrow> bool" where
  "same_start su su' \<longleftrightarrow> su_env su' = su_env su \<and> su_req su' = su_req su \<and> s_uid (su_world su') = s_uid (su_world su)"

lemma same_start_refl [simp]: "same_start su su"
  by (simp add: same_start_def)

lemma same_start_trans: "same_start a b \<Longrightarrow> same_start b c \<Longrightarrow> same_start a c"
  by (simp add: same_start_def)

lemma same_start_with_env:
  assumes "same_start a su" "\<And>p s. same_start a s \<Longrightarrow> same_start a (f p s)"
  shows "same_start a (with_env x f su)"
  using assms by (simp add: with_env_def split: option.splits)

lemma same_start_on [simp]: "same_start a (on_vars f su) = same_start a su" "same_start a (on_pserver g su) = same_start a su"
  by (simp_all add: same_start_def on_vars_def on_pserver_def)

lemma stderr_params_same: "same_start su (stderr_params so su)"
proof -
  have "same_start su (with_env ''LSAPI_STDERR_LOG'' (\<lambda>p su. su\<lparr>su_world := snd (lsapi_reopen_stderr p (su_os su) (su_world su))\<rparr>) su)"
    by (rule same_start_with_env) (simp_all add: same_start_def)
  then show ?thesis by (simp add: stderr_params_def Let_def same_start_def)
qed

lemma reqs_params_same: "same_start su (reqs_params su)"
  by (simp add: reqs_params_def Let_def same_start_with_env)

lemma fork_params_same: "fork_params su = Some (n, su') \<Longrightarrow> same_start su su'"
  by (auto simp: fork_params_def split: option.splits bind_splits if_splits)

lemma request_params_same: "same_start su (request_params su)"
proof -
  define a where "a = with_env ''LSAPI_ACCEPT_NOTIFY'' (\<lambda>p su. su\<lparr>su_world := (su_world su)\<lparr>s_accept_notify := (atoi p \<noteq> 0)\<rparr>\<rparr>) su"
  define b where "b = with_env ''LSAPI_SLOW_REQ_MSECS'' (\<lambda>p su. su\<lparr>su_slow_req_msecs := atoi p\<rparr>) a"
  define c where "c = (if getenv ''LSAPI_ALLOW_CORE_DUMP'' (su_env b) = None then b\<lparr>su_core_limit := True\<rparr>
      else b\<lparr>su_os := (su_os b)\<lparr>s_enable_core_dump := True\<rparr>\<rparr>)"
  have "same_start su a" unfolding a_def by (rule same_start_with_env) (simp_all add: same_start_def)
  then have "same_start su b" unfolding b_def by (rule same_start_with_env) (simp_all add: same_start_def)
  then have "same_start su c" by (simp add: c_def same_start_def)
  then have "same_start su (with_env ''LSAPI_MAX_IDLE'' (\<lambda>p. on_vars (LSAPI_Set_Max_Idle (atoi p))) c)"
    by (rule same_start_with_env) simp
  then show ?thesis unfolding request_params_def Let_def c_def b_def a_def .
qed

lemma start_prefork_same: "same_start su (start_prefork so n su)"
  by (simp add: start_prefork_def same_start_def Let_def split: prod.splits)

lemma prefork_params_same: "same_start su (prefork_params su)"
  unfolding prefork_params_def Let_def
  by (intro same_start_with_env same_start_refl) (simp_all, simp add: same_start_def)

lemma unset_lsapi_envs_filter: "unset_lsapi_envs w env = filter (\<lambda>e. \<not> lsapi_env w e) env"
  by (induction env) auto

definition good_secret :: "startup_os \<Rightarrow> environment \<Rightarrow> bool" where
  "good_secret so env \<longleftrightarrow> (\<exists>p f m. getenv ''LSAPI_SECRET'' env = Some p \<and> so_secret so p = Some f \<and> st_mode f = Some m \<and>
     m mod 64 = 0 \<and> 16 \<le> length (file_data f))"

lemma readSecret_spec:
  "readSecret file w = (rc, w') \<Longrightarrow> (rc = 0 \<or> rc = -1) \<and> s_defaultUid w' = s_defaultUid w \<and> s_defaultGid w' = s_defaultGid w \<and>
    (rc \<noteq> -1 \<longrightarrow> (\<exists>f m. file = Some f \<and> st_mode f = Some m \<and> m mod 64 = 0 \<and> 16 \<le> length (file_data f)))"
  by (auto simp: readSecret_def Let_def split: option.splits if_splits)

lemma default_id_nonneg: "0 \<le> default_id n env"
  by (simp add: default_id_def split: option.splits)

lemma fill_default_ids_pos:
  assumes "\<forall>uid gid. so_nobody so = Some (uid, gid) \<longrightarrow> 0 < uid \<and> 0 < gid" "0 \<le> s_defaultUid w" "0 \<le> s_defaultGid w"
  shows "0 < s_defaultUid (fill_default_ids so w)" "0 < s_defaultGid (fill_default_ids so w)"
  using assms by (auto simp: fill_default_ids_def Let_def split: option.splits prod.splits)

lemma initSuEXEC_spec:
  assumes "lsapi_initSuEXEC so su = (rc, su')" "\<forall>uid gid. so_nobody so = Some (uid, gid) \<longrightarrow> 0 < uid \<and> 0 < gid"
  shows "su_env su' = su_env su"
    and "rc \<noteq> -1 \<Longrightarrow> rc = 0 \<and> 0 < s_defaultUid (su_world su') \<and> 0 < s_defaultGid (su_world su') \<and>
      (s_uid (su_world su) = 0 \<longrightarrow> good_secret so (su_env su))"
    and "rc = -1 \<Longrightarrow> s_uid (su_world su) = 0 \<and> s_defaultUid (su_world su') = default_id ''LSAPI_DEFAULT_UID'' (su_env su)"
proof -
  let ?w = "(su_world su)\<lparr>s_defaultUid := default_id ''LSAPI_DEFAULT_UID'' (su_env su), s_defaultGid := default_id ''LSAPI_DEFAULT_GID'' (su_env su)\<rparr>"
  let ?all = "su_env su' = su_env su \<and>
    (rc \<noteq> -1 \<longrightarrow> rc = 0 \<and> 0 < s_defaultUid (su_world su') \<and> 0 < s_defaultGid (su_world su') \<and>
      (s_uid (su_world su) = 0 \<longrightarrow> good_secret so (su_env su))) \<and>
    (rc = -1 \<longrightarrow> s_uid (su_world su) = 0 \<and> s_defaultUid (su_world su') = default_id ''LSAPI_DEFAULT_UID'' (su_env su))"
  have ?all
  proof (cases "s_uid (su_world su) = 0")
    case root: True
    show ?thesis
    proof (cases "getenv ''LSAPI_SECRET'' (su_env su)")
      case None
      then show ?thesis using assms(1) root by (auto simp: lsapi_initSuEXEC_def Let_def)
    next
      case (Some p)
      obtain rc1 w1 where rs: "readSecret (so_secret so p) ?w = (rc1, w1)" by fastforce
      note sp = readSecret_spec [OF rs]
      have ids: "0 \<le> s_defaultUid w1" "0 \<le> s_defaultGid w1" using sp default_id_nonneg by simp_all
      show ?thesis
        using assms(1) root Some rs sp fill_default_ids_pos [OF assms(2) ids]
        by (auto simp: lsapi_initSuEXEC_def Let_def good_secret_def split: if_splits)
    qed
  next
    case False
    then show ?thesis using assms(1) fill_default_ids_pos [OF assms(2), of "(su_world su)\<lparr>s_defaultUid := 0, s_defaultGid := 0\<rparr>"]
      by (auto simp: lsapi_initSuEXEC_def Let_def)
  qed
  then show "su_env su' = su_env su"
    "rc \<noteq> -1 \<Longrightarrow> rc = 0 \<and> 0 < s_defaultUid (su_world su') \<and> 0 < s_defaultGid (su_world su') \<and>
      (s_uid (su_world su) = 0 \<longrightarrow> good_secret so (su_env su))"
    "rc = -1 \<Longrightarrow> s_uid (su_world su) = 0 \<and> s_defaultUid (su_world su') = default_id ''LSAPI_DEFAULT_UID'' (su_env su)"
    by blast+
qed


text \<open>A process of root with a secret and a prefork server of five workers.\<close>

definition demo_startup_os :: startup_os where
  "demo_startup_os = \<lparr>so_secret = (\<lambda>_. Some \<lparr>st_mode = Some 256, file_data = replicate 16 7\<rparr>), so_nobody = Some (99, 98), so_malloc_ok = True,
     so_getppid = 1, so_phys_pages = 10, so_stderr_is_pipe = False, so_load_lve = id\<rparr>"

definition demo_startup :: startup where
  "demo_startup = \<lparr>su_env = [ascii ''LSAPI_SECRET=/s'', ascii ''HOME=/'', ascii ''LSAPI_CHILDREN=5''], su_req = zero_request\<lparr>m_fdListen := 3\<rparr>,
     su_world = start_world [],
     su_os = \<lparr>priv_log = [], priv_ok = (\<lambda>_. False), getpwuid = (\<lambda>_. None), s_lve = False, fp_lve_enter = (\<lambda>_. 0), fp_lve_jail = None,
       s_enable_lve = 0, s_enable_core_dump = False, os_getuid = 0, os_getpid = 1, os_strerror = [], getcwd = None,
       realpath = (\<lambda>_. (None, [])), open_log = (\<lambda>_. False)\<rparr>,
     su_vars = \<lparr>wk_status = None, wk_accepting_workers = None, wk_keep_listener = 1, wk_req_processed = 0, wk_max_reqs = 4294967295,
       wk_max_idle_secs = 300, wk_max_busy_workers = -1, wk_avail_pages = None, wk_min_avail_pages = 262144, wk_total_pages = 1, wk_ppid = 1,
       wk_restored_ppid = 0\<rparr>,
     su_server = None, su_slow_req_msecs = 0, su_dump_debug_info = 0, su_stderr_is_pipe = False, su_core_limit = False\<rparr>"

lemma inj_byte_of_char: "inj (of_char :: char \<Rightarrow> byte)"
proof (rule injI)
  fix c d :: char
  have nat: "unat (of_char c :: byte) = of_char c" for c
    using of_char_mod_256 [of c, where ?'a = nat] unat_of_nat [of "of_char c", where ?'a = 8] by (simp add: of_nat_of_char)
  assume "(of_char c :: byte) = of_char d"
  then have "(of_char c :: nat) = of_char d" using nat by metis
  then show "c = d" by simp
qed

lemma env_prefix_ascii: "env_prefix s (ascii e) \<longleftrightarrow> take (length s) e = s"
  by (simp add: env_prefix_def ascii_def take_map inj_map_eq_map [OF inj_byte_of_char])

lemma initSuEXEC_succeeds: "s_uid (su_world su) = 0 \<longrightarrow> good_secret so (su_env su) \<Longrightarrow> fst (lsapi_initSuEXEC so su) = 0"
  by (auto simp: lsapi_initSuEXEC_def good_secret_def readSecret_def Let_def)

text \<open>With a good secret, or for another user than root, the start succeeds.\<close>

lemma startup_succeeds:
  assumes "getenv ''LSAPI_AVOID_FORK'' (su_env su) = None" "s_uid (su_world su) = 0 \<longrightarrow> good_secret so (su_env su)"
  shows "\<exists>su'. LSAPI_Init_Env_Parameters so su = Some (0, su')"
proof -
  define a where "a = with_env ''LSAPI_KEEP_LISTEN'' (\<lambda>p. on_vars (\<lambda>k. k\<lparr>wk_keep_listener := atoi p\<rparr>)) (reqs_params (stderr_params so su))"
  define c where "c = prefork_params (start_prefork so 0 (request_params a))"
  have same: "same_start su a" unfolding a_def
    by (rule same_start_with_env) (auto intro: same_start_trans [OF stderr_params_same reqs_params_same])
  then have "fork_params a = Some (0, a)" using assms(1) by (simp add: same_start_def fork_params_def)
  moreover have "same_start su c"
    unfolding c_def
    by (rule same_start_trans [OF same_start_trans [OF same_start_trans [OF same request_params_same] start_prefork_same] prefork_params_same])
  then have "fst (lsapi_initSuEXEC so c) = 0" using assms(2) by (intro initSuEXEC_succeeds) (simp add: same_start_def)
  ultimately show ?thesis
    unfolding LSAPI_Init_Env_Parameters_def Let_def a_def [symmetric]
    by (cases "lsapi_initSuEXEC so c") (simp add: c_def [symmetric])
qed


end
