(* ===== verification/Spec2Isabelle.thy ===== *)
theory Spec2Isabelle
  imports Lsapi_MD5 Lsapi_Request_Body Lsapi_Response_Correct Lsapi_Read_Request Response_Sink
    Event_Loop_Correct Thread_Pool Handle_Request_Correct Lsapi_Prefork_Correct Lsapi_Worker_Correct Lsapi_Startup
begin

text \<open>
  \<^bold>\<open>A verification library for lswasm\<close>

  lswasm serves requests through WebAssembly filter modules. Requests reach it over HTTP
  (src/src/main.cpp: an event loop, connections and a thread pool) or over LSAPI, LiteSpeed's binary
  protocol, whose worker side is the C library src/src/lsapilib.c. On either way a request
  becomes a \<open>HttpData\<close>, runs through the phases of a \<open>HttpFilterContext\<close> (src/src/http_filter.h), which
  calls the contexts of the loaded modules (src/src/wasm_module_manager.h), and is answered
  through a \<open>ResponseSink\<close> (src/src/http_response_sink.h, src/src/lsapi_response_sink.h). There is one theory
  for the model of each component and, where the proofs are long, a second one for its properties.

  \<^bold>\<open>LSAPI: src/src/lsapilib.c, lsapilib.h, lsapidef.h\<close>

  \<^item> \<open>Lsw_Prelude\<close>: bytes, little-endian encodings, memory areas with bounds (\<open>load\<close>, \<open>store\<close>), C strings.
  \<^item> \<open>Lsapi_MD5\<close>: \<open>lsapi_MD5Init\<close>, \<open>lsapi_MD5Update\<close>, \<open>lsapi_MD5Final\<close>, \<open>lsapi_MD5Transform\<close>; the transform is that of RFC 1321 and
    feeding a message in pieces gives the digest of the whole.
  \<^item> \<open>Lsapi_Packet\<close>: the packet header, in either byte order.
  \<^item> \<open>Lsapi_World\<close>: the variables of the process, the connection as a script of answers of the kernel,
    \<open>lsapi_read\<close>, \<open>lsapi_writev\<close>, the notifications. The locale \<open>byte_source\<close> is the contract of a
    socket; it is interpreted on \<open>lsapi_read\<close>.
  \<^item> \<open>Lsapi_Request\<close>, \<open>Lsapi_Request_Parse\<close>, \<open>Lsapi_Request_Safety\<close>, \<open>Lsapi_Request_Body\<close>: \<open>parseRequest\<close> and the accessors for
    headers, environment and body. The parser reads back what a packet encodes, stays inside
    its buffers on every input that passes its checks, and the body is delivered in order.
  \<^item> \<open>Lsapi_Response\<close>, \<open>Lsapi_Response_Correct\<close>: the response buffer, \<open>LSAPI_Write_r\<close>, \<open>LSAPI_Flush_r\<close>, \<open>LSAPI_Finish_r\<close>, \<open>LSAPI_End_Response_r\<close> and the
    others; the bytes on the wire are the packets of the response.
  \<^item> \<open>Lsapi_Suexec\<close>, \<open>Lsapi_Suexec_Correct\<close>, \<open>Lsapi_Read_Request\<close>: \<open>readSecret\<close>, \<open>lsapi_suexec_auth\<close>, \<open>setUID_LVE\<close>, \<open>lsapi_changeUGid\<close> and \<open>readReq\<close>;
    the identity is never root's and only an authenticated one is taken from the packet.
  \<^item> \<open>Lsapi_Prefork\<close>, \<open>Lsapi_Prefork_Correct\<close>: the parent of the workers, with its table of children in shared memory,
    \<open>SIGCHLD\<close> and the periodic check. The steps are an inductive relation with the set of live
    workers as a ghost component; the table and the counter agree with it in every state that can be
    reached, and a round of the loop is a sequence of steps.
  \<^item> \<open>Lsapi_Worker\<close>, \<open>Lsapi_Worker_Correct\<close>: \<open>LSAPI_Prefork_Accept_r\<close> and \<open>LSAPI_Accept_r\<close>; the shared counters contain a worker
    exactly while it has a connection.
  \<^item> \<open>Lsapi_Startup\<close>: \<open>LSAPI_Init\<close>, \<open>LSAPI_Init_Env_Parameters\<close>, \<open>lsapi_initSuEXEC\<close> and \<open>run_lsapi_loop\<close> of main.cpp; what a successful and a failed start
    mean for the default user, on which the property of \<open>lsapi_changeUGid\<close> rests.

  \<^bold>\<open>HTTP and modules: src/src/main.cpp and the headers\<close>

  \<^item> \<open>Http_Utils\<close>, \<open>Http_Parse\<close>: http_utils.h and the parsing, framing and layout functions of main.cpp, with round trips.
  \<^item> \<open>Conn_IO\<close>: \<open>ConnectionIO\<close> of connection_io.h: no byte is lost between event loop and worker, and one of the two can always go on.
  \<^item> \<open>Event_Loop\<close>, \<open>Event_Loop_Correct\<close>: the event loop, with its bookkeeping invariant and no lost wake-ups.
  \<^item> \<open>Thread_Pool\<close>: thread_pool.h as an interleaving of workers; submitted tasks run once and the shutdown ends.
  \<^item> \<open>Response_Sink\<close>, \<open>Wasm_Context\<close>, \<open>Metric_Store\<close>: the two sinks, the stream context of a module with its host
    functions, and the metrics. A locale states what a sink promises; it is interpreted
    on both sinks, and the streaming functions refine a specification with three states over it.
  \<^item> \<open>Module_Manager\<close>, \<open>Http_Filter\<close>: wasm_module_manager.cc and http_filter.h. The locale \<open>registry\<close> is
    interpreted on the operations of the manager.
  \<^item> \<open>Handle_Request\<close>, \<open>Handle_Request_Correct\<close>, \<open>Lsapi_Handler\<close>: \<open>handle_request\<close> and \<open>lsapi_handle_request\<close>, the composition of all of these: every
    request gets one response of unambiguous length, whatever the module does within the
    hypotheses of the theorems.

  Other contracts between components are locales as well: \<open>frame_codec\<close> (packets and HTTP chunks),
  \<open>out_channel\<close> (the output of a connection), \<open>notifier\<close> (changes that wake the event loop) and
  \<open>header_store\<close> (the header maps of a context), each interpreted on the model's operations.

  \<^bold>\<open>Conventions\<close>

  C structures and classes are records, enumerations datatypes, NULL is \<open>None\<close>. Results of system calls,
  signals and what other processes do are inputs, as scripts or lists of events; where
  a list is used up the operation is still waiting, and the result says so. An operation
  yields \<open>None\<close>, \<open>Fault\<close> or a similar value where the C code has undefined behaviour or never returns, so a
  theorem that it yields a result excludes both. Loops are functions with a termination proof; the
  only fuel is in \<open>writev_loop\<close>, one unit for each answer of the kernel and each slot, which is
  enough because every further round steps over a slot. Integers are words or carry their
  wrap-around where the code depends on it. The proxy-wasm library is not part of the
  repository: it is the record \<open>proxy_wasm\<close> of functions, and what the theorems need of it are
  named hypotheses with witnesses.

  \<^bold>\<open>Not modelled\<close>

  The parser of socket addresses and the creation of listening sockets (system calls, unused by
  lswasm), the loading of liblve (dlsym), logging, the branches for systems other than Linux, \<open>main\<close> with its
  command line, signal handlers and listeners, log.h, hash_shim.cc, the sample modules, which run
  inside the WebAssembly machine, and the host library.
\<close>

end
